(* ===== verification/Py_Float.thy ===== *)
theory Py_Float
  imports Complex_Main
begin

text \<open>
  Python floats are IEEE 754 binary64 numbers. A finite float is represented here by the
  real number it denotes, and every arithmetic operation of the source is the exact real
  operation followed by \<open>rnd64\<close>, the rounding to the nearest binary64 value with ties to
  the even significand (gradual underflow included). Infinities, NaN, the sign of zero and
  overflow beyond the largest finite double are not represented.

  The laws of rounding that the other theories use (it is monotone, odd, idempotent and
  exact on every integer up to $2^{53}$) are the locale \<open>float_rounding\<close>, interpreted here
  on \<open>rnd64\<close>.
\<close>

section \<open>Rounding a real to an integer: Python's round and int\<close>

text \<open>\<open>round(x)\<close> with one argument: nearest integer, ties to even.\<close>

definition py_round :: "real \<Rightarrow> int" where
  "py_round x =
     (let f = \<lfloor>x\<rfloor>; d = x - of_int f
      in if d < 1 / 2 then f
         else if 1 / 2 < d then f + 1
         else if even f then f else f + 1)"

text \<open>\<open>int(x)\<close> on a float: truncation towards zero.\<close>

definition py_int :: "real \<Rightarrow> int" where
  "py_int x = (if 0 \<le> x then \<lfloor>x\<rfloor> else \<lceil>x\<rceil>)"

lemma py_round_of_int [simp]: "py_round (of_int i) = i"
  by (simp add: py_round_def)

lemma py_round_numeral [simp]: "py_round (numeral n) = numeral n"
  using py_round_of_int [of "numeral n"] by simp

lemma py_round_0 [simp]: "py_round 0 = 0"
  using py_round_of_int [of 0] by simp

lemma py_round_ge_floor: "\<lfloor>x\<rfloor> \<le> py_round x"
  by (simp add: py_round_def Let_def)

lemma py_round_le_floor: "py_round x \<le> \<lfloor>x\<rfloor> + 1"
  by (simp add: py_round_def Let_def)

lemma py_round_mono:
  assumes "x \<le> y"
  shows "py_round x \<le> py_round y"
proof (cases "\<lfloor>x\<rfloor> = \<lfloor>y\<rfloor>")
  case True
  then show ?thesis using assms by (auto simp: py_round_def Let_def)
next
  case False
  with floor_mono [OF assms] have "\<lfloor>x\<rfloor> + 1 \<le> \<lfloor>y\<rfloor>" by linarith
  then show ?thesis
    using py_round_le_floor [of x] py_round_ge_floor [of y] by linarith
qed

lemma py_round_minus: "py_round (- x) = - py_round x"
proof (cases "of_int \<lfloor>x\<rfloor> = x")
  case True
  then show ?thesis
    by (metis of_int_minus py_round_of_int)
next
  case False
  then have "\<lfloor>- x\<rfloor> = - \<lfloor>x\<rfloor> - 1"
    by linarith
  then show ?thesis
    by (auto simp: py_round_def Let_def)
qed

text \<open>An integer bound on a real carries over to the rounded value.\<close>

lemma py_round_le_int: "x \<le> of_int n \<Longrightarrow> py_round x \<le> n"
  using py_round_mono [of x "of_int n"] by simp

lemma py_round_ge_int: "of_int n \<le> x \<Longrightarrow> n \<le> py_round x"
  using py_round_mono [of "of_int n" x] by simp

lemma py_round_error: "\<bar>of_int (py_round x) - x\<bar> \<le> 1 / 2"
  by (auto simp: py_round_def Let_def; linarith)

lemma py_int_of_int [simp]: "py_int (of_int i) = i"
  by (simp add: py_int_def)

lemma py_int_mono: "x \<le> y \<Longrightarrow> py_int x \<le> py_int y"
proof (cases "0 \<le> x \<or> y < 0")
  case True
  then show "x \<le> y \<Longrightarrow> py_int x \<le> py_int y"
    by (auto simp: py_int_def floor_mono ceiling_mono)
next
  case False
  then have "\<lceil>x\<rceil> \<le> 0" "0 \<le> \<lfloor>y\<rfloor>" by (simp_all add: ceiling_le_zero)
  then have "\<lceil>x\<rceil> \<le> \<lfloor>y\<rfloor>" by linarith
  with False show "py_int x \<le> py_int y" by (simp add: py_int_def)
qed

section \<open>The binary exponent\<close>

text \<open>
  \<open>bexp x\<close> is the exponent of the binade of \<open>x\<close>, at least $-1022$ (below it the
  numbers are subnormal). It is found by halving or doubling, so it evaluates on concrete
  rationals.
\<close>

function expo_up :: "real \<Rightarrow> int \<Rightarrow> int" where
  "expo_up x e = (if x < 2 then e else expo_up (x / 2) (e + 1))"
  by pat_completeness auto
termination
proof (relation "measure (\<lambda>(x, e). nat \<lfloor>x\<rfloor>)")
  fix x :: real and e :: int
  assume "\<not> x < 2"
  then show "((x / 2, e + 1), x, e) \<in> measure (\<lambda>(x, e). nat \<lfloor>x\<rfloor>)"
    by simp linarith
qed simp

function expo_dn :: "real \<Rightarrow> int \<Rightarrow> int" where
  "expo_dn x e = (if 1 \<le> x \<or> e \<le> -1022 then e else expo_dn (2 * x) (e - 1))"
  by pat_completeness auto
termination
  by (relation "measure (\<lambda>(x, e). nat (e + 1022))") auto

declare expo_up.simps [simp del] expo_dn.simps [simp del]

definition bexp :: "real \<Rightarrow> int" where
  "bexp x = (if 2 \<le> \<bar>x\<bar> then expo_up \<bar>x\<bar> 0 else expo_dn \<bar>x\<bar> 0)"

definition rnd64 :: "real \<Rightarrow> real" where
  "rnd64 x = of_int (py_round (x / 2 powi (bexp x - 52))) * 2 powi (bexp x - 52)"

lemma two_powi_step: "2 powi (e + 1) = 2 * (2 powi e :: real)"
  by (simp add: power_int_add)

lemma expo_up_spec:
  "1 \<le> x \<Longrightarrow> e \<le> expo_up x e \<and> 2 powi (expo_up x e) \<le> x * 2 powi e
     \<and> x * 2 powi e < 2 powi (expo_up x e + 1)"
proof (induction x e rule: expo_up.induct)
  case (1 x e)
  show ?case
  proof (cases "x < 2")
    case True
    with "1.prems" show ?thesis
      by (simp add: expo_up.simps [of x e] two_powi_step)
  next
    case False
    have "x / 2 * 2 powi (e + 1) = x * 2 powi e"
      by (simp add: two_powi_step)
    with "1.IH" [OF False] False show ?thesis
      by (simp add: expo_up.simps [of x e])
  qed
qed

lemma expo_dn_spec:
  "0 \<le> x \<Longrightarrow> x < 2 \<Longrightarrow> -1022 \<le> e \<Longrightarrow>
     -1022 \<le> expo_dn x e \<and> x * 2 powi e < 2 powi (expo_dn x e + 1)
     \<and> (2 powi (expo_dn x e) \<le> x * 2 powi e \<or> expo_dn x e = -1022)"
proof (induction x e rule: expo_dn.induct)
  case (1 x e)
  show ?case
  proof (cases "1 \<le> x \<or> e \<le> -1022")
    case True
    with "1.prems" show ?thesis
      by (auto simp: expo_dn.simps [of x e] two_powi_step)
  next
    case False
    have "2 * x * 2 powi (e - 1) = x * 2 powi e"
      using two_powi_step [of "e - 1"] by simp
    with "1.IH" [OF False] "1.prems" False show ?thesis
      by (simp add: expo_dn.simps [of x e])
  qed
qed

lemma bexp_spec:
  "-1022 \<le> bexp x" "\<bar>x\<bar> < 2 powi (bexp x + 1)"
  "2 powi (bexp x) \<le> \<bar>x\<bar> \<or> bexp x = -1022"
  using expo_up_spec [of "\<bar>x\<bar>" 0] expo_dn_spec [of "\<bar>x\<bar>" 0]
  by (auto simp: bexp_def not_le split: if_splits)

lemma bexp_minus [simp]: "bexp (- x) = bexp x"
  by (simp add: bexp_def)

lemma bexp_le:
  assumes "\<bar>x\<bar> < 2 powi (e + 1)" "-1022 \<le> e"
  shows "bexp x \<le> e"
proof (rule ccontr)
  assume "\<not> bexp x \<le> e"
  then have *: "e + 1 \<le> bexp x" by simp
  then have "2 powi (bexp x) \<le> \<bar>x\<bar>"
    using bexp_spec(3) [of x] assms(2) by auto
  moreover have "(2::real) powi (e + 1) \<le> 2 powi (bexp x)"
    using * by (intro power_int_increasing) auto
  ultimately show False using assms(1) by linarith
qed

lemma bexp_mono: "\<bar>x\<bar> \<le> \<bar>y\<bar> \<Longrightarrow> bexp x \<le> bexp y"
  using bexp_le [of x "bexp y"] bexp_spec [of y] by linarith

section \<open>Rounding to binary64\<close>

lemma rnd64_minus: "rnd64 (- x) = - rnd64 x"
  by (simp add: rnd64_def py_round_minus)

lemma rnd64_0 [simp]: "rnd64 0 = 0"
  by (simp add: rnd64_def)

lemma rnd64_nonneg: "0 \<le> x \<Longrightarrow> 0 \<le> rnd64 x"
  using py_round_ge_int [of 0 "x / 2 powi (bexp x - 52)"] by (simp add: rnd64_def)

text \<open>Rounding never crosses the ends of a binade.\<close>

lemma rnd64_le_binade: "rnd64 x \<le> 2 powi (bexp x + 1)"
proof -
  let ?u = "2 powi (bexp x - 52) :: real"
  have e: "2 powi (bexp x + 1) = 2 ^ 53 * ?u"
    by (simp add: power_int_diff power_int_add)
  have "x / ?u \<le> of_int (2 ^ 53)"
    using bexp_spec(2) [of x] e by (simp add: field_simps)
  then have "py_round (x / ?u) \<le> 2 ^ 53" by (rule py_round_le_int)
  then have "real_of_int (py_round (x / ?u)) \<le> of_int (2 ^ 53)" by (simp only: of_int_le_iff)
  then have "of_int (py_round (x / ?u)) * ?u \<le> 2 ^ 53 * ?u"
    by (intro mult_right_mono) auto
  then show ?thesis unfolding rnd64_def e .
qed

lemma rnd64_ge_binade:
  assumes "2 powi (bexp x) \<le> x"
  shows "2 powi (bexp x) \<le> rnd64 x"
proof -
  let ?u = "2 powi (bexp x - 52) :: real"
  have e: "2 powi (bexp x) = 2 ^ 52 * ?u"
    by (simp add: power_int_diff)
  have "of_int (2 ^ 52) \<le> x / ?u"
    using assms e by (simp add: field_simps)
  then have "2 ^ 52 \<le> py_round (x / ?u)" by (rule py_round_ge_int)
  then have "of_int (2 ^ 52) \<le> real_of_int (py_round (x / ?u))" by (simp only: of_int_le_iff)
  then have "2 ^ 52 * ?u \<le> of_int (py_round (x / ?u)) * ?u"
    by (intro mult_right_mono) auto
  then show ?thesis unfolding rnd64_def e .
qed

lemma rnd64_mono_nonneg:
  assumes "0 \<le> x" "x \<le> y"
  shows "rnd64 x \<le> rnd64 y"
proof (cases "bexp x = bexp y")
  case True
  let ?u = "2 powi (bexp y - 52) :: real"
  have "py_round (x / ?u) \<le> py_round (y / ?u)"
    using assms by (intro py_round_mono divide_right_mono) auto
  then have "of_int (py_round (x / ?u)) * ?u \<le> of_int (py_round (y / ?u)) * ?u"
    by (intro mult_right_mono) auto
  then show ?thesis unfolding rnd64_def True .
next
  case False
  with bexp_mono [of x y] assms have lt: "bexp x + 1 \<le> bexp y" by auto
  with bexp_spec [of x] bexp_spec(3) [of y] assms have "2 powi (bexp y) \<le> y" by auto
  then have "2 powi (bexp y) \<le> rnd64 y" by (rule rnd64_ge_binade)
  moreover have "(2::real) powi (bexp x + 1) \<le> 2 powi (bexp y)"
    using lt by (intro power_int_increasing) auto
  ultimately show ?thesis using rnd64_le_binade [of x] by linarith
qed

lemma rnd64_mono:
  assumes "x \<le> y"
  shows "rnd64 x \<le> rnd64 y"
proof -
  consider "0 \<le> x" | "x < 0" "0 \<le> y" | "y < 0" by linarith
  then show ?thesis
  proof cases
    case 1
    then show ?thesis using assms by (rule rnd64_mono_nonneg)
  next
    case 2
    then show ?thesis
      using rnd64_nonneg [of "- x"] rnd64_nonneg [of y] by (simp add: rnd64_minus)
  next
    case 3
    then show ?thesis
      using rnd64_mono_nonneg [of "- y" "- x"] assms by (simp add: rnd64_minus)
  qed
qed

text \<open>Every number with a 53-bit significand is a float.\<close>

lemma rnd64_exact_aux:
  assumes "\<bar>m\<bar> < 2 ^ 53" "-1074 \<le> k"
  shows "rnd64 (of_int m * 2 powi k) = of_int m * 2 powi k"
proof -
  let ?x = "of_int m * 2 powi k :: real"
  have "\<bar>real_of_int m\<bar> < 2 ^ 53"
    using assms(1) by (metis of_int_abs of_int_less_iff of_int_numeral of_int_power)
  then have "\<bar>?x\<bar> < 2 ^ 53 * 2 powi k"
    by (simp add: abs_mult)
  also have "\<dots> = 2 powi (k + 52 + 1)"
    by (simp add: power_int_add)
  finally have lt: "\<bar>?x\<bar> < 2 powi (k + 52 + 1)" .
  have le: "bexp ?x \<le> k + 52"
    using lt assms(2) by (intro bexp_le) auto
  define d where "d = nat (k + 52 - bexp ?x)"
  have "2 powi k = (2::real) ^ d * 2 powi (bexp ?x - 52)"
    using le by (simp add: d_def power_int_add [symmetric] flip: power_int_of_nat)
  then have "?x = of_int (m * 2 ^ d) * 2 powi (bexp ?x - 52)"
    by (simp only: of_int_mult of_int_power of_int_numeral mult.assoc)
  then have q: "?x / 2 powi (bexp ?x - 52) = of_int (m * 2 ^ d)"
    by (metis nonzero_mult_div_cancel_right power_int_not_zero zero_neq_numeral)
  have "rnd64 ?x = of_int (m * 2 ^ d) * 2 powi (bexp ?x - 52)"
    unfolding rnd64_def q by (simp only: py_round_of_int)
  also have "\<dots> = ?x"
    using q by (metis nonzero_divide_eq_eq power_int_not_zero zero_neq_numeral)
  finally show ?thesis .
qed

lemma rnd64_exact:
  assumes "\<bar>m\<bar> \<le> 2 ^ 53" "-1074 \<le> k"
  shows "rnd64 (of_int m * 2 powi k) = of_int m * 2 powi k"
proof (cases "\<bar>m\<bar> < 2 ^ 53")
  case True
  then show ?thesis using assms(2) by (rule rnd64_exact_aux)
next
  case False
  with assms(1) have "m = 2 ^ 53 \<or> m = - (2 ^ 53)" by linarith
  then have "of_int m * 2 powi k = of_int (sgn m) * (2 powi (k + 53) :: real)"
    by (auto simp: power_int_add)
  moreover have "\<bar>sgn m\<bar> < 2 ^ 53" by (cases m rule: linorder_cases [of 0]) auto
  ultimately show ?thesis
    using rnd64_exact_aux [of "sgn m" "k + 53"] assms(2) by simp
qed

lemma rnd64_rnd64 [simp]: "rnd64 (rnd64 x) = rnd64 x"
proof -
  let ?u = "2 powi (bexp x - 52) :: real"
  have "\<bar>x / ?u\<bar> \<le> of_int (2 ^ 53)"
    using bexp_spec(2) [of x] by (simp add: power_int_diff power_int_add field_simps)
  then have "x / ?u \<le> of_int (2 ^ 53)" "of_int (- (2 ^ 53)) \<le> x / ?u" by linarith+
  from py_round_le_int [OF this(1)] py_round_ge_int [OF this(2)]
  have "\<bar>py_round (x / ?u)\<bar> \<le> 2 ^ 53" by linarith
  then show ?thesis
    using rnd64_exact [of "py_round (x / ?u)" "bexp x - 52"] bexp_spec(1) [of x]
    by (simp add: rnd64_def)
qed

lemma rnd64_of_int: "\<bar>i\<bar> \<le> 2 ^ 53 \<Longrightarrow> rnd64 (of_int i) = of_int i"
  using rnd64_exact [of i 0] by simp

text \<open>Up to 1 in magnitude, rounding moves a number by at most $2^{-53}$.\<close>

lemma rnd64_error_unit:
  assumes "\<bar>x\<bar> \<le> 1"
  shows "\<bar>rnd64 x - x\<bar> \<le> 1 / 2 ^ 53"
proof -
  let ?u = "2 powi (bexp x - 52) :: real"
  have "bexp x \<le> 0" using bexp_le [of x 0] assms by simp
  then have "?u \<le> 2 powi (- 52)" by (intro power_int_increasing) auto
  then have u: "?u \<le> 1 / 2 ^ 52" by (simp add: power_int_def field_simps)
  have "0 < ?u" by simp
  then have "rnd64 x - x = (of_int (py_round (x / ?u)) - x / ?u) * ?u"
    by (simp add: rnd64_def left_diff_distrib)
  then have "\<bar>rnd64 x - x\<bar> = \<bar>of_int (py_round (x / ?u)) - x / ?u\<bar> * ?u"
    using \<open>0 < ?u\<close> by (simp add: abs_mult)
  also have "\<dots> \<le> 1 / 2 * (1 / 2 ^ 52)"
    using py_round_error [of "x / ?u"] u \<open>0 < ?u\<close> by (intro mult_mono) auto
  finally show ?thesis by simp
qed

section \<open>The laws of rounding as an interface\<close>

locale float_rounding =
  fixes rnd :: "real \<Rightarrow> real"
  assumes rnd_mono: "x \<le> y \<Longrightarrow> rnd x \<le> rnd y"
    and rnd_odd: "rnd (- x) = - rnd x"
    and rnd_idem: "rnd (rnd x) = rnd x"
    and rnd_int: "\<bar>i\<bar> \<le> 2 ^ 53 \<Longrightarrow> rnd (of_int i) = of_int i"
begin

lemma le_float: "x \<le> b \<Longrightarrow> rnd b = b \<Longrightarrow> rnd x \<le> b"
  using rnd_mono [of x b] by simp

lemma ge_float: "b \<le> x \<Longrightarrow> rnd b = b \<Longrightarrow> b \<le> rnd x"
  using rnd_mono [of b x] by simp

lemma rnd_zero: "rnd 0 = 0"
  using rnd_int [of 0] by simp

lemma nonneg: "0 \<le> x \<Longrightarrow> 0 \<le> rnd x"
  by (rule ge_float) (simp_all add: rnd_zero)

lemma nonpos: "x \<le> 0 \<Longrightarrow> rnd x \<le> 0"
  by (rule le_float) (simp_all add: rnd_zero)

lemma grow: "rnd x = x \<Longrightarrow> 0 \<le> y \<Longrightarrow> x \<le> rnd (x + y)"
  by (rule ge_float) auto

lemma le_int: "x \<le> of_int i \<Longrightarrow> \<bar>i\<bar> \<le> 2 ^ 53 \<Longrightarrow> rnd x \<le> of_int i"
  by (rule le_float) (simp_all add: rnd_int)

lemma ge_int: "of_int i \<le> x \<Longrightarrow> \<bar>i\<bar> \<le> 2 ^ 53 \<Longrightarrow> of_int i \<le> rnd x"
  by (rule ge_float) (simp_all add: rnd_int)

text \<open>
  Two values on either side of an integer gap stay apart: whatever the rounding does, at most
  the lower one reaches \<open>n\<close> and the upper one stays at \<open>n + 1\<close> or more.
\<close>

lemma separated:
  assumes "x \<le> of_int n" "of_int (n + 1) \<le> y" "\<bar>n\<bar> < 2 ^ 53"
  shows "rnd x + 1 \<le> rnd y"
proof -
  have "\<bar>n + 1\<bar> \<le> 2 ^ 53" using assms(3) by linarith
  then show ?thesis
    using le_int [of x n] ge_int [of "n + 1" y] assms by simp
qed

text \<open>Sums of integers below $2^{53}$ are computed exactly.\<close>

lemma int_add: "\<bar>i + j\<bar> \<le> 2 ^ 53 \<Longrightarrow> rnd (of_int i + of_int j) = of_int (i + j)"
  using rnd_int [of "i + j"] by simp

end

interpretation f64: float_rounding rnd64
  by unfold_locales (auto intro: rnd64_mono rnd64_minus rnd64_of_int)

section \<open>Float operations\<close>

definition is_float :: "real \<Rightarrow> bool" where
  "is_float x \<longleftrightarrow> rnd64 x = x"

definition fint :: "int \<Rightarrow> real" where
  "fint i = rnd64 (of_int i)"

definition fadd :: "real \<Rightarrow> real \<Rightarrow> real" where
  "fadd x y = rnd64 (x + y)"

definition fsub :: "real \<Rightarrow> real \<Rightarrow> real" where
  "fsub x y = rnd64 (x - y)"

definition fmul :: "real \<Rightarrow> real \<Rightarrow> real" where
  "fmul x y = rnd64 (x * y)"

definition fdiv :: "real \<Rightarrow> real \<Rightarrow> real" where
  "fdiv x y = rnd64 (x / y)"

text \<open>A decimal literal of the source denotes the nearest float.\<close>

definition flit :: "real \<Rightarrow> real" where
  "flit x = rnd64 x"

lemmas float_ops = fint_def fadd_def fsub_def fmul_def fdiv_def flit_def

lemma is_float_ops [simp]:
  "is_float 0" "is_float (fint i)" "is_float (fadd x y)" "is_float (fsub x y)"
  "is_float (fmul x y)" "is_float (fdiv x y)" "is_float (flit x)"
  by (simp_all add: is_float_def float_ops)

lemma is_float_max [simp]: "is_float x \<Longrightarrow> is_float y \<Longrightarrow> is_float (max x y)"
  by (simp add: max_def)

lemma fint_exact: "\<bar>i\<bar> \<le> 2 ^ 53 \<Longrightarrow> fint i = of_int i"
  by (simp add: fint_def rnd64_of_int)

lemma fint_0 [simp]: "fint 0 = 0"
  by (simp add: fint_def)

lemma is_float_of_int: "\<bar>i\<bar> \<le> 2 ^ 53 \<Longrightarrow> is_float (of_int i)"
  by (simp add: is_float_def rnd64_of_int)

lemma is_float_numeral: "(numeral n :: int) \<le> 2 ^ 53 \<Longrightarrow> is_float (numeral n)"
  using is_float_of_int [of "numeral n"] by simp

lemma fmul_nonneg: "0 \<le> x \<Longrightarrow> 0 \<le> y \<Longrightarrow> 0 \<le> fmul x y"
  by (simp add: fmul_def f64.nonneg)

lemma fadd_nonneg: "0 \<le> x \<Longrightarrow> 0 \<le> y \<Longrightarrow> 0 \<le> fadd x y"
  by (simp add: fadd_def f64.nonneg)

lemma fdiv_nonneg: "0 \<le> x \<Longrightarrow> 0 \<le> y \<Longrightarrow> 0 \<le> fdiv x y"
  by (simp add: fdiv_def f64.nonneg)

lemma fadd_grow: "is_float x \<Longrightarrow> 0 \<le> y \<Longrightarrow> x \<le> fadd x y"
  by (simp add: fadd_def is_float_def f64.grow)

lemma flit_nonneg: "0 \<le> x \<Longrightarrow> 0 \<le> flit x"
  by (simp add: flit_def f64.nonneg)

lemma fadd_of_int: "\<bar>i + j\<bar> \<le> 2 ^ 53 \<Longrightarrow> fadd (of_int i) (of_int j) = of_int (i + j)"
  by (simp only: fadd_def f64.int_add)

end
