(* ===== verification/Heapq.thy ===== *)
theory Heapq
  imports Arena_Prelude
begin

text \<open>
  The two functions of Python's standard module \<open>heapq\<close> that the event queue calls, in the
  form the module implements them: a binary heap in a list, with the sift loops moving a hole
  instead of swapping. Elements are compared by \<open>key\<close>, the value the element's \<open><\<close>
  compares. The interface a client relies on is the locale \<open>min_queue\<close>: a pop returns an
  element of least key and removes exactly that element.
\<close>

section \<open>The algorithms\<close>

function siftdown :: "('a \<Rightarrow> 'b::linorder) \<Rightarrow> 'a list \<Rightarrow> nat \<Rightarrow> 'a \<Rightarrow> 'a list" where
  "siftdown key h pos newitem =
     (if 0 < pos
      then let parentpos = (pos - 1) div 2; parent = h ! parentpos
           in if key newitem < key parent
              then siftdown key (h[pos := parent]) parentpos newitem
              else h[pos := newitem]
      else h[pos := newitem])"
  by pat_completeness auto
termination
  by (relation "measure (\<lambda>(key, h, pos, x). pos)") auto

text \<open>The child the hole moves to: the right one unless the left one is smaller.\<close>

definition smaller_child :: "('a \<Rightarrow> 'b::linorder) \<Rightarrow> 'a list \<Rightarrow> nat \<Rightarrow> nat" where
  "smaller_child key h pos =
     (let childpos = 2 * pos + 1; rightpos = childpos + 1
      in if rightpos < length h \<and> \<not> key (h ! childpos) < key (h ! rightpos)
         then rightpos else childpos)"

function siftup_hole :: "('a \<Rightarrow> 'b::linorder) \<Rightarrow> 'a list \<Rightarrow> nat \<Rightarrow> 'a list \<times> nat" where
  "siftup_hole key h pos =
     (if 2 * pos + 1 < length h
      then let c = smaller_child key h pos in siftup_hole key (h[pos := h ! c]) c
      else (h, pos))"
  by pat_completeness auto
termination
  by (relation "measure (\<lambda>(key, h, pos). length h - pos)")
    (auto simp: smaller_child_def Let_def)

declare siftdown.simps [simp del] siftup_hole.simps [simp del]

definition siftup :: "('a \<Rightarrow> 'b::linorder) \<Rightarrow> 'a list \<Rightarrow> 'a list" where
  "siftup key h =
     (let newitem = h ! 0; (h', pos) = siftup_hole key h 0
      in siftdown key h' pos newitem)"

definition heappush :: "('a \<Rightarrow> 'b::linorder) \<Rightarrow> 'a list \<Rightarrow> 'a \<Rightarrow> 'a list" where
  "heappush key h item = siftdown key (h @ [item]) (length h) item"

definition heappop :: "('a \<Rightarrow> 'b::linorder) \<Rightarrow> 'a list \<Rightarrow> ('a \<times> 'a list) result" where
  "heappop key h =
     (if h = [] then Inl IndexError
      else let lastelt = last h; h' = butlast h
           in if h' \<noteq> [] then Inr (h' ! 0, siftup key (h'[0 := lastelt]))
              else Inr (lastelt, h'))"

section \<open>The heap invariant\<close>

definition heap_par :: "nat \<Rightarrow> nat" where
  "heap_par i = (i - 1) div 2"

lemma heap_par_less: "0 < i \<Longrightarrow> heap_par i < i"
  by (auto simp: heap_par_def)

definition heap_inv :: "('a \<Rightarrow> 'b::linorder) \<Rightarrow> 'a list \<Rightarrow> bool" where
  "heap_inv key h \<longleftrightarrow> (\<forall>i. 0 < i \<and> i < length h \<longrightarrow> key (h ! heap_par i) \<le> key (h ! i))"

text \<open>A heap but for the element at \<open>pos\<close>, which may be smaller than its parent.\<close>

definition heap_but :: "('a \<Rightarrow> 'b::linorder) \<Rightarrow> 'a list \<Rightarrow> nat \<Rightarrow> bool" where
  "heap_but key h pos \<longleftrightarrow>
     (\<forall>i. 0 < i \<and> i < length h \<and> i \<noteq> pos \<longrightarrow> key (h ! heap_par i) \<le> key (h ! i)) \<and>
     (0 < pos \<longrightarrow> (\<forall>i. 0 < i \<and> i < length h \<and> heap_par i = pos \<longrightarrow>
        key (h ! heap_par pos) \<le> key (h ! i)))"

text \<open>A heap but for the edges into and out of the hole at \<open>pos\<close>.\<close>

definition heap_hole :: "('a \<Rightarrow> 'b::linorder) \<Rightarrow> 'a list \<Rightarrow> nat \<Rightarrow> bool" where
  "heap_hole key h pos \<longleftrightarrow>
     (\<forall>i. 0 < i \<and> i < length h \<and> i \<noteq> pos \<and> heap_par i \<noteq> pos \<longrightarrow>
        key (h ! heap_par i) \<le> key (h ! i)) \<and>
     (0 < pos \<longrightarrow> (\<forall>i. 0 < i \<and> i < length h \<and> heap_par i = pos \<longrightarrow>
        key (h ! heap_par pos) \<le> key (h ! i)))"

lemma heap_inv_Nil [simp]: "heap_inv key []"
  by (simp add: heap_inv_def)

lemma heap_butD:
  "heap_but key h pos \<Longrightarrow> 0 < i \<Longrightarrow> i < length h \<Longrightarrow> i \<noteq> pos \<Longrightarrow>
     key (h ! heap_par i) \<le> key (h ! i)"
  by (simp add: heap_but_def)

lemma heap_but_child:
  "heap_but key h pos \<Longrightarrow> 0 < pos \<Longrightarrow> 0 < i \<Longrightarrow> i < length h \<Longrightarrow> heap_par i = pos \<Longrightarrow>
     key (h ! heap_par pos) \<le> key (h ! i)"
  by (simp add: heap_but_def)

lemma heap_but_done:
  assumes "heap_but key h pos" "0 < pos \<Longrightarrow> key (h ! heap_par pos) \<le> key (h ! pos)"
  shows "heap_inv key h"
  unfolding heap_inv_def
proof (intro allI impI)
  fix i
  assume "0 < i \<and> i < length h"
  then show "key (h ! heap_par i) \<le> key (h ! i)"
    using heap_butD [OF assms(1), of i] assms(2) by (cases "i = pos") auto
qed

text \<open>Moving the hole up one edge keeps the heap apart from the new hole.\<close>

lemma heap_but_up:
  assumes but: "heap_but key (h[pos := x]) pos" and pos: "0 < pos" "pos < length h"
    and lt: "key x < key (h ! heap_par pos)"
  shows "heap_but key (h[pos := h ! heap_par pos, heap_par pos := x]) (heap_par pos)"
proof -
  define p where "p = heap_par pos"
  let ?H = "h[pos := x]" and ?G = "h[pos := h ! p, p := x]"
  have p: "p < pos" "p < length h" using pos heap_par_less [of pos] by (auto simp: p_def)
  have e: "key (h ! heap_par i) \<le> key (h ! i)"
    if "0 < i" "i < length h" "i \<noteq> pos" "heap_par i \<noteq> pos" for i
    using heap_butD [OF but, of i] that by simp
  have c: "key (h ! p) \<le> key (h ! i)" if "0 < i" "i < length h" "heap_par i = pos" for i
    using heap_but_child [OF but pos(1), of i] that heap_par_less [of i] p
    by (auto simp: p_def nth_list_update)
  have edge: "key (?G ! heap_par i) \<le> key (?G ! i)"
    if i: "0 < i" "i < length h" "i \<noteq> p" for i
  proof (cases "i = pos")
    case True
    then show ?thesis using p lt pos by (simp add: p_def)
  next
    case False
    have "heap_par i < length h" using heap_par_less [OF i(1)] i by simp
    then show ?thesis
      using False e [of i] c [of i] i p pos lt by (cases "heap_par i = p") (auto simp: p_def nth_list_update)
  qed
  have child: "key (?G ! heap_par p) \<le> key (?G ! i)"
    if i: "0 < p" "0 < i" "i < length h" "heap_par i = p" for i
  proof -
    have pp: "heap_par p < p" using i(1) by (rule heap_par_less)
    then have "key (h ! heap_par p) \<le> key (h ! p)" using e [of p] i p by simp
    moreover have "key (h ! p) \<le> key (h ! i)" if "i \<noteq> pos" using e [of i] i p that by simp
    moreover have "i \<noteq> p" using heap_par_less [OF i(2)] i(4) by simp
    ultimately show ?thesis using pp p i by (cases "i = pos") (auto simp: nth_list_update)
  qed
  show ?thesis
    unfolding heap_but_def p_def [symmetric] using edge child by simp
qed

lemma siftdown_heap:
  "pos < length h \<Longrightarrow> heap_but key (h[pos := x]) pos \<Longrightarrow>
     heap_inv key (siftdown key h pos x) \<and> mset (siftdown key h pos x) = mset (h[pos := x])"
proof (induction key h pos x rule: siftdown.induct)
  case (1 key h pos x)
  let ?p = "heap_par pos"
  consider (up) "0 < pos" "key x < key (h ! ?p)" | (stop) "0 < pos" "\<not> key x < key (h ! ?p)"
    | (root) "pos = 0" by blast
  then show ?case
  proof cases
    case up
    then have eq: "siftdown key h pos x = siftdown key (h[pos := h ! ?p]) ?p x"
      by (simp add: siftdown.simps [of key h pos] Let_def heap_par_def)
    have "heap_but key (h[pos := h ! ?p, ?p := x]) ?p"
      using heap_but_up [OF "1.prems"(2)] up "1.prems"(1) by simp
    moreover have "mset (h[pos := h ! ?p, ?p := x]) = mset (h[pos := x])"
      using "1.prems"(1) heap_par_less [OF up(1)] by (intro mset_move_hole) auto
    ultimately show ?thesis
      using "1.IH" [OF up(1) heap_par_def refl up(2)] "1.prems"(1) heap_par_less [OF up(1)]
      by (simp add: eq)
  next
    case stop
    then have eq: "siftdown key h pos x = h[pos := x]"
      by (simp add: siftdown.simps [of key h pos] Let_def heap_par_def)
    have "heap_inv key (h[pos := x])"
      using "1.prems"(1) stop heap_par_less [OF stop(1)]
      by (intro heap_but_done [OF "1.prems"(2)]) (auto simp: nth_list_update)
    then show ?thesis by (simp add: eq)
  next
    case root
    then have "heap_inv key (h[pos := x])"
      by (intro heap_but_done [OF "1.prems"(2)]) simp
    with root show ?thesis by (simp add: siftdown.simps [of key h 0])
  qed
qed

section \<open>Popping: the hole goes down to a leaf\<close>

lemma smaller_child_props:
  assumes "2 * pos + 1 < length h"
  shows "smaller_child key h pos < length h" "pos < smaller_child key h pos"
    "heap_par (smaller_child key h pos) = pos"
    "\<And>i. i < length h \<Longrightarrow> 0 < i \<Longrightarrow> heap_par i = pos \<Longrightarrow>
       key (h ! smaller_child key h pos) \<le> key (h ! i)"
proof -
  show "smaller_child key h pos < length h" "pos < smaller_child key h pos"
    "heap_par (smaller_child key h pos) = pos"
    using assms by (auto simp: smaller_child_def Let_def heap_par_def)
  fix i
  assume "i < length h" "0 < i" "heap_par i = pos"
  then have "i = 2 * pos + 1 \<or> i = 2 * pos + 2" "i < length h"
    by (auto simp: heap_par_def)
  then show "key (h ! smaller_child key h pos) \<le> key (h ! i)"
    by (auto simp: smaller_child_def Let_def)
qed

lemma heap_hole_down:
  assumes hole: "heap_hole key h pos" and len: "2 * pos + 1 < length h"
  defines "c \<equiv> smaller_child key h pos"
  shows "heap_hole key (h[pos := h ! c]) c"
proof -
  note ch = smaller_child_props [OF len, where key = key, folded c_def]
  let ?G = "h[pos := h ! c]"
  have e: "key (h ! heap_par i) \<le> key (h ! i)"
    if "0 < i" "i < length h" "i \<noteq> pos" "heap_par i \<noteq> pos" for i
    using hole that by (simp add: heap_hole_def)
  have g: "key (h ! heap_par pos) \<le> key (h ! c)" if "0 < pos"
    using hole that ch by (simp add: heap_hole_def)
  have edge: "key (?G ! heap_par i) \<le> key (?G ! i)"
    if i: "0 < i" "i < length h" "i \<noteq> c" "heap_par i \<noteq> c" for i
  proof (cases "i = pos")
    case True
    then show ?thesis using g heap_par_less [OF i(1)] i by simp
  next
    case False
    have "heap_par i < length h" using heap_par_less [OF i(1)] i by simp
    then show ?thesis
      using False e [of i] ch(4) [of i] i by (cases "heap_par i = pos") auto
  qed
  have child: "key (?G ! heap_par c) \<le> key (?G ! i)"
    if i: "0 < i" "i < length h" "heap_par i = c" for i
    using e [of i] i ch heap_par_less [OF i(1)] by simp
  show ?thesis
    unfolding heap_hole_def using edge child by simp
qed

lemma siftup_hole_heap:
  assumes "heap_hole key h pos" "pos < length h"
  shows "case siftup_hole key h pos of (h', pos') \<Rightarrow>
     pos' < length h' \<and> heap_but key (h'[pos' := x]) pos'
     \<and> mset (h'[pos' := x]) = mset (h[pos := x])"
  using assms
proof (induction key h pos rule: siftup_hole.induct)
  case (1 key h pos)
  show ?case
  proof (cases "2 * pos + 1 < length h")
    case True
    let ?c = "smaller_child key h pos"
    have eq: "siftup_hole key h pos = siftup_hole key (h[pos := h ! ?c]) ?c"
      using True by (simp add: siftup_hole.simps [of key h pos] Let_def)
    have "mset (h[pos := h ! ?c, ?c := x]) = mset (h[pos := x])"
      using smaller_child_props(1) [OF True] "1.prems"(2) by (intro mset_move_hole)
    then show ?thesis
      using "1.IH" [OF True refl heap_hole_down [OF "1.prems"(1) True]]
        smaller_child_props(1) [OF True, where key = key]
      by (simp add: eq split: prod.splits)
  next
    case False
    have no_child: "heap_par i \<noteq> pos" if "i < length h" "0 < i" for i
      using False that by (auto simp: heap_par_def)
    have "key (h[pos := x] ! heap_par i) \<le> key (h[pos := x] ! i)"
      if "0 < i" "i < length h" "i \<noteq> pos" for i
      using "1.prems"(1) no_child [of i] that by (auto simp: heap_hole_def)
    then have "heap_but key (h[pos := x]) pos"
      using no_child by (auto simp: heap_but_def)
    then show ?thesis
      using False "1.prems"(2) by (simp add: siftup_hole.simps [of key h pos])
  qed
qed

lemma siftup_heap:
  assumes "h \<noteq> []" "heap_hole key h 0"
  shows "heap_inv key (siftup key h) \<and> mset (siftup key h) = mset h"
proof -
  obtain h' pos where s: "siftup_hole key h 0 = (h', pos)" by fastforce
  have "pos < length h'" "heap_but key (h'[pos := h ! 0]) pos"
    "mset (h'[pos := h ! 0]) = mset (h[0 := h ! 0])"
    using siftup_hole_heap [OF assms(2), of "h ! 0"] assms(1) s by auto
  then show ?thesis
    using siftdown_heap [of pos h' key "h ! 0"] s by (simp add: siftup_def)
qed

section \<open>Correctness of push and pop\<close>

lemma heappush_heap:
  assumes "heap_inv key h"
  shows "heap_inv key (heappush key h x)" "mset (heappush key h x) = mset h + {#x#}"
proof -
  have "heap_but key (h @ [x]) (length h)"
  proof -
    have "key ((h @ [x]) ! heap_par i) \<le> key ((h @ [x]) ! i)" if "0 < i" "i < length h" for i
      using assms that heap_par_less [of i] by (simp add: heap_inv_def nth_append)
    moreover have "heap_par i \<noteq> length h" if "0 < i" "i < Suc (length h)" for i
      using heap_par_less [OF that(1)] that(2) by simp
    ultimately show ?thesis by (auto simp: heap_but_def less_Suc_eq)
  qed
  then show "heap_inv key (heappush key h x)" "mset (heappush key h x) = mset h + {#x#}"
    using siftdown_heap [of "length h" "h @ [x]" key x] by (simp_all add: heappush_def)
qed

lemma heap_inv_root_min:
  "heap_inv key h \<Longrightarrow> i < length h \<Longrightarrow> key (h ! 0) \<le> key (h ! i)"
proof (induction i rule: less_induct)
  case (less i)
  show ?case
  proof (cases "i = 0")
    case False
    then have p: "heap_par i < i" by (simp add: heap_par_less)
    then have "key (h ! 0) \<le> key (h ! heap_par i)" using less by simp
    also have "\<dots> \<le> key (h ! i)" using less.prems False by (simp add: heap_inv_def)
    finally show ?thesis .
  qed simp
qed

lemma heap_inv_butlast: "heap_inv key h \<Longrightarrow> heap_inv key (butlast h)"
  unfolding heap_inv_def
proof (intro allI impI)
  fix i
  assume inv: "\<forall>i. 0 < i \<and> i < length h \<longrightarrow> key (h ! heap_par i) \<le> key (h ! i)"
    and i: "0 < i \<and> i < length (butlast h)"
  then have "heap_par i < length (butlast h)" using heap_par_less [of i] by simp
  then show "key (butlast h ! heap_par i) \<le> key (butlast h ! i)"
    using inv i by (auto simp: nth_butlast)
qed

lemma heap_inv_hole_root: "heap_inv key h \<Longrightarrow> heap_hole key (h[0 := x]) 0"
  by (auto simp: heap_inv_def heap_hole_def nth_list_update)

lemma heappop_cases:
  assumes "h \<noteq> []"
  shows "heappop key h = Inr (h ! 0, if length h = 1 then [] else siftup key ((butlast h)[0 := last h]))"
  using assms by (cases h rule: rev_cases) (auto simp: heappop_def Let_def nth_append)

lemma heappop_heap:
  assumes inv: "heap_inv key h" and pop: "heappop key h = Inr (x, h')"
  shows "heap_inv key h'" "mset h = mset h' + {#x#}" "\<And>y. y \<in> set h \<Longrightarrow> key x \<le> key y"
proof -
  have ne: "h \<noteq> []" using pop by (auto simp: heappop_def)
  have x: "x = h ! 0" using pop heappop_cases [OF ne, of key] by simp
  show "key x \<le> key y" if "y \<in> set h" for y
    using heap_inv_root_min [OF inv] that x by (auto simp: in_set_conv_nth)
  show "heap_inv key h'" "mset h = mset h' + {#x#}"
  proof (atomize (full), cases "length h = 1")
    case True
    then obtain a where "h = [a]" by (auto simp: length_Suc_conv)
    then show "heap_inv key h' \<and> mset h = mset h' + {#x#}"
      using pop by (auto simp: heappop_def)
  next
    case False
    let ?b = "butlast h"
    have b: "?b \<noteq> []" using False ne by (cases h) (auto split: if_splits)
    have h': "h' = siftup key (?b[0 := last h])" using pop heappop_cases [OF ne, of key] False by simp
    have "heap_hole key (?b[0 := last h]) 0"
      using inv by (intro heap_inv_hole_root heap_inv_butlast)
    then have "heap_inv key h'" "mset h' = mset (?b[0 := last h])"
      using siftup_heap [of "?b[0 := last h]" key] b h' by auto
    moreover have "mset h = mset (?b[0 := last h]) + {#h ! 0#}"
    proof -
      from b obtain a bs where ab: "?b = a # bs" by (cases ?b) auto
      with append_butlast_last_id [OF ne] have h: "h = a # bs @ [last h]" by simp
      then have "mset h = mset (a # bs @ [last h])" "h ! 0 = a" by (metis, metis nth_Cons_0)
      then show ?thesis using ab by simp
    qed
    ultimately show "heap_inv key h' \<and> mset h = mset h' + {#x#}" using x by simp
  qed
qed

section \<open>Push and pop on any list\<close>

text \<open>Whatever the order of the list, nothing is lost or invented.\<close>

lemma siftdown_mset: "pos < length h \<Longrightarrow> mset (siftdown key h pos x) = mset (h[pos := x])"
proof (induction key h pos x rule: siftdown.induct)
  case (1 key h pos x)
  let ?p = "heap_par pos"
  show ?case
  proof (cases "0 < pos \<and> key x < key (h ! ?p)")
    case True
    then have "siftdown key h pos x = siftdown key (h[pos := h ! ?p]) ?p x"
      by (simp add: siftdown.simps [of key h pos] Let_def heap_par_def)
    moreover have "mset (h[pos := h ! ?p, ?p := x]) = mset (h[pos := x])"
      using "1.prems" True heap_par_less [of pos] by (intro mset_move_hole) auto
    ultimately show ?thesis
      using "1.IH" [OF _ heap_par_def refl] True "1.prems" heap_par_less [of pos] by simp
  next
    case False
    then show ?thesis by (auto simp: siftdown.simps [of key h pos] Let_def heap_par_def)
  qed
qed

lemma siftup_hole_mset:
  "pos < length h \<Longrightarrow> siftup_hole key h pos = (h', pos') \<Longrightarrow>
     pos' < length h' \<and> mset (h'[pos' := x]) = mset (h[pos := x])"
proof (induction key h pos rule: siftup_hole.induct)
  case (1 key h pos)
  show ?case
  proof (cases "2 * pos + 1 < length h")
    case True
    let ?c = "smaller_child key h pos"
    have "siftup_hole key h pos = siftup_hole key (h[pos := h ! ?c]) ?c"
      using True by (simp add: siftup_hole.simps [of key h pos] Let_def)
    moreover have "mset (h[pos := h ! ?c, ?c := x]) = mset (h[pos := x])"
      using smaller_child_props(1) [OF True] "1.prems"(1) by (intro mset_move_hole)
    ultimately show ?thesis
      using "1.IH" [OF True refl] "1.prems" smaller_child_props(1) [OF True, where key = key] by simp
  next
    case False
    then show ?thesis using "1.prems" by (auto simp: siftup_hole.simps [of key h pos])
  qed
qed

lemma siftup_mset: "h \<noteq> [] \<Longrightarrow> mset (siftup key h) = mset h"
  using siftup_hole_mset [of 0 h key _ _ "h ! 0"]
  by (cases "siftup_hole key h 0") (auto simp: siftup_def siftdown_mset)

lemma heappush_mset: "mset (heappush key h x) = mset h + {#x#}"
  using siftdown_mset [of "length h" "h @ [x]" key x] by (simp add: heappush_def)

lemma heappop_mset:
  assumes "heappop key h = Inr (x, h')"
  shows "mset h = mset h' + {#x#}"
proof (cases "length h = 1")
  case True
  then obtain a where "h = [a]" by (auto simp: length_Suc_conv)
  then show ?thesis using assms by (auto simp: heappop_def)
next
  case False
  have ne: "h \<noteq> []" using assms by (auto simp: heappop_def)
  then obtain a bs where ab: "butlast h = a # bs" using False by (cases h rule: rev_cases; cases "butlast h") auto
  with append_butlast_last_id [OF ne] have h: "h = a # bs @ [last h]" by simp
  then have "mset h = mset (a # bs @ [last h])" by metis
  moreover have "x = h ! 0" "h' = siftup key ((butlast h)[0 := last h])"
    using assms heappop_cases [OF ne, of key] False by simp_all
  moreover have "h ! 0 = a" using h by (metis nth_Cons_0)
  ultimately show ?thesis using siftup_mset [of "last h # bs" key] ab by simp
qed

end
