(* ===== verification/Event_Queue.thy ===== *)
theory Event_Queue
  imports Heapq
begin

text \<open>
  The event system of \<open>simulation/simulator.py\<close>: the event record, ordered by its timestamp
  alone, and \<open>EventQueue\<close>, a list kept as a heap by \<open>heapq\<close>. The contract of the queue is
  the locale \<open>min_queue\<close>; what the simulator's loop needs from it (time never runs
  backwards as long as nothing is scheduled in the past) is proved there once.
\<close>

section \<open>The contract of a timed queue\<close>

locale min_queue =
  fixes key :: "'e \<Rightarrow> 't::linorder"
    and empty :: "'q"
    and push :: "'q \<Rightarrow> 'e \<Rightarrow> 'q"
    and pop :: "'q \<Rightarrow> ('e \<times> 'q) result"
    and invar :: "'q \<Rightarrow> bool"
    and elems :: "'q \<Rightarrow> 'e multiset"
  assumes invar_empty: "invar empty"
    and elems_empty: "elems empty = {#}"
    and invar_push: "invar q \<Longrightarrow> invar (push q e)"
    and elems_push: "invar q \<Longrightarrow> elems (push q e) = elems q + {#e#}"
    and pop_empty: "invar q \<Longrightarrow> elems q = {#} \<Longrightarrow> pop q = Inl IndexError"
    and pop_nonempty: "invar q \<Longrightarrow> elems q \<noteq> {#} \<Longrightarrow> \<exists>e q'. pop q = Inr (e, q')"
    and invar_pop: "invar q \<Longrightarrow> pop q = Inr (e, q') \<Longrightarrow> invar q'"
    and elems_pop: "invar q \<Longrightarrow> pop q = Inr (e, q') \<Longrightarrow> elems q = elems q' + {#e#}"
    and pop_least: "invar q \<Longrightarrow> pop q = Inr (e, q') \<Longrightarrow> x \<in># elems q \<Longrightarrow> key e \<le> key x"
begin

definition ahead :: "'t \<Rightarrow> 'q \<Rightarrow> bool" where
  "ahead t q \<longleftrightarrow> (\<forall>e \<in># elems q. t \<le> key e)"

lemma ahead_pop: "invar q \<Longrightarrow> pop q = Inr (e, q') \<Longrightarrow> ahead (key e) q'"
  using pop_least [of q e q'] elems_pop [of q e q'] by (simp add: ahead_def)

lemma ahead_push: "invar q \<Longrightarrow> ahead t q \<Longrightarrow> t \<le> key e \<Longrightarrow> ahead t (push q e)"
  by (auto simp: ahead_def elems_push)

lemma pop_ahead: "invar q \<Longrightarrow> ahead t q \<Longrightarrow> pop q = Inr (e, q') \<Longrightarrow> t \<le> key e"
  using elems_pop [of q e q'] by (simp add: ahead_def)

lemma push_all:
  "invar q \<Longrightarrow> invar (foldl push q es) \<and> elems (foldl push q es) = elems q + mset es"
  by (induction es arbitrary: q) (simp_all add: invar_push elems_push)

lemma ahead_push_all:
  "invar q \<Longrightarrow> ahead t q \<Longrightarrow> \<forall>e \<in> set es. t \<le> key e \<Longrightarrow> ahead t (foldl push q es)"
  by (auto simp: ahead_def push_all)

lemma pop_size: "invar q \<Longrightarrow> pop q = Inr (e, q') \<Longrightarrow> size (elems q') < size (elems q)"
  by (simp add: elems_pop)

end

section \<open>Events\<close>

datatype event_type = MIDPRICE_MOVE | AGENT_ACTION | ORDER_CANCEL | BOOK_UPDATE_EVENT | METRICS_SAMPLE

text \<open>The values of the enumeration, an \<open>IntEnum\<close>: members compare by them.\<close>

fun event_type_value :: "event_type \<Rightarrow> int" where
  "event_type_value MIDPRICE_MOVE = 0"
| "event_type_value AGENT_ACTION = 1"
| "event_type_value ORDER_CANCEL = 2"
| "event_type_value BOOK_UPDATE_EVENT = 3"
| "event_type_value METRICS_SAMPLE = 4"

lemma event_type_value_inject [simp]: "event_type_value a = event_type_value b \<longleftrightarrow> a = b"
  by (cases a; cases b) auto

instantiation event_type :: linorder
begin

definition less_eq_event_type :: "event_type \<Rightarrow> event_type \<Rightarrow> bool" where
  "less_eq_event_type a b \<longleftrightarrow> event_type_value a \<le> event_type_value b"

definition less_event_type :: "event_type \<Rightarrow> event_type \<Rightarrow> bool" where
  "less_event_type a b \<longleftrightarrow> event_type_value a < event_type_value b"

instance
  by standard (auto simp: less_eq_event_type_def less_event_type_def)

end

text \<open>
  \<open>@dataclass(order=True)\<close> with every field but the timestamp excluded from comparison: two
  events compare as their timestamps do. The field \<open>data\<close> is never given a value and is
  left out.
\<close>

record event =
  timestamp :: real
  event_type :: event_type
  event_agent :: "string option"

definition event_less :: "event \<Rightarrow> event \<Rightarrow> bool" where
  "event_less a b \<longleftrightarrow> timestamp a < timestamp b"

section \<open>The queue\<close>

type_synonym event_queue = "event list"

definition eq_init :: event_queue where
  "eq_init = []"

definition eq_push :: "event_queue \<Rightarrow> event \<Rightarrow> event_queue" where
  "eq_push q e = heappush timestamp q e"

definition eq_pop :: "event_queue \<Rightarrow> (event \<times> event_queue) result" where
  "eq_pop q = heappop timestamp q"

definition eq_len :: "event_queue \<Rightarrow> nat" where
  "eq_len q = length q"

definition eq_bool :: "event_queue \<Rightarrow> bool" where
  "eq_bool q \<longleftrightarrow> 0 < length q"

definition eq_inv :: "event_queue \<Rightarrow> bool" where
  "eq_inv q = heap_inv timestamp q"

interpretation eq: min_queue timestamp eq_init eq_push eq_pop eq_inv mset
proof (unfold_locales, goal_cases)
  case (5 q)
  then show ?case by (simp add: eq_pop_def heappop_def)
next
  case (6 q)
  then show ?case using heappop_cases [of q timestamp] by (auto simp: eq_pop_def)
next
  case (9 q e q' x)
  then show ?case using heappop_heap(3) [of timestamp q e q' x] by (simp add: eq_pop_def eq_inv_def)
qed (auto simp: eq_init_def eq_push_def eq_pop_def eq_inv_def heappush_heap heappop_heap)

lemma eq_bool_iff: "eq_bool q \<longleftrightarrow> mset q \<noteq> {#}"
  by (auto simp: eq_bool_def)

lemma eq_push_mset: "mset (eq_push q e) = mset q + {#e#}"
  by (simp add: eq_push_def heappush_mset)

lemma eq_pop_mset: "eq_pop q = Inr (e, q') \<Longrightarrow> mset q = mset q' + {#e#}"
  by (simp add: eq_pop_def heappop_mset)

lemma eq_pop_length: "eq_pop q = Inr (e, q') \<Longrightarrow> length q = Suc (length q')"
  by (drule eq_pop_mset) (metis size_add_mset size_mset add_mset_add_single)

lemma eq_pushes_mset: "mset (foldl eq_push q es) = mset q + mset es"
  by (induction es arbitrary: q) (simp_all add: eq_push_mset)

text \<open>Popping until the queue is empty, as the simulator's loop does when nothing is pushed.\<close>

function eq_drain :: "event_queue \<Rightarrow> event list" where
  "eq_drain q = (case eq_pop q of Inl _ \<Rightarrow> [] | Inr (e, q') \<Rightarrow> e # eq_drain q')"
  by pat_completeness auto
termination
  by (relation "measure length") (auto dest: eq_pop_length)

declare eq_drain.simps [simp del]

lemma eq_drain_spec:
  "eq_inv q \<Longrightarrow> mset (eq_drain q) = mset q \<and> sorted (map timestamp (eq_drain q))"
proof (induction q rule: eq_drain.induct)
  case (1 q)
  show ?case
  proof (cases "eq_pop q")
    case (Inl err)
    then have "q = []" using "1.prems" eq.pop_nonempty [of q] by auto
    with Inl show ?thesis by (simp add: eq_drain.simps [of "[]"])
  next
    case (Inr r)
    obtain e q' where r: "r = (e, q')" by (cases r)
    note pop = Inr [unfolded r]
    have q': "eq_inv q'" and el: "mset q = mset q' + {#e#}" and a: "eq.ahead (timestamp e) q'"
      using eq.invar_pop [OF "1.prems" pop] eq.elems_pop [OF "1.prems" pop]
        eq.ahead_pop [OF "1.prems" pop] by auto
    from "1.IH" [OF Inr r [symmetric] q'] have IH: "mset (eq_drain q') = mset q'"
      "sorted (map timestamp (eq_drain q'))" by auto
    have "\<forall>x \<in> set (eq_drain q'). timestamp e \<le> timestamp x"
      using a IH(1) by (metis eq.ahead_def set_mset_mset)
    then show ?thesis using IH el pop by (simp add: eq_drain.simps [of q])
  qed
qed

end
