(* ===== verification/Py_Struct.thy ===== *)
theory Py_Struct
  imports Arena_Prelude "HOL-Library.Word"
begin

text \<open>
  The part of Python's standard module \<open>struct\<close> the wire protocol uses: the little-endian
  formats (prefix \<open>\<close>\<^verbatim>\<open><\<close>) over the codes \<open>B\<close>, \<open>I\<close>, \<open>i\<close>, \<open>Q\<close> and \<open>q\<close>. Packing a value
  outside the range of its code, or a wrong number of values, raises \<open>struct.error\<close>; so does
  unpacking a buffer of the wrong length.
\<close>

type_synonym byte = "8 word"
type_synonym bytes = "byte list"

section \<open>Little-endian numbers\<close>

fun le_bytes :: "nat \<Rightarrow> nat \<Rightarrow> bytes" where
  "le_bytes 0 v = []"
| "le_bytes (Suc n) v = of_nat (v mod 256) # le_bytes n (v div 256)"

fun le_value :: "bytes \<Rightarrow> nat" where
  "le_value [] = 0"
| "le_value (b # bs) = unat b + 256 * le_value bs"

lemma length_le_bytes [simp]: "length (le_bytes n v) = n"
  by (induction n arbitrary: v) auto

lemma le_value_le_bytes: "le_value (le_bytes n v) = v mod 256 ^ n"
proof (induction n arbitrary: v)
  case 0
  then show ?case by simp
next
  case (Suc n)
  have "unat (of_nat (v mod 256) :: byte) = v mod 256"
    by (simp add: unat_of_nat)
  then show ?case using Suc by (simp add: mod_mult2_eq)
qed

lemma le_value_bound: "le_value bs < 256 ^ length bs"
proof (induction bs)
  case (Cons b bs)
  have "unat b < 256" using unsigned_less [of b] by simp
  with Cons show ?case by simp
qed simp

lemma le_bytes_le_value: "le_bytes (length bs) (le_value bs) = bs"
proof (induction bs)
  case (Cons b bs)
  have "unat b < 256" using unsigned_less [of b] by simp
  with Cons show ?case by simp
qed simp

section \<open>Fields\<close>

datatype field = Fld_B | Fld_I | Fld_i | Fld_Q | Fld_q

fun field_of_code :: "char \<Rightarrow> field option" where
  "field_of_code c =
     (if c = CHR ''B'' then Some Fld_B
      else if c = CHR ''I'' then Some Fld_I
      else if c = CHR ''i'' then Some Fld_i
      else if c = CHR ''Q'' then Some Fld_Q
      else if c = CHR ''q'' then Some Fld_q
      else None)"

fun fields_of_codes :: "string \<Rightarrow> field list option" where
  "fields_of_codes [] = Some []"
| "fields_of_codes (c # cs) =
     (case field_of_code c of None \<Rightarrow> None
      | Some f \<Rightarrow> map_option ((#) f) (fields_of_codes cs))"

fun parse_format :: "string \<Rightarrow> field list option" where
  "parse_format [] = None"
| "parse_format (c # cs) = (if c = CHR ''<'' then fields_of_codes cs else None)"

fun field_width :: "field \<Rightarrow> nat" where
  "field_width Fld_B = 1"
| "field_width Fld_I = 4"
| "field_width Fld_i = 4"
| "field_width Fld_Q = 8"
| "field_width Fld_q = 8"

fun field_signed :: "field \<Rightarrow> bool" where
  "field_signed Fld_i = True"
| "field_signed Fld_q = True"
| "field_signed _ = False"

definition field_min :: "field \<Rightarrow> int" where
  "field_min f = (if field_signed f then - (256 ^ field_width f div 2) else 0)"

definition field_max :: "field \<Rightarrow> int" where
  "field_max f = field_min f + 256 ^ field_width f - 1"

definition field_range :: "field \<Rightarrow> int \<Rightarrow> bool" where
  "field_range f v \<longleftrightarrow> field_min f \<le> v \<and> v \<le> field_max f"

definition pack_field :: "field \<Rightarrow> int \<Rightarrow> bytes result" where
  "pack_field f v =
     (if field_range f v
      then Inr (le_bytes (field_width f) (nat (v mod 256 ^ field_width f)))
      else Inl StructError)"

definition unpack_field :: "field \<Rightarrow> bytes \<Rightarrow> int" where
  "unpack_field f bs =
     (let u = int (le_value bs)
      in if field_max f < u then u - 256 ^ field_width f else u)"

lemma field_width_pos [simp]: "0 < field_width f"
  by (cases f) auto

lemma pack_field_length: "pack_field f v = Inr bs \<Longrightarrow> length bs = field_width f"
  by (auto simp: pack_field_def split: if_splits)

lemma pack_field_Inr: "field_range f v \<Longrightarrow> \<exists>bs. pack_field f v = Inr bs"
  by (simp add: pack_field_def)

lemma pack_field_range: "pack_field f v = Inr bs \<Longrightarrow> field_range f v"
  by (auto simp: pack_field_def split: if_splits)

lemma mod_window:
  fixes v m lo :: int
  assumes "lo \<le> v" "v < lo + m" "lo \<le> 0" "0 < lo + m"
  shows "v mod m = (if v < 0 then v + m else v)"
proof (cases "v < 0")
  case True
  then have "(v + m) mod m = v + m" using assms by (intro mod_pos_pos_trivial) auto
  then show ?thesis using True by simp
next
  case False
  then show ?thesis using assms by (simp add: mod_pos_pos_trivial)
qed

lemma field_min_max: "field_min f \<le> 0" "0 < field_min f + 256 ^ field_width f"
  "0 < field_max f" "field_signed f \<or> field_min f = 0"
  by (cases f; simp add: field_min_def field_max_def)+

lemma unpack_pack_field:
  assumes "pack_field f v = Inr bs"
  shows "unpack_field f bs = v"
proof -
  let ?m = "256 ^ field_width f :: int"
  have r: "field_min f \<le> v" "v < field_min f + ?m"
    using pack_field_range [OF assms] by (auto simp: field_range_def field_max_def)
  have bs: "bs = le_bytes (field_width f) (nat (v mod ?m))"
    using assms by (auto simp: pack_field_def split: if_splits)
  have "int (le_value bs) = v mod ?m"
    unfolding bs le_value_le_bytes by (simp add: zmod_int)
  also have "\<dots> = (if v < 0 then v + ?m else v)"
    using r field_min_max by (intro mod_window) auto
  finally show ?thesis
    using r by (auto simp: unpack_field_def field_max_def Let_def)
qed

lemma unpack_field_range:
  assumes "length bs = field_width f"
  shows "field_range f (unpack_field f bs)"
proof -
  have *: "int (le_value bs) < 256 ^ field_width f"
    using le_value_bound [of bs] assms by (metis of_nat_less_iff of_nat_numeral of_nat_power)
  moreover have "field_max f = 256 ^ field_width f - 1 \<or> 2 * (- field_min f) = 256 ^ field_width f"
    by (cases f) (simp_all add: field_max_def field_min_def)
  ultimately show ?thesis
    using field_min_max [of f] unfolding field_range_def unpack_field_def field_max_def Let_def
    by (simp only: split: if_split) linarith
qed

section \<open>Formats\<close>

definition fields_size :: "field list \<Rightarrow> nat" where
  "fields_size fs = sum_list (map field_width fs)"

fun pack_fields :: "field list \<Rightarrow> int list \<Rightarrow> bytes result" where
  "pack_fields [] [] = Inr []"
| "pack_fields (f # fs) (v # vs) =
     (case pack_field f v of Inl e \<Rightarrow> Inl e
      | Inr b \<Rightarrow> (case pack_fields fs vs of Inl e \<Rightarrow> Inl e | Inr bs \<Rightarrow> Inr (b @ bs)))"
| "pack_fields _ _ = Inl StructError"

fun unpack_fields :: "field list \<Rightarrow> bytes \<Rightarrow> int list" where
  "unpack_fields [] bs = []"
| "unpack_fields (f # fs) bs =
     unpack_field f (take (field_width f) bs) # unpack_fields fs (drop (field_width f) bs)"

definition calcsize :: "string \<Rightarrow> nat" where
  "calcsize fmt = (case parse_format fmt of None \<Rightarrow> 0 | Some fs \<Rightarrow> fields_size fs)"

definition struct_pack :: "string \<Rightarrow> int list \<Rightarrow> bytes result" where
  "struct_pack fmt vs =
     (case parse_format fmt of None \<Rightarrow> Inl StructError | Some fs \<Rightarrow> pack_fields fs vs)"

definition struct_unpack :: "string \<Rightarrow> bytes \<Rightarrow> int list result" where
  "struct_unpack fmt bs =
     (case parse_format fmt of None \<Rightarrow> Inl StructError
      | Some fs \<Rightarrow> if length bs = fields_size fs then Inr (unpack_fields fs bs)
                  else Inl StructError)"

lemma fields_size_simps [simp]:
  "fields_size [] = 0" "fields_size (f # fs) = field_width f + fields_size fs"
  by (simp_all add: fields_size_def)

lemma pack_fields_length: "pack_fields fs vs = Inr bs \<Longrightarrow> length bs = fields_size fs"
  by (induction fs vs arbitrary: bs rule: pack_fields.induct)
    (auto split: sum.splits dest: pack_field_length)

lemma unpack_pack_fields: "pack_fields fs vs = Inr bs \<Longrightarrow> unpack_fields fs bs = vs"
proof (induction fs vs arbitrary: bs rule: pack_fields.induct)
  case (2 f fs v vs)
  then obtain b bs' where b: "pack_field f v = Inr b" "pack_fields fs vs = Inr bs'" "bs = b @ bs'"
    by (auto split: sum.splits)
  then show ?case
    using "2.IH" [OF b(1,2)] pack_field_length [OF b(1)] unpack_pack_field [OF b(1)] by simp
qed simp_all

lemma pack_fields_Inr: "list_all2 field_range fs vs \<Longrightarrow> \<exists>bs. pack_fields fs vs = Inr bs"
proof (induction fs vs rule: list_all2_induct)
  case (Cons f fs v vs)
  then show ?case using pack_field_Inr [of f v] by auto
qed simp

lemma pack_fields_iff: "(\<exists>bs. pack_fields fs vs = Inr bs) \<longleftrightarrow> list_all2 field_range fs vs"
proof
  show "\<exists>bs. pack_fields fs vs = Inr bs \<Longrightarrow> list_all2 field_range fs vs"
    by (induction fs vs rule: pack_fields.induct)
      (auto split: sum.splits dest: pack_field_range)
qed (rule pack_fields_Inr)

lemma length_unpack_fields [simp]: "length (unpack_fields fs bs) = length fs"
  by (induction fs arbitrary: bs) auto

lemma unpack_fields_range:
  "length bs = fields_size fs \<Longrightarrow> list_all2 field_range fs (unpack_fields fs bs)"
  by (induction fs arbitrary: bs) (auto intro!: unpack_field_range)

end
