(* ===== verification/Tcp_Client.thy ===== *)
theory Tcp_Client
  imports Py_Struct
begin

text \<open>
  \<open>simulation/market/tcp_client.py\<close>: the message structs with their formats, the framing, and
  the client's connection state. The socket is an explicit state: a script of what the
  operating system answers to the next \<open>recv\<close> and \<open>sendall\<close> calls, over which the theorems
  quantify, and the bytes written so far.

  The lemmas on \<open>poll_loop\<close> show that the parser's result does not depend on how TCP cuts
  the stream into pieces, and what an undecodable frame does.
\<close>

section \<open>Message types\<close>

datatype msg_type = NEW_ORDER | CANCEL_ORDER | FILL | BOOK_UPDATE | REJECT | HEARTBEAT

fun msg_type_value :: "msg_type \<Rightarrow> int" where
  "msg_type_value NEW_ORDER = 1"
| "msg_type_value CANCEL_ORDER = 2"
| "msg_type_value FILL = 3"
| "msg_type_value BOOK_UPDATE = 4"
| "msg_type_value REJECT = 5"
| "msg_type_value HEARTBEAT = 255"

text \<open>Calling the enumeration on a value that no member has raises \<open>ValueError\<close>.\<close>

definition msg_type_of :: "int \<Rightarrow> msg_type result" where
  "msg_type_of v =
     (if v = 1 then Inr NEW_ORDER
      else if v = 2 then Inr CANCEL_ORDER
      else if v = 3 then Inr FILL
      else if v = 4 then Inr BOOK_UPDATE
      else if v = 5 then Inr REJECT
      else if v = 255 then Inr HEARTBEAT
      else Inl ValueError)"

lemma msg_type_of_value [simp]: "msg_type_of (msg_type_value t) = Inr t"
  by (cases t) (simp_all add: msg_type_of_def)

lemma msg_type_of_Inr: "msg_type_of v = Inr t \<longleftrightarrow> v = msg_type_value t"
  by (cases t) (auto simp: msg_type_of_def split: if_splits)

section \<open>Message structs\<close>

record new_order_msg =
  no_id :: int
  no_side :: int
  no_type :: int
  no_price :: int
  no_quantity :: int
  no_display_qty :: int

definition NewOrderMsg_FORMAT :: string where
  "NewOrderMsg_FORMAT = ''<QBBqii''"

definition NewOrderMsg_pack :: "new_order_msg \<Rightarrow> bytes result" where
  "NewOrderMsg_pack m = struct_pack NewOrderMsg_FORMAT
     [no_id m, no_side m, no_type m, no_price m, no_quantity m, no_display_qty m]"

record cancel_order_msg =
  co_id :: int

definition CancelOrderMsg_FORMAT :: string where
  "CancelOrderMsg_FORMAT = ''<Q''"

definition CancelOrderMsg_pack :: "cancel_order_msg \<Rightarrow> bytes result" where
  "CancelOrderMsg_pack m = struct_pack CancelOrderMsg_FORMAT [co_id m]"

record fill_msg =
  maker_id :: int
  taker_id :: int
  fill_price :: int
  fill_quantity :: int

definition FillMsg_FORMAT :: string where
  "FillMsg_FORMAT = ''<QQqi''"

definition FillMsg_unpack :: "bytes \<Rightarrow> fill_msg result" where
  "FillMsg_unpack data =
     (case struct_unpack FillMsg_FORMAT (take (calcsize FillMsg_FORMAT) data) of
        Inl e \<Rightarrow> Inl e
      | Inr vs \<Rightarrow>
          (case vs of
             [m, t, p, q] \<Rightarrow>
               Inr \<lparr>maker_id = m, taker_id = t, fill_price = p, fill_quantity = q\<rparr>
           | _ \<Rightarrow> Inl ValueError))"

definition MAX_DEPTH_LEVELS :: nat where
  "MAX_DEPTH_LEVELS = 10"

record book_update_msg =
  best_bid :: int
  best_ask :: int
  num_bid_levels :: int
  num_ask_levels :: int
  bid_prices :: "int list"
  bid_quantities :: "int list"
  ask_prices :: "int list"
  ask_quantities :: "int list"

definition BookUpdateMsg_FORMAT :: string where
  "BookUpdateMsg_FORMAT = ''<qqii'' @ replicate 10 (CHR ''q'') @ replicate 10 (CHR ''i'')
     @ replicate 10 (CHR ''q'') @ replicate 10 (CHR ''i'')"

text \<open>Slicing \<open>values[a:b]\<close>.\<close>

definition py_slice :: "nat \<Rightarrow> nat \<Rightarrow> 'a list \<Rightarrow> 'a list" where
  "py_slice a b xs = take (b - a) (drop a xs)"

definition BookUpdateMsg_unpack :: "bytes \<Rightarrow> book_update_msg result" where
  "BookUpdateMsg_unpack data =
     (case struct_unpack BookUpdateMsg_FORMAT (take (calcsize BookUpdateMsg_FORMAT) data) of
        Inl e \<Rightarrow> Inl e
      | Inr vs \<Rightarrow>
          (if length vs < 4 then Inl IndexError
           else Inr \<lparr>best_bid = vs ! 0, best_ask = vs ! 1,
                     num_bid_levels = vs ! 2, num_ask_levels = vs ! 3,
                     bid_prices = py_slice 4 14 vs, bid_quantities = py_slice 14 24 vs,
                     ask_prices = py_slice 24 34 vs, ask_quantities = py_slice 34 44 vs\<rparr>))"

section \<open>Framing\<close>

definition HEADER_FORMAT :: string where
  "HEADER_FORMAT = ''<BI''"

definition HEADER_SIZE :: nat where
  "HEADER_SIZE = calcsize HEADER_FORMAT"

datatype message = Fill_Message fill_msg | Book_Message book_update_msg

type_synonym messages = "(msg_type \<times> message) list"

text \<open>What the loop of \<open>poll\<close> does with one complete frame: raise, or append messages.\<close>

definition handle_frame :: "int \<Rightarrow> bytes \<Rightarrow> messages result" where
  "handle_frame ty payload =
     (case msg_type_of ty of
        Inl e \<Rightarrow> Inl e
      | Inr t \<Rightarrow>
          (if t = FILL then
             (case FillMsg_unpack payload of Inl e \<Rightarrow> Inl e | Inr f \<Rightarrow> Inr [(t, Fill_Message f)])
           else if t = BOOK_UPDATE then
             (case BookUpdateMsg_unpack payload of Inl e \<Rightarrow> Inl e
              | Inr b \<Rightarrow> Inr [(t, Book_Message b)])
           else Inr []))"

text \<open>
  The loop of \<open>poll\<close>: the buffer it leaves, the messages appended so far, and the exception
  that ended it, if any. A frame is taken out of the buffer before it is decoded.
\<close>

lemma parse_header_format [simp]: "parse_format ''<BI'' = Some [Fld_B, Fld_I]"
  by simp

lemma header_size: "HEADER_SIZE = 5"
  by (simp add: HEADER_SIZE_def HEADER_FORMAT_def calcsize_def)

function poll_loop :: "bytes \<Rightarrow> bytes \<times> messages \<times> py_error option" where
  "poll_loop buf =
     (if length buf < HEADER_SIZE then (buf, [], None)
      else
        (case struct_unpack HEADER_FORMAT (take HEADER_SIZE buf) of
           Inl e \<Rightarrow> (buf, [], Some e)
         | Inr vs \<Rightarrow>
             (let total_size = HEADER_SIZE + nat (vs ! 1)
              in if length buf < total_size then (buf, [], None)
                 else
                   (let payload = py_slice HEADER_SIZE total_size buf;
                        rest = drop total_size buf
                    in case handle_frame (vs ! 0) payload of
                         Inl e \<Rightarrow> (rest, [], Some e)
                       | Inr ms \<Rightarrow>
                           (case poll_loop rest of (b, ms', e) \<Rightarrow> (b, ms @ ms', e))))))"
  by pat_completeness auto
termination
  by (relation "measure length") (auto simp: header_size)

declare poll_loop.simps [simp del]

section \<open>The socket and the client\<close>

datatype recv_outcome = Received bytes | Would_Block | Recv_Failed

record socket =
  connected :: bool
  recv_script :: "recv_outcome list"
  send_script :: "nat option list"
  wire :: bytes

text \<open>
  \<open>recv(4096)\<close> on a non-blocking socket: the next outcome of the script, \<open>Would_Block\<close> when
  nothing more is scripted; a closed peer is \<open>Received []\<close>. \<open>sendall\<close> writes everything, or
  writes a prefix and raises (a full send buffer raises \<open>BlockingIOError\<close>, an
  \<open>OSError\<close>, after a partial write).
\<close>

definition sock_recv :: "socket \<Rightarrow> recv_outcome \<times> socket" where
  "sock_recv s =
     (if \<not> connected s then (Recv_Failed, s)
      else (case recv_script s of
              [] \<Rightarrow> (Would_Block, s)
            | o1 # os \<Rightarrow>
                ((case o1 of Received d \<Rightarrow> Received (take 4096 d) | _ \<Rightarrow> o1),
                 s\<lparr>recv_script := os\<rparr>)))"

definition sock_sendall :: "socket \<Rightarrow> bytes \<Rightarrow> unit result \<times> socket" where
  "sock_sendall s d =
     (if \<not> connected s then (Inl OSError, s)
      else (case send_script s of
              [] \<Rightarrow> (Inr (), s\<lparr>wire := wire s @ d\<rparr>)
            | None # os \<Rightarrow> (Inr (), s\<lparr>wire := wire s @ d, send_script := os\<rparr>)
            | Some n # os \<Rightarrow>
                (Inl OSError, s\<lparr>wire := wire s @ take n d, send_script := os\<rparr>)))"

text \<open>
  The client. The two callbacks are modelled by whether one is registered and by the list of
  the messages they were called with, in order.
\<close>

record tcp_client =
  host :: string
  port :: int
  sock :: "socket option"
  recv_buffer :: bytes
  on_fill_set :: bool
  on_book_update_set :: bool
  callback_log :: "message list"

definition tcp_init :: "string \<Rightarrow> int \<Rightarrow> tcp_client" where
  "tcp_init h p = \<lparr>host = h, port = p, sock = None, recv_buffer = [],
     on_fill_set = False, on_book_update_set = False, callback_log = []\<rparr>"

text \<open>
  \<open>connect\<close> stores the new socket before it connects it: when connecting raises, the client
  keeps an unconnected socket.
\<close>

definition tcp_connect :: "tcp_client \<Rightarrow> socket result \<Rightarrow> unit result \<times> tcp_client" where
  "tcp_connect c outcome =
     (case outcome of
        Inl e \<Rightarrow> (Inl e, c\<lparr>sock := Some \<lparr>connected = False, recv_script = [],
                                       send_script = [], wire = []\<rparr>\<rparr>)
      | Inr s \<Rightarrow> (Inr (), c\<lparr>sock := Some (s\<lparr>connected := True\<rparr>)\<rparr>))"

definition tcp_disconnect :: "tcp_client \<Rightarrow> tcp_client" where
  "tcp_disconnect c = (case sock c of None \<Rightarrow> c | Some _ \<Rightarrow> c\<lparr>sock := None\<rparr>)"

definition set_fill_callback :: "tcp_client \<Rightarrow> tcp_client" where
  "set_fill_callback c = c\<lparr>on_fill_set := True\<rparr>"

definition set_book_update_callback :: "tcp_client \<Rightarrow> tcp_client" where
  "set_book_update_callback c = c\<lparr>on_book_update_set := True\<rparr>"

text \<open>Header and payload in one \<open>sendall\<close>; packing errors are raised before it.\<close>

definition send_frame :: "tcp_client \<Rightarrow> msg_type \<Rightarrow> bytes result \<Rightarrow> unit result \<times> tcp_client" where
  "send_frame c t packed =
     (case packed of
        Inl e \<Rightarrow> (Inl e, c)
      | Inr payload \<Rightarrow>
          (case struct_pack HEADER_FORMAT [msg_type_value t, int (length payload)] of
             Inl e \<Rightarrow> (Inl e, c)
           | Inr header \<Rightarrow>
               (case sock c of
                  None \<Rightarrow> (Inl AttributeError, c)
                | Some s \<Rightarrow>
                    (case sock_sendall s (header @ payload) of
                       (r, s') \<Rightarrow> (r, c\<lparr>sock := Some s'\<rparr>)))))"

definition send_new_order ::
  "tcp_client \<Rightarrow> int \<Rightarrow> int \<Rightarrow> int \<Rightarrow> int \<Rightarrow> int \<Rightarrow> int \<Rightarrow> unit result \<times> tcp_client" where
  "send_new_order c order_id side order_type price quantity display_qty =
     send_frame c NEW_ORDER
       (NewOrderMsg_pack \<lparr>no_id = order_id, no_side = side, no_type = order_type,
          no_price = price, no_quantity = quantity, no_display_qty = display_qty\<rparr>)"

definition send_cancel :: "tcp_client \<Rightarrow> int \<Rightarrow> unit result \<times> tcp_client" where
  "send_cancel c order_id = send_frame c CANCEL_ORDER (CancelOrderMsg_pack \<lparr>co_id = order_id\<rparr>)"

definition callbacks_for :: "tcp_client \<Rightarrow> messages \<Rightarrow> message list" where
  "callbacks_for c ms =
     filter (\<lambda>m. case m of Fill_Message _ \<Rightarrow> on_fill_set c | Book_Message _ \<Rightarrow> on_book_update_set c)
       (map snd ms)"

definition poll_buffer :: "tcp_client \<Rightarrow> messages result \<times> tcp_client" where
  "poll_buffer c =
     (case poll_loop (recv_buffer c) of
        (buf, ms, err) \<Rightarrow>
          ((case err of None \<Rightarrow> Inr ms | Some e \<Rightarrow> Inl e),
           c\<lparr>recv_buffer := buf, callback_log := callback_log c @ callbacks_for c ms\<rparr>))"

definition poll :: "tcp_client \<Rightarrow> messages result \<times> tcp_client" where
  "poll c =
     (case sock c of
        None \<Rightarrow> (Inl AttributeError, c)
      | Some s \<Rightarrow>
          (case sock_recv s of (outcome, s') \<Rightarrow>
             (let c' = c\<lparr>sock := Some s'\<rparr>
              in case outcome of
                   Recv_Failed \<Rightarrow> (Inr [], c')
                 | Would_Block \<Rightarrow> poll_buffer c'
                 | Received d \<Rightarrow>
                     (if d = [] then (Inr [], c')
                      else poll_buffer (c'\<lparr>recv_buffer := recv_buffer c' @ d\<rparr>)))))"

section \<open>One frame at a time\<close>

lemma take_header: "length h = 5 \<Longrightarrow> take HEADER_SIZE (h @ xs) = h"
  by (simp add: header_size)

lemma header_unpack:
  assumes "struct_pack HEADER_FORMAT vs = Inr h"
  shows "struct_unpack HEADER_FORMAT h = Inr vs" "length h = 5"
  using assms pack_fields_length [of "[Fld_B, Fld_I]" vs h] unpack_pack_fields [of "[Fld_B, Fld_I]" vs h]
  by (auto simp: struct_pack_def struct_unpack_def HEADER_FORMAT_def)

lemma header_pack:
  assumes "0 \<le> ty" "ty < 256" "length p < 2 ^ 32"
  shows "\<exists>h. struct_pack HEADER_FORMAT [ty, int (length p)] = Inr h"
  using assms pack_fields_Inr [of "[Fld_B, Fld_I]" "[ty, int (length p)]"]
  by (auto simp: struct_pack_def HEADER_FORMAT_def field_range_def field_min_def field_max_def)

lemma poll_loop_short: "length buf < 5 \<Longrightarrow> poll_loop buf = (buf, [], None)"
  by (simp add: poll_loop.simps [of buf] header_size)

text \<open>A complete frame at the front of the buffer is decoded and taken off.\<close>

lemma poll_loop_frame:
  assumes "struct_pack HEADER_FORMAT [ty, int (length p)] = Inr h"
  shows "poll_loop (h @ p @ rest) =
     (case handle_frame ty p of
        Inl e \<Rightarrow> (rest, [], Some e)
      | Inr ms \<Rightarrow> (case poll_loop rest of (b, ms', e) \<Rightarrow> (b, ms @ ms', e)))"
proof -
  have len: "length h = 5" and un: "struct_unpack HEADER_FORMAT h = Inr [ty, int (length p)]"
    using header_unpack [OF assms] by auto
  show ?thesis
    by (subst poll_loop.simps)
      (simp add: take_header len un header_size Let_def py_slice_def)
qed

text \<open>
  The header of a buffer of at least five bytes always unpacks; the two values are the
  message type and the payload length. Splitting on them is the case analysis of every proof
  about the loop.
\<close>

lemma header_unpack_len:
  "length h = 5 \<Longrightarrow> struct_unpack HEADER_FORMAT h = Inr (unpack_fields [Fld_B, Fld_I] h)"
  by (simp add: struct_unpack_def HEADER_FORMAT_def)

definition buf_type :: "bytes \<Rightarrow> int" where
  "buf_type buf = unpack_fields [Fld_B, Fld_I] (take 5 buf) ! 0"

definition buf_total :: "bytes \<Rightarrow> nat" where
  "buf_total buf = 5 + nat (unpack_fields [Fld_B, Fld_I] (take 5 buf) ! 1)"

lemma poll_loop_unfold:
  "poll_loop buf =
     (if length buf < 5 \<or> length buf < buf_total buf then (buf, [], None)
      else (case handle_frame (buf_type buf) (py_slice 5 (buf_total buf) buf) of
              Inl e \<Rightarrow> (drop (buf_total buf) buf, [], Some e)
            | Inr ms \<Rightarrow> (case poll_loop (drop (buf_total buf) buf) of
                 (b, ms', e) \<Rightarrow> (b, ms @ ms', e))))"
  unfolding buf_type_def buf_total_def
  by (subst poll_loop.simps) (simp add: header_size Let_def header_unpack_len [of "take 5 buf"]
      del: unpack_fields.simps One_nat_def)

lemma buf_total_ge: "5 \<le> buf_total buf"
  by (simp add: buf_total_def)

lemma drop_frame_less: "5 \<le> length a \<Longrightarrow> length (drop (buf_total a) a) < length a"
  using buf_total_ge [of a] by (simp del: length_greater_0_conv)

lemma buf_append:
  "5 \<le> length a \<Longrightarrow> buf_total (a @ b) = buf_total a"
  "5 \<le> length a \<Longrightarrow> buf_type (a @ b) = buf_type a"
  by (simp_all add: buf_total_def buf_type_def)

lemma slice_append: "n \<le> length a \<Longrightarrow> py_slice m n (a @ b) = py_slice m n a"
  by (cases "m \<le> n") (auto simp: py_slice_def)

section \<open>Segmentation\<close>

text \<open>
  Bytes that arrive later do not change what the earlier bytes meant: parsing \<open>a @ b\<close> is
  parsing \<open>a\<close>, then parsing what it left over followed by \<open>b\<close>.
\<close>

lemma poll_loop_append:
  "poll_loop a = (ra, ms, None) \<Longrightarrow>
     poll_loop (a @ b) = (case poll_loop (ra @ b) of (r, ms', e) \<Rightarrow> (r, ms @ ms', e))"
proof (induction "length a" arbitrary: a ra ms rule: less_induct)
  case less
  show ?case
  proof (cases "length a < 5 \<or> length a < buf_total a")
    case True
    then show ?thesis using less.prems by (auto simp: poll_loop_unfold [of a] split: prod.splits)
  next
    case False
    let ?r = "drop (buf_total a) a"
    from False less.prems obtain ms1 ms2 where
      h: "handle_frame (buf_type a) (py_slice 5 (buf_total a) a) = Inr ms1"
      and rec: "poll_loop ?r = (ra, ms2, None)" and ms: "ms = ms1 @ ms2"
      by (auto simp: poll_loop_unfold [of a] split: sum.splits prod.splits)
    have "length ?r < length a" using False by (intro drop_frame_less) simp
    from less.hyps [OF this rec]
    have "poll_loop (?r @ b) = (case poll_loop (ra @ b) of (r, ms', e) \<Rightarrow> (r, ms2 @ ms', e))" .
    then show ?thesis
      using False h ms by (simp add: poll_loop_unfold [of "a @ b"] buf_append slice_append
          split: prod.splits)
  qed
qed

lemma poll_loop_append_err:
  "poll_loop a = (ra, ms, Some e) \<Longrightarrow> poll_loop (a @ b) = (ra @ b, ms, Some e)"
proof (induction "length a" arbitrary: a ra ms rule: less_induct)
  case less
  then have long: "\<not> (length a < 5 \<or> length a < buf_total a)"
    by (auto simp: poll_loop_unfold [of a] split: if_splits)
  let ?r = "drop (buf_total a) a"
  have "length ?r < length a" using long by (intro drop_frame_less) simp
  note IH = less.hyps [OF this]
  show ?case
    using long less.prems IH
    by (auto simp: poll_loop_unfold [of a] poll_loop_unfold [of "a @ b"] buf_append slice_append
        split: sum.splits prod.splits)
qed

text \<open>What the loop leaves in the buffer holds no complete frame.\<close>

lemma poll_loop_rest: "poll_loop a = (ra, ms, None) \<Longrightarrow> poll_loop ra = (ra, [], None)"
proof (induction "length a" arbitrary: a ra ms rule: less_induct)
  case less
  show ?case
  proof (cases "length a < 5 \<or> length a < buf_total a")
    case True
    then have "poll_loop a = (a, [], None)" by (simp add: poll_loop_unfold [of a])
    with less.prems show ?thesis by simp
  next
    case False
    then have "length (drop (buf_total a) a) < length a" by (intro drop_frame_less) simp
    then show ?thesis
      using less.hyps [of "drop (buf_total a) a"] less.prems False
      by (auto simp: poll_loop_unfold [of a] split: sum.splits prod.splits)
  qed
qed

text \<open>\<open>n\<close> calls of \<open>poll\<close> in a row, the way the simulator calls it after every action.\<close>

fun polls :: "nat \<Rightarrow> tcp_client \<Rightarrow> messages result \<times> tcp_client" where
  "polls 0 c = (Inr [], c)"
| "polls (Suc n) c =
     (case poll c of
        (Inl e, c') \<Rightarrow> (Inl e, c')
      | (Inr ms, c') \<Rightarrow>
          (case polls n c' of (Inl e, c'') \<Rightarrow> (Inl e, c'') | (Inr ms', c'') \<Rightarrow> (Inr (ms @ ms'), c'')))"

lemma poll_received:
  assumes "sock c = Some s" "connected s" "recv_script s = Received d # os"
    "d \<noteq> []" "length d \<le> 4096" "poll_loop (recv_buffer c @ d) = (buf, ms, None)"
  shows "\<exists>c'. poll c = (Inr ms, c') \<and> recv_buffer c' = buf
     \<and> sock c' = Some (s\<lparr>recv_script := os\<rparr>)"
  using assms by (simp add: poll_def sock_recv_def poll_buffer_def Let_def)

lemma polls_segments:
  assumes "sock c = Some s" "connected s" "recv_script s = map Received ds @ os"
    "\<forall>d \<in> set ds. d \<noteq> [] \<and> length d \<le> 4096"
    "poll_loop (recv_buffer c) = (recv_buffer c, [], None)"
    "poll_loop (recv_buffer c @ concat ds) = (rest, ms, None)"
  shows "\<exists>c'. polls (length ds) c = (Inr ms, c') \<and> recv_buffer c' = rest"
  using assms
proof (induction ds arbitrary: c s ms)
  case Nil
  then show ?case by simp
next
  case (Cons d ds)
  obtain b1 ms1 e1 where p1: "poll_loop (recv_buffer c @ d) = (b1, ms1, e1)"
    by (cases "poll_loop (recv_buffer c @ d)")
  have e1: "e1 = None"
    using poll_loop_append_err [of "recv_buffer c @ d" b1 ms1 _ "concat ds"] p1 Cons.prems(6)
    by (cases e1) auto
  obtain ms2 where ms: "ms = ms1 @ ms2" and p2: "poll_loop (b1 @ concat ds) = (rest, ms2, None)"
    using poll_loop_append [OF p1 [unfolded e1], of "concat ds"] Cons.prems(6)
    by (auto split: prod.splits)
  obtain c' where c': "poll c = (Inr ms1, c')" "recv_buffer c' = b1"
    "sock c' = Some (s\<lparr>recv_script := map Received ds @ os\<rparr>)"
    using poll_received [of c s d "map Received ds @ os" b1 ms1] Cons.prems p1 e1 by auto
  have "\<exists>c''. polls (length ds) c' = (Inr ms2, c'') \<and> recv_buffer c'' = rest"
    using Cons.prems(2,4) c' p2 poll_loop_rest [OF p1 [unfolded e1]]
    by (intro Cons.IH [of c' "s\<lparr>recv_script := map Received ds @ os\<rparr>"]) auto
  then show ?case using c' ms by auto
qed

end
