(* ===== verification/Engine_Protocol.thy ===== *)
theory Engine_Protocol
  imports Tcp_Client
begin

text \<open>
  The engine's side of the wire protocol: the packed structs of
  \<open>engine/include/message.hpp\<close> with their \<open>serialize\<close> and \<open>deserialize\<close> (memcpy of a packed
  struct on a little-endian host), over machine words. A message the engine sends is an
  instance of the locale \<open>engine_message\<close>: its bytes, and what the Python client makes of
  them. Streams of such messages are parsed back frame by frame.
\<close>

section \<open>Words on the wire\<close>

type_synonym order_id = "64 word"
type_synonym tick = "64 word"
type_synonym quantity = "32 word"
type_synonym fee = "64 word"

definition bytes64 :: "64 word \<Rightarrow> bytes" where
  "bytes64 w = le_bytes 8 (unat w)"

definition bytes32 :: "32 word \<Rightarrow> bytes" where
  "bytes32 w = le_bytes 4 (unat w)"

definition word64 :: "bytes \<Rightarrow> 64 word" where
  "word64 bs = of_nat (le_value (take 8 bs))"

definition word32 :: "bytes \<Rightarrow> 32 word" where
  "word32 bs = of_nat (le_value (take 4 bs))"

lemma length_bytes [simp]: "length (bytes64 w) = 8" "length (bytes32 v) = 4"
  by (simp_all add: bytes64_def bytes32_def)

lemma word_bounds:
  "unat (w :: 64 word) < 2 ^ 64" "unat (v :: 32 word) < 2 ^ 32"
  "uint w < 2 ^ 64" "uint v < 2 ^ 32"
  using unsigned_less [of w, where ?'a = nat] unsigned_less [of v, where ?'a = nat]
    unsigned_less [of w, where ?'a = int] unsigned_less [of v, where ?'a = int]
  by simp_all

lemma le_value_bytes [simp]: "le_value (bytes64 w) = unat w" "le_value (bytes32 v) = unat v"
  using word_bounds(1) [of w] word_bounds(2) [of v]
  by (simp_all add: bytes64_def bytes32_def le_value_le_bytes)

lemma signed_window:
  fixes u m :: int
  assumes "0 \<le> u" "u < 2 * m"
  shows "(u + m) mod (2 * m) - m = (if u < m then u else u - 2 * m)"
proof (cases "u < m")
  case True
  then show ?thesis using assms by (simp add: mod_pos_pos_trivial)
next
  case False
  then have "(u - m) mod (2 * m) = u - m" using assms by (intro mod_pos_pos_trivial) auto
  moreover have "(u + m) mod (2 * m) = (u - m) mod (2 * m)"
    using mod_add_self2 [of "u - m" "2 * m"] by (simp add: algebra_simps)
  ultimately show ?thesis using False by simp
qed

lemma sint_cases:
  "sint (w :: 64 word) = (if uint w < 2 ^ 63 then uint w else uint w - 2 ^ 64)"
  "sint (v :: 32 word) = (if uint v < 2 ^ 31 then uint v else uint v - 2 ^ 32)"
  using signed_window [of "uint w" "2 ^ 63"] signed_window [of "uint v" "2 ^ 31"]
    word_bounds(3) [of w] word_bounds(4) [of v]
  by (simp_all add: sint_uint signed_take_bit_eq_take_bit_shift take_bit_eq_mod)

lemma unpack_field_Q [simp]: "unpack_field Fld_Q (bytes64 w) = uint w"
  using word_bounds(3) [of w]
  by (simp add: unpack_field_def field_max_def field_min_def Let_def flip: uint_nat)

lemma unpack_field_q [simp]: "unpack_field Fld_q (bytes64 w) = sint w"
  unfolding sint_cases
  by (simp add: unpack_field_def field_max_def field_min_def Let_def flip: uint_nat)

lemma unpack_field_i [simp]: "unpack_field Fld_i (bytes32 v) = sint v"
  unfolding sint_cases
  by (simp add: unpack_field_def field_max_def field_min_def Let_def flip: uint_nat)

section \<open>Messages from the engine\<close>

text \<open>\<open>serialize\<close>: the packed header (type byte, 32-bit payload length), then the packed struct.\<close>

definition serialize :: "8 word \<Rightarrow> bytes \<Rightarrow> bytes" where
  "serialize ty payload = ty # bytes32 (of_nat (length payload)) @ payload"

record engine_fill =
  ef_maker_id :: order_id
  ef_taker_id :: order_id
  ef_price :: tick
  ef_quantity :: quantity
  ef_maker_fee :: fee
  ef_taker_fee :: fee

definition engine_fill_bytes :: "engine_fill \<Rightarrow> bytes" where
  "engine_fill_bytes f = bytes64 (ef_maker_id f) @ bytes64 (ef_taker_id f) @ bytes64 (ef_price f)
     @ bytes32 (ef_quantity f) @ bytes64 (ef_maker_fee f) @ bytes64 (ef_taker_fee f)"

record engine_reject =
  er_id :: order_id
  er_reason :: "8 word"

definition engine_reject_bytes :: "engine_reject \<Rightarrow> bytes" where
  "engine_reject_bytes r = bytes64 (er_id r) @ [er_reason r]"

text \<open>The depth arrays have \<open>MAX_DEPTH_LEVELS\<close> entries each.\<close>

record engine_book_update =
  eb_best_bid :: tick
  eb_best_ask :: tick
  eb_num_bid_levels :: "32 word"
  eb_num_ask_levels :: "32 word"
  eb_bid_prices :: "tick list"
  eb_bid_quantities :: "quantity list"
  eb_ask_prices :: "tick list"
  eb_ask_quantities :: "quantity list"

definition engine_book_ok :: "engine_book_update \<Rightarrow> bool" where
  "engine_book_ok b \<longleftrightarrow> length (eb_bid_prices b) = MAX_DEPTH_LEVELS
     \<and> length (eb_bid_quantities b) = MAX_DEPTH_LEVELS
     \<and> length (eb_ask_prices b) = MAX_DEPTH_LEVELS
     \<and> length (eb_ask_quantities b) = MAX_DEPTH_LEVELS"

definition engine_book_bytes :: "engine_book_update \<Rightarrow> bytes" where
  "engine_book_bytes b = bytes64 (eb_best_bid b) @ bytes64 (eb_best_ask b)
     @ bytes32 (eb_num_bid_levels b) @ bytes32 (eb_num_ask_levels b)
     @ concat (map bytes64 (eb_bid_prices b)) @ concat (map bytes32 (eb_bid_quantities b))
     @ concat (map bytes64 (eb_ask_prices b)) @ concat (map bytes32 (eb_ask_quantities b))"

section \<open>What the client makes of them\<close>

text \<open>The client's fill holds the first four fields; the two fee fields are not read.\<close>

definition client_fill :: "engine_fill \<Rightarrow> fill_msg" where
  "client_fill f = \<lparr>maker_id = uint (ef_maker_id f), taker_id = uint (ef_taker_id f),
     fill_price = sint (ef_price f), fill_quantity = sint (ef_quantity f)\<rparr>"

definition client_book :: "engine_book_update \<Rightarrow> book_update_msg" where
  "client_book b = \<lparr>best_bid = sint (eb_best_bid b), best_ask = sint (eb_best_ask b),
     num_bid_levels = sint (eb_num_bid_levels b), num_ask_levels = sint (eb_num_ask_levels b),
     bid_prices = map sint (eb_bid_prices b), bid_quantities = map sint (eb_bid_quantities b),
     ask_prices = map sint (eb_ask_prices b), ask_quantities = map sint (eb_ask_quantities b)\<rparr>"

lemma FillMsg_unpack_engine: "FillMsg_unpack (engine_fill_bytes f) = Inr (client_fill f)"
  by (simp add: FillMsg_unpack_def FillMsg_FORMAT_def calcsize_def struct_unpack_def
      engine_fill_bytes_def client_fill_def)

lemma book_format: "parse_format BookUpdateMsg_FORMAT =
    Some ([Fld_q, Fld_q, Fld_i, Fld_i] @ replicate 10 Fld_q @ replicate 10 Fld_i
      @ replicate 10 Fld_q @ replicate 10 Fld_i)"
  by (simp add: BookUpdateMsg_FORMAT_def numeral_eq_Suc)

lemma unpack_fields_append:
  "length xs = fields_size fs \<Longrightarrow>
     unpack_fields (fs @ gs) (xs @ ys) = unpack_fields fs xs @ unpack_fields gs ys"
proof (induction fs arbitrary: xs)
  case (Cons f fs)
  then show ?case by (simp add: Cons.IH [of "drop (field_width f) xs"])
qed simp

lemma unpack_replicate [simp]:
  "unpack_fields (replicate (length ws) Fld_q) (concat (map bytes64 ws)) = map sint ws"
  "unpack_fields (replicate (length vs) Fld_i) (concat (map bytes32 vs)) = map sint vs"
  by (induction ws) (auto, induction vs, auto)

lemma length_concat_bytes [simp]:
  "length (concat (map bytes64 ws)) = 8 * length ws"
  "length (concat (map bytes32 vs)) = 4 * length vs"
  by (induction ws) (auto, induction vs, auto)

lemma fields_size_append [simp]: "fields_size (fs @ gs) = fields_size fs + fields_size gs"
  "fields_size (replicate n f) = n * field_width f"
  by (simp_all add: fields_size_def sum_list_replicate)

lemma BookUpdateMsg_unpack_engine:
  assumes "engine_book_ok b"
  shows "BookUpdateMsg_unpack (engine_book_bytes b) = Inr (client_book b)"
proof -
  note l = assms [unfolded engine_book_ok_def MAX_DEPTH_LEVELS_def]
  have len: "length (engine_book_bytes b) = 264"
    using l by (simp add: engine_book_bytes_def)
  have "unpack_fields ([Fld_q, Fld_q, Fld_i, Fld_i] @ replicate 10 Fld_q @ replicate 10 Fld_i
      @ replicate 10 Fld_q @ replicate 10 Fld_i) (engine_book_bytes b) =
    [sint (eb_best_bid b), sint (eb_best_ask b), sint (eb_num_bid_levels b), sint (eb_num_ask_levels b)]
      @ map sint (eb_bid_prices b) @ map sint (eb_bid_quantities b)
      @ map sint (eb_ask_prices b) @ map sint (eb_ask_quantities b)"
    using l unpack_replicate(1) [of "eb_bid_prices b"] unpack_replicate(2) [of "eb_bid_quantities b"]
      unpack_replicate(1) [of "eb_ask_prices b"] unpack_replicate(2) [of "eb_ask_quantities b"]
    by (simp add: engine_book_bytes_def unpack_fields_append)
  then show ?thesis
    using l len by (simp add: BookUpdateMsg_unpack_def struct_unpack_def calcsize_def book_format
        client_book_def py_slice_def)
qed

section \<open>Streams of engine messages\<close>

lemma header_bytes:
  assumes "length p < 2 ^ 32"
  shows "struct_pack HEADER_FORMAT [uint ty, int (length p)] =
    Inr (ty # bytes32 (of_nat (length p)))"
proof -
  have "uint ty < 256" "unat ty < 256"
    using unsigned_less [of ty, where ?'a = int] unsigned_less [of ty, where ?'a = nat] by simp_all
  then have B: "pack_field Fld_B (uint ty) = Inr [ty]"
    by (simp add: pack_field_def field_range_def field_min_def field_max_def mod_pos_pos_trivial
        flip: unat_eq_nat_uint)
  have "unat (of_nat (length p) :: 32 word) = length p"
    using assms by (simp add: unat_of_nat)
  moreover have "nat (int (length p) mod 256 ^ 4) = length p"
    using assms by (simp add: nat_mod_distrib)
  ultimately have I: "pack_field Fld_I (int (length p)) = Inr (bytes32 (of_nat (length p)))"
    using assms by (simp add: pack_field_def field_range_def field_min_def field_max_def bytes32_def)
  show ?thesis
    by (simp add: struct_pack_def HEADER_FORMAT_def B I)
qed

locale engine_message =
  fixes ty :: "8 word"
    and payload :: "'m \<Rightarrow> bytes"
    and valid :: "'m \<Rightarrow> bool"
    and decoded :: "'m \<Rightarrow> messages"
  assumes handle: "valid m \<Longrightarrow> handle_frame (uint ty) (payload m) = Inr (decoded m)"
    and small: "valid m \<Longrightarrow> length (payload m) < 2 ^ 32"
begin

lemma poll_one:
  "valid m \<Longrightarrow> poll_loop (serialize ty (payload m) @ rest) =
     (case poll_loop rest of (b, ms, e) \<Rightarrow> (b, decoded m @ ms, e))"
  using poll_loop_frame [OF header_bytes [OF small], of m ty rest] handle [of m]
  by (simp add: serialize_def)

lemma poll_stream:
  "list_all valid ms \<Longrightarrow>
     poll_loop (concat (map (\<lambda>m. serialize ty (payload m)) ms) @ rest) =
     (case poll_loop rest of (b, ms', e) \<Rightarrow> (b, concat (map decoded ms) @ ms', e))"
  by (induction ms) (auto simp: poll_one split: prod.splits)

end

interpretation fill_wire: engine_message 3 engine_fill_bytes "\<lambda>_. True"
  "\<lambda>f. [(FILL, Fill_Message (client_fill f))]"
  by unfold_locales
    (simp add: handle_frame_def msg_type_of_def FillMsg_unpack_engine,
      simp add: engine_fill_bytes_def)

interpretation book_wire: engine_message 4 engine_book_bytes engine_book_ok
  "\<lambda>b. [(BOOK_UPDATE, Book_Message (client_book b))]"
  by unfold_locales
    (simp add: handle_frame_def msg_type_of_def BookUpdateMsg_unpack_engine,
      simp add: engine_book_bytes_def engine_book_ok_def MAX_DEPTH_LEVELS_def)

interpretation reject_wire: engine_message 5 engine_reject_bytes "\<lambda>_. True" "\<lambda>_. []"
  by unfold_locales
    (simp_all add: handle_frame_def msg_type_of_def engine_reject_bytes_def)

text \<open>Any mixture of the messages the engine can send.\<close>

datatype engine_msg = Engine_Fill engine_fill | Engine_Book engine_book_update | Engine_Reject engine_reject

fun engine_msg_ok :: "engine_msg \<Rightarrow> bool" where
  "engine_msg_ok (Engine_Book b) = engine_book_ok b"
| "engine_msg_ok _ = True"

fun engine_msg_bytes :: "engine_msg \<Rightarrow> bytes" where
  "engine_msg_bytes (Engine_Fill f) = serialize 3 (engine_fill_bytes f)"
| "engine_msg_bytes (Engine_Book b) = serialize 4 (engine_book_bytes b)"
| "engine_msg_bytes (Engine_Reject r) = serialize 5 (engine_reject_bytes r)"

fun client_messages :: "engine_msg \<Rightarrow> messages" where
  "client_messages (Engine_Fill f) = [(FILL, Fill_Message (client_fill f))]"
| "client_messages (Engine_Book b) = [(BOOK_UPDATE, Book_Message (client_book b))]"
| "client_messages (Engine_Reject r) = []"

lemma poll_engine_stream:
  "list_all engine_msg_ok ms \<Longrightarrow>
     poll_loop (concat (map engine_msg_bytes ms) @ rest) =
     (case poll_loop rest of (b, ms', e) \<Rightarrow> (b, concat (map client_messages ms) @ ms', e))"
proof (induction ms)
  case (Cons m ms)
  then show ?case
    by (cases m) (auto simp: fill_wire.poll_one book_wire.poll_one reject_wire.poll_one split: prod.splits)
qed (simp split: prod.splits)

section \<open>Messages to the engine\<close>

record engine_new_order =
  en_id :: order_id
  en_side :: "8 word"
  en_type :: "8 word"
  en_price :: tick
  en_quantity :: quantity
  en_display_qty :: quantity

definition deserialize_new_order :: "bytes \<Rightarrow> engine_new_order" where
  "deserialize_new_order bs = \<lparr>en_id = word64 bs, en_side = bs ! 8, en_type = bs ! 9,
     en_price = word64 (drop 10 bs), en_quantity = word32 (drop 18 bs),
     en_display_qty = word32 (drop 22 bs)\<rparr>"

definition deserialize_cancel :: "bytes \<Rightarrow> order_id" where
  "deserialize_cancel bs = word64 bs"

text \<open>\<open>sizeof(MsgHeader) + sizeof(BookUpdateMsg)\<close>.\<close>

definition MAX_MSG_SIZE :: nat where
  "MAX_MSG_SIZE = 5 + 264"

text \<open>
  The loop of \<open>TcpServer::handle_client_read\<close> over the bytes received so far: the frames it
  dispatches, the bytes it keeps for later, and whether it disconnects the client for
  announcing an oversized message.
\<close>

function server_frames :: "bytes \<Rightarrow> (8 word \<times> bytes) list \<times> bytes \<times> bool" where
  "server_frames buf =
     (if length buf < 5 then ([], buf, False)
      else (let total = 5 + unat (word32 (drop 1 buf))
            in if MAX_MSG_SIZE < total then ([], buf, True)
               else if length buf < total then ([], buf, False)
               else (case server_frames (drop total buf) of (fs, rest, d) \<Rightarrow>
                       ((hd buf, take (total - 5) (drop 5 buf)) # fs, rest, d))))"
  by pat_completeness auto
termination
  by (relation "measure length") auto

declare server_frames.simps [simp del]

lemma word_bytes [simp]: "word64 (bytes64 w @ bs) = w" "word32 (bytes32 v @ bs) = v"
  by (simp_all add: word64_def word32_def)

lemma word_bytes_end [simp]: "word64 (bytes64 w) = w" "word32 (bytes32 v) = v"
  using word_bytes(1) [of w "[]"] word_bytes(2) [of v "[]"] by simp_all

lemma server_frames_one:
  assumes "length p \<le> 264"
  shows "server_frames (serialize ty p @ rest) =
    (case server_frames rest of (fs, r, d) \<Rightarrow> ((ty, p) # fs, r, d))"
proof -
  have "unat (of_nat (length p) :: 32 word) = length p"
    using assms by (simp add: unat_of_nat)
  moreover have "drop (5 + length p) (ty # bytes32 (of_nat (length p)) @ p @ rest) = rest"
    using append_eq_conv_conj [of "serialize ty p" rest "serialize ty p @ rest"]
    by (simp add: serialize_def)
  ultimately show ?thesis
    using assms by (subst server_frames.simps) (simp add: serialize_def MAX_MSG_SIZE_def Let_def)
qed

lemma unat_word_of_int_mod:
  "unat (word_of_int v :: 64 word) = nat (v mod 2 ^ 64)"
  "unat (word_of_int v :: 32 word) = nat (v mod 2 ^ 32)"
  "unat (word_of_int v :: 8 word) = nat (v mod 2 ^ 8)"
  by (simp_all add: unat_eq_nat_uint uint_word_of_int)

lemma pack_field_words:
  "field_range Fld_Q v \<Longrightarrow> pack_field Fld_Q v = Inr (bytes64 (word_of_int v))"
  "field_range Fld_q v \<Longrightarrow> pack_field Fld_q v = Inr (bytes64 (word_of_int v))"
  "field_range Fld_i v \<Longrightarrow> pack_field Fld_i v = Inr (bytes32 (word_of_int v))"
  "field_range Fld_B v \<Longrightarrow> pack_field Fld_B v = Inr [word_of_int v]"
proof -
  show "field_range Fld_B v \<Longrightarrow> pack_field Fld_B v = Inr [word_of_int v]"
    by (simp add: pack_field_def field_range_def field_min_def field_max_def nat_mod_distrib
        nat_less_iff of_nat_nat)
qed (simp_all add: pack_field_def bytes64_def bytes32_def unat_word_of_int_mod)

definition new_order_in_range :: "new_order_msg \<Rightarrow> bool" where
  "new_order_in_range m \<longleftrightarrow> 0 \<le> no_id m \<and> no_id m < 2 ^ 64 \<and> 0 \<le> no_side m \<and> no_side m < 256
     \<and> 0 \<le> no_type m \<and> no_type m < 256 \<and> - (2 ^ 63) \<le> no_price m \<and> no_price m < 2 ^ 63
     \<and> - (2 ^ 31) \<le> no_quantity m \<and> no_quantity m < 2 ^ 31
     \<and> - (2 ^ 31) \<le> no_display_qty m \<and> no_display_qty m < 2 ^ 31"

lemma parse_new_order_format: "parse_format NewOrderMsg_FORMAT = Some [Fld_Q, Fld_B, Fld_B, Fld_q, Fld_i, Fld_i]"
  by (simp add: NewOrderMsg_FORMAT_def)

lemma new_order_in_range_iff:
  "new_order_in_range m \<longleftrightarrow>
     list_all2 field_range [Fld_Q, Fld_B, Fld_B, Fld_q, Fld_i, Fld_i]
       [no_id m, no_side m, no_type m, no_price m, no_quantity m, no_display_qty m]"
  by (auto simp: new_order_in_range_def field_range_def field_min_def field_max_def)

text \<open>Packing succeeds exactly on orders whose fields fit, and the engine reads them back.\<close>

lemma NewOrderMsg_pack_iff: "(\<exists>bs. NewOrderMsg_pack m = Inr bs) \<longleftrightarrow> new_order_in_range m"
  unfolding new_order_in_range_iff
  by (simp add: NewOrderMsg_pack_def struct_pack_def parse_new_order_format pack_fields_iff
      del: list.rel_inject pack_fields.simps)

lemma NewOrderMsg_pack_error: "NewOrderMsg_pack m = Inl e \<Longrightarrow> e = StructError"
  by (auto simp: NewOrderMsg_pack_def struct_pack_def parse_new_order_format pack_field_def
      split: if_split_asm sum.split_asm)

lemma NewOrderMsg_pack_bytes:
  assumes "new_order_in_range m"
  shows "NewOrderMsg_pack m = Inr (bytes64 (word_of_int (no_id m)) @ word_of_int (no_side m)
    # word_of_int (no_type m) # bytes64 (word_of_int (no_price m))
    @ bytes32 (word_of_int (no_quantity m)) @ bytes32 (word_of_int (no_display_qty m)))"
  using assms unfolding new_order_in_range_iff
  by (simp add: NewOrderMsg_pack_def struct_pack_def parse_new_order_format pack_field_words)

lemma deserialize_pack:
  assumes "NewOrderMsg_pack m = Inr bs"
  shows "deserialize_new_order bs = \<lparr>en_id = word_of_int (no_id m),
    en_side = word_of_int (no_side m), en_type = word_of_int (no_type m),
    en_price = word_of_int (no_price m), en_quantity = word_of_int (no_quantity m),
    en_display_qty = word_of_int (no_display_qty m)\<rparr>" "length bs = 26"
proof -
  have "new_order_in_range m" using assms NewOrderMsg_pack_iff by blast
  from NewOrderMsg_pack_bytes [OF this] assms have bs:
    "bs = bytes64 (word_of_int (no_id m)) @ word_of_int (no_side m) # word_of_int (no_type m)
      # bytes64 (word_of_int (no_price m)) @ bytes32 (word_of_int (no_quantity m))
      @ bytes32 (word_of_int (no_display_qty m))" by simp
  show "length bs = 26" by (simp add: bs)
  show "deserialize_new_order bs = \<lparr>en_id = word_of_int (no_id m),
    en_side = word_of_int (no_side m), en_type = word_of_int (no_type m),
    en_price = word_of_int (no_price m), en_quantity = word_of_int (no_quantity m),
    en_display_qty = word_of_int (no_display_qty m)\<rparr>"
    by (simp add: deserialize_new_order_def bs nth_append)
qed

lemma signed_range_words:
  "- (2 ^ 63) \<le> v \<Longrightarrow> v < 2 ^ 63 \<Longrightarrow> sint (word_of_int v :: 64 word) = v"
  "- (2 ^ 31) \<le> v \<Longrightarrow> v < 2 ^ 31 \<Longrightarrow> sint (word_of_int v :: 32 word) = v"
  "0 \<le> v \<Longrightarrow> v < 2 ^ 64 \<Longrightarrow> uint (word_of_int v :: 64 word) = v"
  "0 \<le> v \<Longrightarrow> v < 256 \<Longrightarrow> uint (word_of_int v :: 8 word) = v"
  using mod_window [of "- (2 ^ 63)" v "2 ^ 64"] mod_window [of "- (2 ^ 31)" v "2 ^ 32"]
  by (simp_all add: sint_cases uint_word_of_int mod_pos_pos_trivial)

end
