(* ===== verification/Base_Agent.thy ===== *)
theory Base_Agent
  imports Tcp_Client
begin

text \<open>
  \<open>simulation/agents/base_agent.py\<close>: the state every agent has and the operations it inherits.
  Subclasses extend the record, and the operations are defined on any extension, as
  inheritance has it. The invariant \<open>base_ok\<close> ties the statistics to the log of fills and the
  order identifiers to the agent's own block. The locale \<open>trading_agent\<close> is the contract of a
  subclass's \<open>on_book_update\<close>; every agent of the repository is an interpretation of it.
\<close>

section \<open>Orders, statistics, agents\<close>

record agent_order =
  ao_order_id :: int
  ao_side :: int
  ao_order_type :: int
  ao_price :: int
  ao_quantity :: int

record agent_stats =
  total_pnl :: real
  realized_pnl :: real
  unrealized_pnl :: real
  inventory :: int
  total_fills :: int
  total_orders_sent :: int
  total_volume :: int
  avg_fill_price :: real
  spread_pnl :: real
  inventory_pnl :: real

definition agent_stats_init :: agent_stats where
  "agent_stats_init = \<lparr>total_pnl = 0, realized_pnl = 0, unrealized_pnl = 0, inventory = 0,
     total_fills = 0, total_orders_sent = 0, total_volume = 0, avg_fill_price = 0,
     spread_pnl = 0, inventory_pnl = 0\<rparr>"

record base_agent =
  agent_id :: string
  tick_size :: real
  stats :: agent_stats
  id_offset :: int
  next_oid :: int
  active_orders :: "(int, agent_order) dict"
  fill_prices :: "(int \<times> int) list"
  mid_price :: int

text \<open>
  The constructor. \<open>_agent_counter\<close> is a class attribute: the state all agents share, passed in
  and returned.
\<close>

definition base_init :: "string \<Rightarrow> real \<Rightarrow> int \<Rightarrow> base_agent \<times> int" where
  "base_init aid tick counter =
     (\<lparr>agent_id = aid, tick_size = tick, stats = agent_stats_init,
       id_offset = counter * 1000000, next_oid = counter * 1000000 + 1,
       active_orders = [], fill_prices = [], mid_price = 0\<rparr>, counter + 1)"

definition next_order_id :: "'a base_agent_scheme \<Rightarrow> int \<times> 'a base_agent_scheme" where
  "next_order_id a =
     (next_oid a, a\<lparr>next_oid := next_oid a + 1,
        stats := (stats a)\<lparr>total_orders_sent := total_orders_sent (stats a) + 1\<rparr>\<rparr>)"

text \<open>The search of \<open>on_fill\<close>: the first active order, in insertion order, that took part.\<close>

definition my_order :: "(int, agent_order) dict \<Rightarrow> fill_msg \<Rightarrow> int option" where
  "my_order d f = find (\<lambda>oid. oid = maker_id f \<or> oid = taker_id f) (dict_keys d)"

definition signed_qty :: "agent_order \<Rightarrow> fill_msg \<Rightarrow> int" where
  "signed_qty order f = (if ao_side order = 1 then - fill_quantity f else fill_quantity f)"

definition book_fill :: "fill_msg \<Rightarrow> int \<Rightarrow> real \<Rightarrow> agent_stats \<Rightarrow> agent_stats" where
  "book_fill f qty tick s =
     s\<lparr>inventory := inventory s + qty,
       total_fills := total_fills s + 1,
       total_volume := total_volume s + \<bar>fill_quantity f\<bar>,
       realized_pnl := fadd (realized_pnl s) (fmul (fint (- fill_price f * qty)) tick)\<rparr>"

definition on_fill :: "fill_msg \<Rightarrow> 'a base_agent_scheme \<Rightarrow> 'a base_agent_scheme" where
  "on_fill f a =
     (case my_order (active_orders a) f of
        None \<Rightarrow> a
      | Some oid \<Rightarrow>
          (case dict_get (active_orders a) oid of
             None \<Rightarrow> a
           | Some order \<Rightarrow>
               (let qty = signed_qty order f
                in a\<lparr>stats := book_fill f qty (tick_size a) (stats a),
                     fill_prices := fill_prices a @ [(fill_price f, qty)],
                     active_orders :=
                       (if ao_quantity order \<le> fill_quantity f
                        then dict_pop oid (active_orders a) else active_orders a)\<rparr>)))"

definition update_unrealized_pnl :: "int \<Rightarrow> 'a base_agent_scheme \<Rightarrow> 'a base_agent_scheme" where
  "update_unrealized_pnl mid a =
     (let s = stats a;
          u = fmul (fint (inventory s * mid)) (tick_size a)
      in a\<lparr>mid_price := mid,
           stats := s\<lparr>unrealized_pnl := u, total_pnl := fadd (realized_pnl s) u\<rparr>\<rparr>)"

definition track_order :: "agent_order \<Rightarrow> 'a base_agent_scheme \<Rightarrow> 'a base_agent_scheme" where
  "track_order o1 a = a\<lparr>active_orders := dict_set (ao_order_id o1) o1 (active_orders a)\<rparr>"

definition cancel_all :: "'a base_agent_scheme \<Rightarrow> int list \<times> 'a base_agent_scheme" where
  "cancel_all a = (dict_keys (active_orders a), a\<lparr>active_orders := []\<rparr>)"

text \<open>
  The idiom of every strategy: build an order under the next identifier and track it.
\<close>

definition emit_order ::
  "int \<Rightarrow> int \<Rightarrow> int \<Rightarrow> int \<Rightarrow> 'a base_agent_scheme \<Rightarrow> agent_order \<times> 'a base_agent_scheme" where
  "emit_order side order_type price quantity a =
     (case next_order_id a of
        (oid, a') \<Rightarrow>
          (let o1 = \<lparr>ao_order_id = oid, ao_side = side, ao_order_type = order_type,
                     ao_price = price, ao_quantity = quantity\<rparr>
           in (o1, track_order o1 a')))"

section \<open>The invariant\<close>

definition ids_ok :: "'a base_agent_scheme \<Rightarrow> bool" where
  "ids_ok a \<longleftrightarrow> dict_ok (active_orders a) \<and> id_offset a < next_oid a \<and>
     (\<forall>(k, o1) \<in> set (active_orders a). ao_order_id o1 = k \<and> id_offset a < k \<and> k < next_oid a) \<and>
     total_orders_sent (stats a) = next_oid a - id_offset a - 1"

definition ledger_ok :: "'a base_agent_scheme \<Rightarrow> bool" where
  "ledger_ok a \<longleftrightarrow>
     inventory (stats a) = sum_list (map snd (fill_prices a)) \<and>
     total_fills (stats a) = int (length (fill_prices a)) \<and>
     total_volume (stats a) = sum_list (map (\<lambda>p. \<bar>snd p\<bar>) (fill_prices a)) \<and>
     realized_pnl (stats a) =
       fold (\<lambda>(p, q) r. fadd r (fmul (fint (- p * q)) (tick_size a))) (fill_prices a) 0"

definition base_ok :: "'a base_agent_scheme \<Rightarrow> bool" where
  "base_ok a \<longleftrightarrow> ids_ok a \<and> ledger_ok a"

lemma base_ok_init: "base_ok (fst (base_init aid tick counter))"
  by (simp add: base_ok_def ids_ok_def ledger_ok_def base_init_def agent_stats_init_def)

lemma my_order_Some:
  assumes "my_order d f = Some oid" "dict_ok d"
  shows "(oid = maker_id f \<or> oid = taker_id f) \<and> (\<exists>o1. dict_get d oid = Some o1 \<and> (oid, o1) \<in> set d)"
proof -
  have "oid \<in> set (dict_keys d)" "oid = maker_id f \<or> oid = taker_id f"
    using assms(1) unfolding my_order_def find_Some_iff by (metis nth_mem)+
  then show ?thesis using assms(2) by (auto simp: dict_keys_def dict_get_iff)
qed

lemma my_order_None: "my_order d f = None \<longleftrightarrow> dict_get d (maker_id f) = None \<and> dict_get d (taker_id f) = None"
  unfolding my_order_def find_None_iff dict_keys_def dict_get_None_iff by force

lemma ledger_ok_on_fill: "ledger_ok a \<Longrightarrow> ledger_ok (on_fill f a)"
  by (auto simp: ledger_ok_def on_fill_def book_fill_def signed_qty_def Let_def split: option.splits)

lemma ids_ok_on_fill:
  assumes "ids_ok a"
  shows "ids_ok (on_fill f a)"
proof (cases "my_order (active_orders a) f")
  case (Some oid)
  with assms obtain o1 where "dict_get (active_orders a) oid = Some o1"
    using my_order_Some by (fastforce simp: ids_ok_def)
  then show ?thesis
    using assms Some by (auto simp: ids_ok_def on_fill_def book_fill_def Let_def set_dict_pop)
qed (use assms in \<open>simp add: on_fill_def\<close>)

lemma base_ok_on_fill: "base_ok a \<Longrightarrow> base_ok (on_fill f a)"
  by (simp add: base_ok_def ids_ok_on_fill ledger_ok_on_fill)

lemma base_ok_unrealized: "base_ok (update_unrealized_pnl mid a) = base_ok a"
  by (simp add: base_ok_def ids_ok_def ledger_ok_def update_unrealized_pnl_def Let_def)

lemma base_ok_cancel_all: "base_ok a \<Longrightarrow> base_ok (snd (cancel_all a))"
  by (simp add: base_ok_def ids_ok_def ledger_ok_def cancel_all_def)

lemma base_ok_next_order_id: "base_ok a \<Longrightarrow> base_ok (snd (next_order_id a))"
  by (auto simp: base_ok_def ids_ok_def ledger_ok_def next_order_id_def)

lemma base_ok_track_order:
  assumes "base_ok a" "id_offset a < ao_order_id o1" "ao_order_id o1 < next_oid a"
  shows "base_ok (track_order o1 a)"
  using assms set_dict_set_subset [of "ao_order_id o1" o1 "active_orders a"]
  by (fastforce simp: base_ok_def ids_ok_def ledger_ok_def track_order_def)

lemma emit_order_props:
  assumes "emit_order side ty price qty a = (o1, a')"
  shows "base_ok a \<Longrightarrow> base_ok a'"
    and "o1 = \<lparr>ao_order_id = next_oid a, ao_side = side, ao_order_type = ty, ao_price = price,
                ao_quantity = qty\<rparr>"
    and "next_oid a' = next_oid a + 1" "id_offset a' = id_offset a"
    and "inventory (stats a') = inventory (stats a)" "fill_prices a' = fill_prices a"
    and "dict_get (active_orders a') (next_oid a) = Some o1"
    and "dict_get (active_orders a) k = Some o2 \<Longrightarrow> k \<noteq> next_oid a \<Longrightarrow>
           dict_get (active_orders a') k = Some o2"
  using assms base_ok_track_order [of "snd (next_order_id a)" o1] base_ok_next_order_id [of a]
  by (auto simp: emit_order_def next_order_id_def track_order_def Let_def base_ok_def ids_ok_def)

lemmas emit_defs = emit_order_def next_order_id_def track_order_def

section \<open>The contract of a strategy\<close>

text \<open>
  The part of an agent's state that \<open>BaseAgent\<close> defines, seen through \<open>base\<close>; \<open>update\<close> is the
  subclass's \<open>on_book_update\<close>. A strategy keeps the base invariant, never touches the ledger
  (inventory and fills change in \<open>on_fill\<close> only), only ever takes identifiers forward, sends
  orders under its own identifiers, and tracks everything it sends.
\<close>

locale trading_agent =
  fixes base :: "'s \<Rightarrow> base_agent"
    and update :: "book_update_msg \<Rightarrow> int \<Rightarrow> 's \<Rightarrow> (agent_order list \<times> 's) result"
    and fill :: "fill_msg \<Rightarrow> 's \<Rightarrow> 's"
    and sub_inv :: "'s \<Rightarrow> bool"
  assumes fill_base: "base (fill f s) = on_fill f (base s)"
    and fill_inv: "sub_inv s \<Longrightarrow> sub_inv (fill f s)"
    and update_ok: "update u n s = Inr (os, s') \<Longrightarrow> base_ok (base s) \<Longrightarrow> sub_inv s \<Longrightarrow>
      base_ok (base s') \<and> sub_inv s'"
    and update_ledger: "update u n s = Inr (os, s') \<Longrightarrow>
      inventory (stats (base s')) = inventory (stats (base s)) \<and>
      fill_prices (base s') = fill_prices (base s) \<and> id_offset (base s') = id_offset (base s)"
    and update_forward: "update u n s = Inr (os, s') \<Longrightarrow> next_oid (base s) \<le> next_oid (base s')"
    and update_tracked: "update u n s = Inr (os, s') \<Longrightarrow> base_ok (base s) \<Longrightarrow> sub_inv s \<Longrightarrow>
      o1 \<in> set os \<Longrightarrow> dict_get (active_orders (base s')) (ao_order_id o1) = Some o1"
begin

text \<open>A life of an agent: book updates and fills in any order, with the orders it sent.\<close>

inductive lives :: "'s \<Rightarrow> agent_order list \<Rightarrow> 's \<Rightarrow> bool" where
  start: "lives s [] s"
| on_update: "lives s os s' \<Longrightarrow> update u n s' = Inr (new, s'') \<Longrightarrow> lives s (os @ new) s''"
| on_fill: "lives s os s' \<Longrightarrow> lives s os (fill f s')"

lemma lives_ok:
  "lives s os s' \<Longrightarrow> base_ok (base s) \<Longrightarrow> sub_inv s \<Longrightarrow> base_ok (base s') \<and> sub_inv s'"
  by (induction rule: lives.induct) (auto simp: fill_base base_ok_on_fill fill_inv dest: update_ok)

lemma on_fill_ids: "id_offset (on_fill f a) = id_offset a" "next_oid (on_fill f a) = next_oid a"
  by (simp_all add: on_fill_def Let_def split: option.splits)

lemma lives_forward:
  "lives s os s' \<Longrightarrow> next_oid (base s) \<le> next_oid (base s') \<and> id_offset (base s') = id_offset (base s)"
  by (induction rule: lives.induct)
    (auto simp: fill_base on_fill_ids dest: update_forward update_ledger)

text \<open>Every order ever sent carries an identifier of the agent's own block.\<close>

lemma lives_own_ids:
  "lives s os s' \<Longrightarrow> base_ok (base s) \<Longrightarrow> sub_inv s \<Longrightarrow> o1 \<in> set os \<Longrightarrow>
     id_offset (base s) < ao_order_id o1 \<and> ao_order_id o1 < next_oid (base s')"
proof (induction rule: lives.induct)
  case (on_update s os s' u n new s'')
  have s': "base_ok (base s')" "sub_inv s'" using lives_ok on_update by auto
  have off: "id_offset (base s'') = id_offset (base s)"
    using lives_forward [OF on_update.hyps(1)] update_ledger [OF on_update.hyps(2)] by simp
  show ?case
  proof (cases "o1 \<in> set new")
    case True
    have "base_ok (base s'')" using update_ok [OF on_update.hyps(2)] s' by simp
    moreover have "(ao_order_id o1, o1) \<in> set (active_orders (base s''))"
      using dict_get_Some_in update_tracked [OF on_update.hyps(2) s' True] by fastforce
    ultimately show ?thesis using off by (auto simp: base_ok_def ids_ok_def)
  next
    case False
    then show ?thesis using on_update update_forward [OF on_update.hyps(2)] by fastforce
  qed
qed (auto simp: fill_base on_fill_ids)

end

end
