(* ===== verification/Numpy.thy ===== *)
theory Numpy
  imports Arena_Prelude
begin

text \<open>
  NumPy is a third-party package. The functions the simulation calls are the fields of a record
  passed to the definitions that use them; \<open>'g\<close> is the state of a random generator, threaded
  through every draw. \<open>numpy_ok\<close> collects what NumPy documents about the draws and the
  mathematical functions; the theorems that need it have it as a hypothesis.
\<close>

record 'g numpy =
  np_default_rng :: "int \<Rightarrow> 'g"
  np_random :: "'g \<Rightarrow> real \<times> 'g"
  np_integers :: "int \<Rightarrow> int \<Rightarrow> 'g \<Rightarrow> (int \<times> 'g) result"
  np_uniform :: "real \<Rightarrow> real \<Rightarrow> 'g \<Rightarrow> (real \<times> 'g) result"
  np_normal :: "real \<Rightarrow> real \<Rightarrow> 'g \<Rightarrow> (real \<times> 'g) result"
  np_poisson :: "real \<Rightarrow> 'g \<Rightarrow> (int \<times> 'g) result"
  np_choice_p :: "int \<Rightarrow> real list \<Rightarrow> 'g \<Rightarrow> (int \<times> 'g) result"
  np_choice_of :: "int list \<Rightarrow> 'g \<Rightarrow> (int \<times> 'g) result"
  np_log :: "real \<Rightarrow> real"
  np_exp :: "real \<Rightarrow> real"
  np_sqrt :: "real \<Rightarrow> real"
  np_diff :: "real list \<Rightarrow> real list"
  np_mean :: "real list \<Rightarrow> real"
  np_std :: "real list \<Rightarrow> real"
  np_var :: "real list \<Rightarrow> real"

text \<open>
  Documented: \<open>random\<close> draws from $[0, 1)$; \<open>integers(low, high)\<close> from $[low, high)$ and raises
  \<open>ValueError\<close> when \<open>low >= high\<close>; \<open>uniform(low, high)\<close> stays between its bounds;
  \<open>poisson(lam)\<close> is a count and raises \<open>ValueError\<close> when \<open>lam < 0\<close>; \<open>choice\<close> returns one of
  the given values, and takes any probabilities that sum to 1 (NumPy tolerates more than the
  $10^{-9}$ allowed here); \<open>normal\<close> takes any scale that is not negative; \<open>exp\<close> is not
  negative and 1 at 0; a square root and a variance are not negative.
\<close>

definition distribution :: "int \<Rightarrow> real list \<Rightarrow> bool" where
  "distribution n p \<longleftrightarrow> int (length p) = n \<and> (\<forall>x \<in> set p. 0 \<le> x) \<and> \<bar>sum_list p - 1\<bar> \<le> 1 / 10 ^ 9"

definition random_ok :: "'g numpy \<Rightarrow> bool" where
  "random_ok np \<longleftrightarrow> (\<forall>g. 0 \<le> fst (np_random np g) \<and> fst (np_random np g) < 1)"

definition integers_ok :: "'g numpy \<Rightarrow> bool" where
  "integers_ok np \<longleftrightarrow>
     (\<forall>lo hi g. if lo < hi then \<exists>v g'. np_integers np lo hi g = Inr (v, g') \<and> lo \<le> v \<and> v < hi
                else np_integers np lo hi g = Inl ValueError)"

definition uniform_ok :: "'g numpy \<Rightarrow> bool" where
  "uniform_ok np \<longleftrightarrow>
     (\<forall>lo hi g. is_float lo \<and> is_float hi \<and> lo \<le> hi \<longrightarrow>
        (\<exists>v g'. np_uniform np lo hi g = Inr (v, g') \<and> lo \<le> v \<and> v \<le> hi \<and> is_float v))"

definition poisson_ok :: "'g numpy \<Rightarrow> bool" where
  "poisson_ok np \<longleftrightarrow>
     (\<forall>lam g. if 0 \<le> lam then \<exists>k g'. np_poisson np lam g = Inr (k, g') \<and> 0 \<le> k
              else np_poisson np lam g = Inl ValueError)"

definition normal_ok :: "'g numpy \<Rightarrow> bool" where
  "normal_ok np \<longleftrightarrow> (\<forall>m sd g. 0 \<le> sd \<longrightarrow> (\<exists>v g'. np_normal np m sd g = Inr (v, g')))"

definition choice_ok :: "'g numpy \<Rightarrow> bool" where
  "choice_ok np \<longleftrightarrow>
     (\<forall>n p g v g'. np_choice_p np n p g = Inr (v, g') \<longrightarrow> 0 \<le> v \<and> v < n) \<and>
     (\<forall>xs g v g'. np_choice_of np xs g = Inr (v, g') \<longrightarrow> v \<in> set xs) \<and>
     (\<forall>n p g. 0 < n \<and> distribution n p \<longrightarrow> (\<exists>v g'. np_choice_p np n p g = Inr (v, g'))) \<and>
     (\<forall>xs g. xs \<noteq> [] \<longrightarrow> (\<exists>v g'. np_choice_of np xs g = Inr (v, g')))"

definition math_ok :: "'g numpy \<Rightarrow> bool" where
  "math_ok np \<longleftrightarrow> np_exp np 0 = 1 \<and> (\<forall>x. 0 \<le> np_exp np x) \<and>
     (\<forall>x. 0 \<le> x \<longrightarrow> 0 \<le> np_sqrt np x) \<and> (\<forall>xs. 0 \<le> np_var np xs)"

definition numpy_ok :: "'g numpy \<Rightarrow> bool" where
  "numpy_ok np \<longleftrightarrow> random_ok np \<and> integers_ok np \<and> uniform_ok np \<and> poisson_ok np \<and>
     normal_ok np \<and> choice_ok np \<and> math_ok np"

lemma numpy_random: "numpy_ok np \<Longrightarrow> 0 \<le> fst (np_random np g) \<and> fst (np_random np g) < 1"
  by (simp add: numpy_ok_def random_ok_def)

lemma numpy_integers:
  "numpy_ok np \<Longrightarrow> if lo < hi then \<exists>v g'. np_integers np lo hi g = Inr (v, g') \<and> lo \<le> v \<and> v < hi
     else np_integers np lo hi g = Inl ValueError"
  unfolding numpy_ok_def integers_ok_def by (elim conjE allE)

lemma numpy_integers_Inr: "numpy_ok np \<Longrightarrow> np_integers np lo hi g = Inr (v, g') \<Longrightarrow> lo \<le> v \<and> v < hi"
  using numpy_integers [of np lo hi g] by (auto split: if_splits)

lemma numpy_integers_total:
  "numpy_ok np \<Longrightarrow> lo < hi \<Longrightarrow> \<exists>v g'. np_integers np lo hi g = Inr (v, g') \<and> lo \<le> v \<and> v < hi"
  using numpy_integers [of np lo hi g] by simp

lemma numpy_uniform:
  "numpy_ok np \<Longrightarrow> is_float lo \<Longrightarrow> is_float hi \<Longrightarrow> lo \<le> hi \<Longrightarrow>
     \<exists>v g'. np_uniform np lo hi g = Inr (v, g') \<and> lo \<le> v \<and> v \<le> hi \<and> is_float v"
  by (simp add: numpy_ok_def uniform_ok_def)

lemma numpy_poisson:
  "numpy_ok np \<Longrightarrow> if 0 \<le> lam then \<exists>k g'. np_poisson np lam g = Inr (k, g') \<and> 0 \<le> k
     else np_poisson np lam g = Inl ValueError"
  unfolding numpy_ok_def poisson_ok_def by (elim conjE allE)

lemma numpy_poisson_Inr: "numpy_ok np \<Longrightarrow> np_poisson np lam g = Inr (k, g') \<Longrightarrow> 0 \<le> k"
  using numpy_poisson [of np lam g] by (auto split: if_splits)

lemma numpy_poisson_total: "numpy_ok np \<Longrightarrow> 0 \<le> lam \<Longrightarrow> \<exists>k g'. np_poisson np lam g = Inr (k, g')"
  using numpy_poisson [of np lam g] by auto

lemma numpy_choice_p: "numpy_ok np \<Longrightarrow> np_choice_p np n p g = Inr (v, g') \<Longrightarrow> 0 \<le> v \<and> v < n"
  unfolding numpy_ok_def choice_ok_def by blast

lemma numpy_choice_of: "numpy_ok np \<Longrightarrow> np_choice_of np xs g = Inr (v, g') \<Longrightarrow> v \<in> set xs"
  unfolding numpy_ok_def choice_ok_def by blast

lemma numpy_choice_of_total: "numpy_ok np \<Longrightarrow> xs \<noteq> [] \<Longrightarrow> \<exists>v g'. np_choice_of np xs g = Inr (v, g')"
  unfolding numpy_ok_def choice_ok_def by blast

lemma numpy_choice_p_total:
  "numpy_ok np \<Longrightarrow> 0 < n \<Longrightarrow> distribution n p \<Longrightarrow> \<exists>v g'. np_choice_p np n p g = Inr (v, g')"
  unfolding numpy_ok_def choice_ok_def by blast

lemma numpy_normal: "numpy_ok np \<Longrightarrow> 0 \<le> sd \<Longrightarrow> \<exists>v g'. np_normal np m sd g = Inr (v, g')"
  by (simp add: numpy_ok_def normal_ok_def)

lemma numpy_exp: "numpy_ok np \<Longrightarrow> np_exp np 0 = 1" "numpy_ok np \<Longrightarrow> 0 \<le> np_exp np x"
  by (simp_all add: numpy_ok_def math_ok_def)

lemma numpy_sqrt: "numpy_ok np \<Longrightarrow> 0 \<le> x \<Longrightarrow> 0 \<le> np_sqrt np x"
  by (simp add: numpy_ok_def math_ok_def)

lemma numpy_var: "numpy_ok np \<Longrightarrow> 0 \<le> np_var np xs"
  by (simp add: numpy_ok_def math_ok_def)

section \<open>A concrete instance\<close>

text \<open>
  A generator that counts its draws, with the documented ranges: the witnesses run the model on
  it. The statistics are computed on the exact values and then rounded.
\<close>

definition tick_random :: "nat \<Rightarrow> real \<times> nat" where
  "tick_random g = (of_nat (g mod 8) / 8, Suc g)"

definition tick_integers :: "int \<Rightarrow> int \<Rightarrow> nat \<Rightarrow> (int \<times> nat) result" where
  "tick_integers lo hi g =
     (if lo < hi then Inr (lo + int g mod (hi - lo), Suc g) else Inl ValueError)"

definition tick_uniform :: "real \<Rightarrow> real \<Rightarrow> nat \<Rightarrow> (real \<times> nat) result" where
  "tick_uniform lo hi g = Inr (if lo \<le> 0 \<and> 0 \<le> hi then 0 else lo, Suc g)"

definition mean_list :: "real list \<Rightarrow> real" where
  "mean_list xs = (if xs = [] then 0 else rnd64 (sum_list xs / of_nat (length xs)))"

definition var_list :: "real list \<Rightarrow> real" where
  "var_list xs = (if xs = [] then 0 else
     rnd64 (sum_list (map (\<lambda>x. (x - mean_list xs)\<^sup>2) xs) / of_nat (length xs)))"

fun diff_list :: "real list \<Rightarrow> real list" where
  "diff_list (x # y # xs) = fsub y x # diff_list (y # xs)"
| "diff_list _ = []"

definition tick_numpy :: "nat numpy" where
  "tick_numpy = \<lparr>np_default_rng = nat, np_random = tick_random, np_integers = tick_integers,
     np_uniform = tick_uniform,
     np_normal = (\<lambda>m sd g. Inr (m, Suc g)),
     np_poisson = (\<lambda>lam g. if 0 \<le> lam then Inr (int (g mod 2), Suc g) else Inl ValueError),
     np_choice_p = (\<lambda>n p g. if 0 < n then Inr (int g mod n, Suc g) else Inl ValueError),
     np_choice_of = (\<lambda>xs g. case xs of [] \<Rightarrow> Inl ValueError | x # _ \<Rightarrow> Inr (x, Suc g)),
     np_log = (\<lambda>x. rnd64 (x - 1)), np_exp = (\<lambda>x. if x = 0 then 1 else 0),
     np_sqrt = (\<lambda>x. x), np_diff = diff_list, np_mean = mean_list,
     np_std = (\<lambda>xs. var_list xs), np_var = var_list\<rparr>"

lemma var_list_nonneg: "0 \<le> var_list xs"
  by (auto simp: var_list_def intro!: f64.nonneg divide_nonneg_nonneg sum_list_nonneg)

lemma numpy_ok_tick: "numpy_ok tick_numpy"
proof -
  have "lo + int g mod (hi - lo) < hi" if "lo < hi" for lo hi :: int and g
    using pos_mod_bound [of "hi - lo" "int g"] that by linarith
  then show ?thesis
    by (auto simp: numpy_ok_def random_ok_def integers_ok_def uniform_ok_def poisson_ok_def normal_ok_def
        choice_ok_def math_ok_def tick_numpy_def tick_random_def tick_integers_def tick_uniform_def
        var_list_nonneg divide_simps split: list.splits if_splits)
qed

lemmas tick_simps = tick_numpy_def tick_random_def tick_integers_def tick_uniform_def

end
