(* ===== verification/Traders.thy ===== *)
theory Traders
  imports Base_Agent Numpy
begin

text \<open>
  The strategies of \<open>simulation/agents/\<close> that send at most one order per book update: the noise,
  informed and momentum traders and the latency arbitrageur, and the agent a human drives.
  Each is a record extending \<open>base_agent\<close>, its constructor and its \<open>on_book_update\<close>. The four
  automatic ones are interpretations of \<open>one_shot_agent\<close>, which gives them the contract
  \<open>trading_agent\<close>; the human agent is one directly.
\<close>

section \<open>Strategies that send at most one order\<close>

lemma emit_order_truncate:
  "fst (emit_order s t p q (base_agent.truncate a)) = fst (emit_order s t p q a)"
  "snd (emit_order s t p q (base_agent.truncate a)) = base_agent.truncate (snd (emit_order s t p q a))"
  by (simp_all add: emit_order_def next_order_id_def track_order_def base_agent.truncate_def Let_def)

lemma on_fill_truncate: "base_agent.truncate (on_fill f a) = on_fill f (base_agent.truncate a)"
  by (simp add: on_fill_def base_agent.truncate_def Let_def split: option.splits)

text \<open>The base state before, the orders sent, the base state after: nothing, or one order.\<close>

definition shot :: "base_agent \<Rightarrow> agent_order list \<Rightarrow> base_agent \<Rightarrow> bool" where
  "shot b os b' \<longleftrightarrow> os = [] \<and> b' = b \<or>
     (\<exists>side ty p q o1. os = [o1] \<and> emit_order side ty p q b = (o1, b'))"

lemma shot_none [intro!, simp]: "shot b [] b"
  by (simp add: shot_def)

lemma shot_emit:
  "emit_order s t p q a = (o1, a') \<Longrightarrow> shot (base_agent.truncate a) [o1] (base_agent.truncate a')"
  using emit_order_truncate [of s t p q a] unfolding shot_def
  by (metis fst_conv prod.collapse snd_conv)

locale one_shot_agent =
  fixes base :: "'s \<Rightarrow> base_agent"
    and update :: "book_update_msg \<Rightarrow> int \<Rightarrow> 's \<Rightarrow> (agent_order list \<times> 's) result"
    and fill :: "fill_msg \<Rightarrow> 's \<Rightarrow> 's"
  assumes shot_fill: "base (fill f s) = on_fill f (base s)"
    and one_shot: "update u n s = Inr (os, s') \<Longrightarrow> shot (base s) os (base s')"
begin

lemma one_shot_cases:
  "update u n s = Inr (os, s') \<Longrightarrow> os = [] \<and> base s' = base s \<or>
      (\<exists>side ty p q o1. os = [o1] \<and> emit_order side ty p q (base s) = (o1, base s'))"
  using one_shot unfolding shot_def .

sublocale trading_agent base update fill "\<lambda>_. True"
proof (unfold_locales, goal_cases)
  case (1 f s)
  show ?case by (rule shot_fill)
next
  case (3 u n s os s')
  then show ?case using one_shot_cases [of u n s os s'] emit_order_props(1) by fastforce
next
  case (4 u n s os s')
  then show ?case using one_shot_cases [of u n s os s'] emit_order_props(4-6) by fastforce
next
  case (5 u n s os s')
  then show ?case using one_shot_cases [of u n s os s'] emit_order_props(3) by fastforce
next
  case (6 u n s os s' o1)
  then show ?case using one_shot_cases [of u n s os s'] emit_order_props(2,7) by fastforce
qed simp_all

end

section \<open>Noise trader\<close>

record 'g noise_trader = base_agent +
  nt_order_prob :: real
  nt_spread_range :: int
  nt_min_qty :: int
  nt_max_qty :: int
  nt_market_order_prob :: real
  nt_rng :: 'g

definition noise_init ::
  "'g numpy \<Rightarrow> string \<Rightarrow> real \<Rightarrow> int \<Rightarrow> int \<Rightarrow> int \<Rightarrow> real \<Rightarrow> int \<Rightarrow> real \<Rightarrow> int \<Rightarrow>
     'g noise_trader \<times> int" where
  "noise_init np aid order_prob spread_range min_qty max_qty market_order_prob seed tick counter =
     (case base_init aid tick counter of (b, counter') \<Rightarrow>
        (base_agent.extend b (noise_trader.fields order_prob spread_range min_qty max_qty
           market_order_prob (np_default_rng np seed)), counter'))"

definition noise_on_book_update ::
  "'g numpy \<Rightarrow> book_update_msg \<Rightarrow> int \<Rightarrow> 'g noise_trader \<Rightarrow>
     (agent_order list \<times> 'g noise_trader) result" where
  "noise_on_book_update np u step a =
     (if best_bid u \<le> 0 \<or> best_ask u \<le> 0 then Inr ([], a)
      else
        (let mid = (best_bid u + best_ask u) div 2;
             (r, g1) = np_random np (nt_rng a)
         in if r > nt_order_prob a then Inr ([], a\<lparr>nt_rng := g1\<rparr>)
            else
              (case np_integers np 0 2 g1 of
                 Inl e \<Rightarrow> Inl e
               | Inr (side, g2) \<Rightarrow>
                   (case np_integers np (nt_min_qty a) (nt_max_qty a + 1) g2 of
                      Inl e \<Rightarrow> Inl e
                    | Inr (qty, g3) \<Rightarrow>
                        (let (r', g4) = np_random np g3
                         in if r' < nt_market_order_prob a
                            then (case emit_order side 1 0 qty (a\<lparr>nt_rng := g4\<rparr>) of
                                    (o1, a') \<Rightarrow> Inr ([o1], a'))
                            else
                              (case np_integers np 1 (nt_spread_range a + 1) g4 of
                                 Inl e \<Rightarrow> Inl e
                               | Inr (offset, g5) \<Rightarrow>
                                   (let price = (if side = 0 then mid - offset else mid + offset)
                                    in case emit_order side 0 price qty (a\<lparr>nt_rng := g5\<rparr>) of
                                         (o1, a') \<Rightarrow> Inr ([o1], a'))))))))"

section \<open>Informed trader\<close>

record 'g informed_trader = base_agent +
  it_threshold :: int
  it_aggression :: real
  it_min_qty :: int
  it_max_qty :: int
  it_rng :: 'g
  it_true_price :: int

definition informed_init ::
  "'g numpy \<Rightarrow> string \<Rightarrow> int \<Rightarrow> real \<Rightarrow> int \<Rightarrow> int \<Rightarrow> int \<Rightarrow> real \<Rightarrow> int \<Rightarrow> 'g informed_trader \<times> int" where
  "informed_init np aid threshold aggression min_qty max_qty seed tick counter =
     (case base_init aid tick counter of (b, counter') \<Rightarrow>
        (base_agent.extend b (informed_trader.fields threshold aggression min_qty max_qty
           (np_default_rng np seed) 0), counter'))"

definition informed_set_true_price :: "int \<Rightarrow> 'g informed_trader \<Rightarrow> 'g informed_trader" where
  "informed_set_true_price price a = a\<lparr>it_true_price := price\<rparr>"

definition informed_on_book_update ::
  "'g numpy \<Rightarrow> book_update_msg \<Rightarrow> int \<Rightarrow> 'g informed_trader \<Rightarrow>
     (agent_order list \<times> 'g informed_trader) result" where
  "informed_on_book_update np u step a =
     (if best_bid u \<le> 0 \<or> best_ask u \<le> 0 then Inr ([], a)
      else if it_true_price a \<le> 0 then Inr ([], a)
      else
        (let mid = (best_bid u + best_ask u) div 2;
             edge = it_true_price a - mid
         in if \<bar>edge\<bar> < it_threshold a then Inr ([], a)
            else
              (let (r, g1) = np_random np (it_rng a)
               in if r > it_aggression a then Inr ([], a\<lparr>it_rng := g1\<rparr>)
                  else
                    (case np_integers np (it_min_qty a) (it_max_qty a + 1) g1 of
                       Inl e \<Rightarrow> Inl e
                     | Inr (qty, g2) \<Rightarrow>
                         (case emit_order (if edge > 0 then 0 else 1) 1 0 qty (a\<lparr>it_rng := g2\<rparr>) of
                            (o1, a') \<Rightarrow> Inr ([o1], a'))))))"

section \<open>Momentum trader\<close>

record 'g momentum_trader = base_agent +
  mt_fast_alpha :: real
  mt_slow_alpha :: real
  mt_trade_prob :: real
  mt_min_qty :: int
  mt_max_qty :: int
  mt_rng :: 'g
  mt_fast_ema :: real
  mt_slow_ema :: real
  mt_initialized :: bool

text \<open>The constructor divides by \<open>period + 1\<close>: a period of $-1$ raises.\<close>

definition momentum_init ::
  "'g numpy \<Rightarrow> string \<Rightarrow> int \<Rightarrow> int \<Rightarrow> real \<Rightarrow> int \<Rightarrow> int \<Rightarrow> int \<Rightarrow> real \<Rightarrow> int \<Rightarrow>
     ('g momentum_trader \<times> int) result" where
  "momentum_init np aid fast_period slow_period trade_prob min_qty max_qty seed tick counter =
     (case base_init aid tick counter of (b, counter') \<Rightarrow>
        if fast_period + 1 = 0 \<or> slow_period + 1 = 0 then Inl ZeroDivisionError
        else Inr (base_agent.extend b (momentum_trader.fields
               (fdiv 2 (fint (fast_period + 1))) (fdiv 2 (fint (slow_period + 1)))
               trade_prob min_qty max_qty (np_default_rng np seed) 0 0 False), counter'))"

definition ema :: "real \<Rightarrow> real \<Rightarrow> real \<Rightarrow> real" where
  "ema alpha mid prev = fadd (fmul alpha mid) (fmul (fsub 1 alpha) prev)"

definition momentum_on_book_update ::
  "'g numpy \<Rightarrow> book_update_msg \<Rightarrow> int \<Rightarrow> 'g momentum_trader \<Rightarrow>
     (agent_order list \<times> 'g momentum_trader) result" where
  "momentum_on_book_update np u step a =
     (if best_bid u \<le> 0 \<or> best_ask u \<le> 0 then Inr ([], a)
      else
        (let mid = fint ((best_bid u + best_ask u) div 2)
         in if \<not> mt_initialized a
            then Inr ([], a\<lparr>mt_fast_ema := mid, mt_slow_ema := mid, mt_initialized := True\<rparr>)
            else
              (let a1 = a\<lparr>mt_fast_ema := ema (mt_fast_alpha a) mid (mt_fast_ema a),
                          mt_slow_ema := ema (mt_slow_alpha a) mid (mt_slow_ema a)\<rparr>;
                   (r, g1) = np_random np (mt_rng a1)
               in if r > mt_trade_prob a1 then Inr ([], a1\<lparr>mt_rng := g1\<rparr>)
                  else
                    (case np_integers np (mt_min_qty a1) (mt_max_qty a1 + 1) g1 of
                       Inl e \<Rightarrow> Inl e
                     | Inr (qty, g2) \<Rightarrow>
                         (let a2 = a1\<lparr>mt_rng := g2\<rparr>
                          in if mt_fast_ema a2 > fadd (mt_slow_ema a2) 1
                             then (case emit_order 0 1 0 qty a2 of (o1, a') \<Rightarrow> Inr ([o1], a'))
                             else if mt_fast_ema a2 < fsub (mt_slow_ema a2) 1
                             then (case emit_order 1 1 0 qty a2 of (o1, a') \<Rightarrow> Inr ([o1], a'))
                             else Inr ([], a2))))))"

section \<open>Latency arbitrageur\<close>

record 'g latency_arb = base_agent +
  la_threshold :: int
  la_max_position :: int
  la_trade_prob :: real
  la_min_qty :: int
  la_max_qty :: int
  la_rng :: 'g
  la_true_price :: int

definition latency_arb_init ::
  "'g numpy \<Rightarrow> string \<Rightarrow> int \<Rightarrow> int \<Rightarrow> real \<Rightarrow> int \<Rightarrow> int \<Rightarrow> int \<Rightarrow> real \<Rightarrow> int \<Rightarrow>
     'g latency_arb \<times> int" where
  "latency_arb_init np aid threshold max_position trade_prob min_qty max_qty seed tick counter =
     (case base_init aid tick counter of (b, counter') \<Rightarrow>
        (base_agent.extend b (latency_arb.fields threshold max_position trade_prob min_qty max_qty
           (np_default_rng np seed) 0), counter'))"

definition latency_arb_set_true_price :: "int \<Rightarrow> 'g latency_arb \<Rightarrow> 'g latency_arb" where
  "latency_arb_set_true_price price a = a\<lparr>la_true_price := price\<rparr>"

text \<open>
  A condition of the form \<open>signal and room and rng.random() < p\<close> draws only when the first two
  conjuncts hold, and the \<open>elif\<close> after it sees the generator the draw left.
\<close>

definition guarded_draw ::
  "'g numpy \<Rightarrow> bool \<Rightarrow> real \<Rightarrow> 'g latency_arb \<Rightarrow> bool \<times> 'g latency_arb" where
  "guarded_draw np cond p a =
     (if cond then (case np_random np (la_rng a) of (r, g) \<Rightarrow> (r < p, a\<lparr>la_rng := g\<rparr>))
      else (False, a))"

text \<open>Pick off a stale quote: draw a size, cut it to the room left, send a market order.\<close>

definition arb_take ::
  "'g numpy \<Rightarrow> int \<Rightarrow> int \<Rightarrow> 'g latency_arb \<Rightarrow> (agent_order list \<times> 'g latency_arb) result" where
  "arb_take np side room a =
     (case np_integers np (la_min_qty a) (la_max_qty a + 1) (la_rng a) of
        Inl e \<Rightarrow> Inl e
      | Inr (drawn, g) \<Rightarrow>
          (let qty = min drawn room; a1 = a\<lparr>la_rng := g\<rparr>
           in if qty > 0
              then (case emit_order side 1 0 qty a1 of (o1, a') \<Rightarrow> Inr ([o1], a'))
              else Inr ([], a1)))"

definition arb_flatten :: "int \<Rightarrow> 'g latency_arb \<Rightarrow> agent_order list \<times> 'g latency_arb" where
  "arb_flatten mid a =
     (let inv = inventory (stats a)
      in if inv > 0
         then (case emit_order 1 0 (mid + 1) (min inv (la_max_qty a)) a of (o1, a') \<Rightarrow> ([o1], a'))
         else (case emit_order 0 0 (mid - 1) (min (- inv) (la_max_qty a)) a of (o1, a') \<Rightarrow> ([o1], a')))"

definition latency_arb_on_book_update ::
  "'g numpy \<Rightarrow> book_update_msg \<Rightarrow> int \<Rightarrow> 'g latency_arb \<Rightarrow>
     (agent_order list \<times> 'g latency_arb) result" where
  "latency_arb_on_book_update np u step a =
     (if best_bid u \<le> 0 \<or> best_ask u \<le> 0 then Inr ([], a)
      else if la_true_price a \<le> 0 then Inr ([], a)
      else
        (let mid = (best_bid u + best_ask u) div 2;
             inv = inventory (stats a);
             (buy, a1) = guarded_draw np
               (la_true_price a - best_ask u > la_threshold a \<and> inv < la_max_position a)
               (la_trade_prob a) a
         in if buy then arb_take np 0 (la_max_position a - inv) a1
            else
              (let (sell, a2) = guarded_draw np
                     (best_bid u - la_true_price a > la_threshold a \<and> inv > - la_max_position a)
                     (la_trade_prob a) a1
               in if sell then arb_take np 1 (la_max_position a + inv) a2
                  else
                    (let (flat, a3) = guarded_draw np
                           (\<bar>inv\<bar> > la_max_position a div 2) (flit (3 / 10)) a2
                     in if flat then Inr (arb_flatten mid a3) else Inr ([], a3)))))"

section \<open>Human agent\<close>

record human_agent = base_agent +
  ha_pending_orders :: "agent_order list"
  ha_pending_cancels :: "int list"
  ha_last_book :: "book_update_msg option"

definition human_init :: "string \<Rightarrow> int \<Rightarrow> human_agent \<times> int" where
  "human_init aid counter =
     (case base_init aid (flit (1 / 100)) counter of (b, counter') \<Rightarrow>
        (base_agent.extend b (human_agent.fields [] [] None), counter'))"

definition human_on_book_update ::
  "book_update_msg \<Rightarrow> int \<Rightarrow> human_agent \<Rightarrow> (agent_order list \<times> human_agent) result" where
  "human_on_book_update u step a =
     (let orders = ha_pending_orders a;
          a1 = a\<lparr>ha_last_book := Some u, ha_pending_orders := []\<rparr>
      in Inr (orders, foldl (\<lambda>s o1. track_order o1 s) a1 orders))"

definition human_queue :: "int \<Rightarrow> int \<Rightarrow> int \<Rightarrow> int \<Rightarrow> human_agent \<Rightarrow> human_agent" where
  "human_queue side order_type price qty a =
     (case next_order_id a of (oid, a') \<Rightarrow>
        a'\<lparr>ha_pending_orders := ha_pending_orders a' @
            [\<lparr>ao_order_id = oid, ao_side = side, ao_order_type = order_type, ao_price = price,
              ao_quantity = qty\<rparr>]\<rparr>)"

definition place_market_order :: "int \<Rightarrow> int \<Rightarrow> human_agent \<Rightarrow> human_agent" where
  "place_market_order side qty a = human_queue side 1 0 qty a"

definition place_limit_order :: "int \<Rightarrow> int \<Rightarrow> int \<Rightarrow> human_agent \<Rightarrow> human_agent" where
  "place_limit_order side offset qty a =
     (case ha_last_book a of
        None \<Rightarrow> a
      | Some b \<Rightarrow>
          (let price = (if side = 0 then best_bid b - offset else best_ask b + offset)
           in if price \<le> 0 then a else human_queue side 0 price qty a))"

definition cancel_all_quotes :: "human_agent \<Rightarrow> human_agent" where
  "cancel_all_quotes a =
     (case cancel_all a of (ids, a') \<Rightarrow>
        a'\<lparr>ha_pending_cancels := ha_pending_cancels a' @ ids\<rparr>)"

section \<open>The strategies keep their contract\<close>

lemma truncate_rng [simp]:
  "base_agent.truncate (a\<lparr>nt_rng := g\<rparr>) = base_agent.truncate a"
  "base_agent.truncate (b\<lparr>it_rng := g\<rparr>) = base_agent.truncate b"
  "base_agent.truncate (c\<lparr>mt_rng := g\<rparr>) = base_agent.truncate c"
  "base_agent.truncate (c\<lparr>mt_fast_ema := x, mt_slow_ema := y\<rparr>) = base_agent.truncate c"
  "base_agent.truncate (c\<lparr>mt_fast_ema := x, mt_slow_ema := y, mt_initialized := z\<rparr>) = base_agent.truncate c"
  "base_agent.truncate (c\<lparr>mt_fast_ema := x, mt_slow_ema := y, mt_rng := g\<rparr>) = base_agent.truncate c"
  "base_agent.truncate (d\<lparr>la_rng := g\<rparr>) = base_agent.truncate d"
  by (simp_all add: base_agent.truncate_def)

text \<open>The same with the base state before the draws of the strategy.\<close>

lemma shot_emit_from:
  "emit_order s t p q a = (o1, a') \<Longrightarrow> base_agent.truncate a = b \<Longrightarrow> shot b [o1] (base_agent.truncate a')"
  using shot_emit by blast

lemma noise_shot:
  "noise_on_book_update np u n s = Inr (os, s') \<Longrightarrow> shot (base_agent.truncate s) os (base_agent.truncate s')"
  unfolding noise_on_book_update_def Let_def
  by (auto split: if_split_asm sum.split_asm prod.split_asm elim: shot_emit_from)

lemma informed_shot:
  "informed_on_book_update np u n s = Inr (os, s') \<Longrightarrow> shot (base_agent.truncate s) os (base_agent.truncate s')"
  unfolding informed_on_book_update_def Let_def
  by (auto split: if_split_asm sum.split_asm prod.split_asm elim: shot_emit_from)

lemma momentum_shot:
  "momentum_on_book_update np u n s = Inr (os, s') \<Longrightarrow> shot (base_agent.truncate s) os (base_agent.truncate s')"
  unfolding momentum_on_book_update_def Let_def
  by (auto split: if_split_asm sum.split_asm prod.split_asm elim: shot_emit_from)

lemma guarded_draw_base:
  "guarded_draw np c p a = (b, a') \<Longrightarrow> base_agent.truncate a' = base_agent.truncate a"
  by (auto simp: guarded_draw_def split: if_split_asm prod.split_asm)

lemma guarded_draw_stats:
  "guarded_draw np c p a = (b, a') \<Longrightarrow> stats a' = stats a \<and> la_max_qty a' = la_max_qty a
     \<and> next_oid a' = next_oid a \<and> (b \<longrightarrow> c)"
  by (auto simp: guarded_draw_def split: if_split_asm prod.split_asm)

lemma arb_take_shot:
  "arb_take np side room a = Inr (os, a') \<Longrightarrow> shot (base_agent.truncate a) os (base_agent.truncate a')"
  unfolding arb_take_def Let_def
  by (auto split: if_split_asm sum.split_asm prod.split_asm elim: shot_emit_from)

lemma arb_flatten_shot:
  "arb_flatten mid a = (os, a') \<Longrightarrow> shot (base_agent.truncate a) os (base_agent.truncate a')"
  unfolding arb_flatten_def Let_def
  by (auto split: if_split_asm prod.split_asm elim: shot_emit_from)

text \<open>The branches of the arbitrageur's decision, in the order the code tries them.\<close>

lemma latency_arb_cases:
  assumes "latency_arb_on_book_update np u n a = Inr (os, a')"
  obtains (idle) "os = []" "base_agent.truncate a' = base_agent.truncate a"
  | (buy) a1 where "base_agent.truncate a1 = base_agent.truncate a"
      "inventory (stats a) < la_max_position a" "la_true_price a - best_ask u > la_threshold a"
      "arb_take np 0 (la_max_position a - inventory (stats a)) a1 = Inr (os, a')"
  | (sell) a1 where "base_agent.truncate a1 = base_agent.truncate a"
      "inventory (stats a) > - la_max_position a" "best_bid u - la_true_price a > la_threshold a"
      "arb_take np 1 (la_max_position a + inventory (stats a)) a1 = Inr (os, a')"
  | (flatten) a1 where "base_agent.truncate a1 = base_agent.truncate a" "la_max_qty a1 = la_max_qty a"
      "\<bar>inventory (stats a)\<bar> > la_max_position a div 2"
      "arb_flatten ((best_bid u + best_ask u) div 2) a1 = (os, a')"
proof -
  let ?inv = "inventory (stats a)"
  obtain b1 a1 where d1: "guarded_draw np (la_true_price a - best_ask u > la_threshold a
      \<and> ?inv < la_max_position a) (la_trade_prob a) a = (b1, a1)" by fastforce
  obtain b2 a2 where d2: "guarded_draw np (best_bid u - la_true_price a > la_threshold a
      \<and> ?inv > - la_max_position a) (la_trade_prob a) a1 = (b2, a2)" by fastforce
  obtain b3 a3 where d3: "guarded_draw np (\<bar>?inv\<bar> > la_max_position a div 2) (flit (3 / 10)) a2 = (b3, a3)"
    by fastforce
  note d = d1 d2 d3
  note t = d [THEN guarded_draw_base] and st = d [THEN guarded_draw_stats]
  consider "os = []" "a' = a" | "b1" "arb_take np 0 (la_max_position a - ?inv) a1 = Inr (os, a')"
    | "b2" "arb_take np 1 (la_max_position a + ?inv) a2 = Inr (os, a')"
    | "b3" "arb_flatten ((best_bid u + best_ask u) div 2) a3 = (os, a')" | "os = []" "a' = a3"
    using assms d by (auto simp: latency_arb_on_book_update_def Let_def split: if_split_asm)
  then show thesis
    by cases (use t st idle buy [of a1] sell [of a2] flatten [of a3] in auto)
qed

lemma latency_arb_shot:
  assumes "latency_arb_on_book_update np u n a = Inr (os, a')"
  shows "shot (base_agent.truncate a) os (base_agent.truncate a')"
  using assms by (cases rule: latency_arb_cases) (auto dest: arb_take_shot arb_flatten_shot)

interpretation noise: one_shot_agent base_agent.truncate "noise_on_book_update np" on_fill
  by unfold_locales (auto intro: on_fill_truncate noise_shot)

interpretation informed: one_shot_agent base_agent.truncate "informed_on_book_update np" on_fill
  by unfold_locales (auto intro: on_fill_truncate informed_shot)

interpretation momentum: one_shot_agent base_agent.truncate "momentum_on_book_update np" on_fill
  by unfold_locales (auto intro: on_fill_truncate momentum_shot)

interpretation arb: one_shot_agent base_agent.truncate "latency_arb_on_book_update np" on_fill
  by unfold_locales (auto intro: on_fill_truncate latency_arb_shot)

definition human_ok :: "human_agent \<Rightarrow> bool" where
  "human_ok a \<longleftrightarrow> distinct (map ao_order_id (ha_pending_orders a)) \<and>
     (\<forall>o1 \<in> set (ha_pending_orders a). id_offset a < ao_order_id o1 \<and> ao_order_id o1 < next_oid a)"

lemma track_all_frame:
  "id_offset (foldl (\<lambda>s o1. track_order o1 s) a os) = id_offset a"
  "next_oid (foldl (\<lambda>s o1. track_order o1 s) a os) = next_oid a"
  "stats (foldl (\<lambda>s o1. track_order o1 s) a os) = stats a"
  "fill_prices (foldl (\<lambda>s o1. track_order o1 s) a os) = fill_prices a"
  "ha_pending_orders (foldl (\<lambda>s o1. track_order o1 s) (h :: human_agent) os) = ha_pending_orders h"
  by (induction os arbitrary: a h) (simp_all add: track_order_def)

lemma track_all_ok:
  "base_ok a \<Longrightarrow> \<forall>o1 \<in> set os. id_offset a < ao_order_id o1 \<and> ao_order_id o1 < next_oid a \<Longrightarrow>
     base_ok (foldl (\<lambda>s o1. track_order o1 s) a os)"
proof (induction os arbitrary: a)
  case (Cons o1 os)
  then show ?case
    using base_ok_track_order [of a o1] by (auto simp: track_order_def)
qed simp

lemma track_all_get:
  "distinct (map ao_order_id os) \<Longrightarrow> o1 \<in> set os \<Longrightarrow>
     dict_get (active_orders (foldl (\<lambda>s o1. track_order o1 s) a os)) (ao_order_id o1) = Some o1"
proof (induction os rule: rev_induct)
  case (snoc o2 os)
  then show ?case by (cases "ao_order_id o1 = ao_order_id o2") (auto simp: track_order_def image_iff)
qed simp

lemma truncate_track_all:
  "base_agent.truncate (foldl (\<lambda>s o1. track_order o1 s) a os) =
     foldl (\<lambda>s o1. track_order o1 s) (base_agent.truncate a) os"
  by (induction os arbitrary: a) (simp_all add: track_order_def base_agent.truncate_def)

lemma truncate_fields [simp]:
  "stats (base_agent.truncate a) = stats a" "fill_prices (base_agent.truncate a) = fill_prices a"
  "id_offset (base_agent.truncate a) = id_offset a" "next_oid (base_agent.truncate a) = next_oid a"
  "active_orders (base_agent.truncate a) = active_orders a"
  "tick_size (base_agent.truncate a) = tick_size a"
  by (simp_all add: base_agent.truncate_def)

lemma base_ok_truncate [simp]: "base_ok (base_agent.truncate a) = base_ok a"
  by (simp add: base_ok_def ids_ok_def ledger_ok_def)

interpretation human: trading_agent base_agent.truncate human_on_book_update on_fill human_ok
proof (unfold_locales, goal_cases)
  case (1 f s)
  show ?case by (rule on_fill_truncate)
next
  case (2 s f)
  then show ?case by (simp add: human_ok_def on_fill_def Let_def split: option.splits)
next
  case (3 u n s os s')
  have "base_ok (s\<lparr>ha_last_book := Some u, ha_pending_orders := []\<rparr>)"
    using 3 by (simp add: base_ok_def ids_ok_def ledger_ok_def)
  then show ?case
    using 3 track_all_ok [of "s\<lparr>ha_last_book := Some u, ha_pending_orders := []\<rparr>" "ha_pending_orders s"]
    by (auto simp: human_on_book_update_def Let_def human_ok_def track_all_frame)
next
  case (6 u n s os s' o1)
  then show ?case
    by (auto simp: human_on_book_update_def Let_def human_ok_def track_all_get)
qed (auto simp: human_on_book_update_def Let_def track_all_frame)

lemma human_queue_ok: "human_ok a \<Longrightarrow> ids_ok a \<Longrightarrow> human_ok (human_queue side ty price qty a)"
  by (fastforce simp: human_ok_def ids_ok_def human_queue_def next_order_id_def)

end
