(* ===== verification/Market_Maker.thy ===== *)
theory Market_Maker
  imports Traders
begin

text \<open>
  \<open>simulation/agents/market_maker.py\<close>: the Avellaneda-Stoikov market maker. Floats are rounded
  as the code rounds them; \<open>np.log\<close>, \<open>np.var\<close> and \<open>np.diff\<close> are parameters. The lemmas show
  the shape of a quote: which sides are quoted, at which prices and sizes, and that cancelling
  and replacing leaves exactly the new quotes active.
\<close>

section \<open>State\<close>

record quote_entry =
  qe_step :: int
  qe_mid :: real
  qe_reservation :: real
  qe_spread :: real
  qe_bid :: int
  qe_ask :: int
  qe_inventory :: int
  qe_sigma_sq :: real
  qe_pnl :: real

text \<open>The attribute \<open>_pending_cancels\<close> does not exist before the first valid book update.\<close>

record 'g market_maker = base_agent +
  mm_gamma :: real
  mm_kappa :: real
  mm_max_inventory :: int
  mm_num_levels :: int
  mm_level_spacing :: int
  mm_base_quantity :: int
  mm_total_steps :: int
  mm_rng :: 'g
  mm_sigma_window :: int
  mm_mid_history :: "real list"
  mm_sigma_sq :: real
  mm_quote_history :: "quote_entry list"
  mm_pending_cancels :: "int list option"

definition mm_init ::
  "'g numpy \<Rightarrow> string \<Rightarrow> real \<Rightarrow> real \<Rightarrow> int \<Rightarrow> int \<Rightarrow> int \<Rightarrow> int \<Rightarrow> int \<Rightarrow> int \<Rightarrow> int \<Rightarrow> real \<Rightarrow> int \<Rightarrow>
     'g market_maker \<times> int" where
  "mm_init np aid gamma kappa max_inventory num_levels level_spacing base_quantity sigma_window
       total_steps seed tick counter =
     (case base_init aid tick counter of (b, counter') \<Rightarrow>
        (base_agent.extend b (market_maker.fields gamma kappa max_inventory num_levels level_spacing
           base_quantity total_steps (np_default_rng np seed) sigma_window [] 1 [] None), counter'))"

section \<open>Volatility\<close>

text \<open>The slice \<open>xs[i:]\<close>; a negative \<open>i\<close> counts from the end.\<close>

definition py_from :: "int \<Rightarrow> 'a list \<Rightarrow> 'a list" where
  "py_from i xs = drop (nat (if i < 0 then max 0 (int (length xs) + i) else i)) xs"

definition estimate_sigma_sq :: "'g numpy \<Rightarrow> real \<Rightarrow> 'g market_maker \<Rightarrow> real \<times> 'g market_maker" where
  "estimate_sigma_sq np mid a =
     (let hist = mm_mid_history a @ [mid]
      in if length hist < 3 then (mm_sigma_sq a, a\<lparr>mm_mid_history := hist\<rparr>)
         else
           (let w = mm_sigma_window a;
                hist' = (if int (length hist) > w then py_from (- w) hist else hist);
                changes = np_diff np (py_from (- min (int (length hist')) w) hist');
                sigma = (if length changes > 1
                         then fadd (np_var np changes) (flit (1 / 1000000)) else mm_sigma_sq a)
            in (sigma, a\<lparr>mm_mid_history := hist', mm_sigma_sq := sigma\<rparr>)))"

section \<open>Prices and sizes\<close>

definition mm_mid :: "book_update_msg \<Rightarrow> real" where
  "mm_mid u = fdiv (fint (best_bid u + best_ask u)) 2"

definition mm_time_left :: "int \<Rightarrow> int \<Rightarrow> real" where
  "mm_time_left step steps = max (flit (1 / 1000)) (fsub 1 (rnd64 (of_int step / of_int steps)))"

definition mm_reservation :: "real \<Rightarrow> int \<Rightarrow> real \<Rightarrow> real \<Rightarrow> real \<Rightarrow> real" where
  "mm_reservation mid q gamma sigma_sq t = fsub mid (fmul (fmul (fmul (fint q) gamma) sigma_sq) t)"

definition mm_spread :: "'g numpy \<Rightarrow> real \<Rightarrow> real \<Rightarrow> real \<Rightarrow> real \<Rightarrow> real" where
  "mm_spread np gamma kappa sigma_sq t =
     max (fadd (fmul (fmul gamma sigma_sq) t)
               (fmul (fdiv 2 gamma) (np_log np (fadd 1 (fdiv gamma kappa))))) 2"

definition mm_bid_price :: "real \<Rightarrow> real \<Rightarrow> int" where
  "mm_bid_price reservation delta = py_round (fsub reservation (fdiv delta 2))"

definition mm_ask_price :: "real \<Rightarrow> real \<Rightarrow> int" where
  "mm_ask_price reservation delta = py_round (fadd reservation (fdiv delta 2))"

definition mm_quantity :: "int \<Rightarrow> int \<Rightarrow> int \<Rightarrow> int" where
  "mm_quantity q max_inventory base_quantity =
     (let inv_ratio = (if max_inventory > 0 then rnd64 (of_int \<bar>q\<bar> / of_int max_inventory) else 0);
          qty_scale = max (flit (1 / 10)) (fsub 1 (fmul inv_ratio (flit (8 / 10))))
      in max 1 (py_int (fmul (fint base_quantity) qty_scale)))"

definition level_quantity :: "int \<Rightarrow> int \<Rightarrow> int" where
  "level_quantity qty level = max 1 (qty div (level + 1))"

section \<open>Quoting\<close>

definition place_level ::
  "bool \<Rightarrow> bool \<Rightarrow> int \<Rightarrow> int \<Rightarrow> int \<Rightarrow> int \<Rightarrow> int \<Rightarrow> 'a base_agent_scheme \<Rightarrow>
     agent_order list \<times> 'a base_agent_scheme" where
  "place_level can_buy can_sell bid ask spacing qty level a =
     (let offset = level * spacing;
          lq = level_quantity qty level;
          (bids, a1) = (if can_buy
             then (case emit_order 0 0 (bid - offset) lq a of (o1, a') \<Rightarrow> ([o1], a')) else ([], a));
          (asks, a2) = (if can_sell
             then (case emit_order 1 0 (ask + offset) lq a1 of (o1, a') \<Rightarrow> ([o1], a')) else ([], a1))
      in (bids @ asks, a2))"

fun place_levels ::
  "bool \<Rightarrow> bool \<Rightarrow> int \<Rightarrow> int \<Rightarrow> int \<Rightarrow> int \<Rightarrow> nat list \<Rightarrow> 'a base_agent_scheme \<Rightarrow>
     agent_order list \<times> 'a base_agent_scheme" where
  "place_levels can_buy can_sell bid ask spacing qty [] a = ([], a)"
| "place_levels can_buy can_sell bid ask spacing qty (l # ls) a =
     (case place_level can_buy can_sell bid ask spacing qty (int l) a of
        (os, a1) \<Rightarrow>
          (case place_levels can_buy can_sell bid ask spacing qty ls a1 of (os', a2) \<Rightarrow> (os @ os', a2)))"

definition mm_on_book_update ::
  "'g numpy \<Rightarrow> book_update_msg \<Rightarrow> int \<Rightarrow> 'g market_maker \<Rightarrow>
     (agent_order list \<times> 'g market_maker) result" where
  "mm_on_book_update np u step a =
     (if best_bid u \<le> 0 \<or> best_ask u \<le> 0 then Inr ([], a)
      else
        (let mid = mm_mid u;
             (ids, a1) = cancel_all (update_unrealized_pnl (py_int mid) a);
             a2 = a1\<lparr>mm_pending_cancels := Some ids\<rparr>;
             (sigma_sq, a3) = estimate_sigma_sq np mid a2
         in if mm_total_steps a3 = 0 then Inl ZeroDivisionError
            else
              (let t = mm_time_left step (mm_total_steps a3);
                   q = inventory (stats a3);
                   reservation = mm_reservation mid q (mm_gamma a3) sigma_sq t
               in if mm_gamma a3 = 0 \<or> mm_kappa a3 = 0 then Inl ZeroDivisionError
                  else
                    (let delta = mm_spread np (mm_gamma a3) (mm_kappa a3) sigma_sq t;
                         bid = mm_bid_price reservation delta;
                         ask = mm_ask_price reservation delta;
                         can_buy = q < mm_max_inventory a3;
                         can_sell = q > - mm_max_inventory a3;
                         qty = mm_quantity q (mm_max_inventory a3) (mm_base_quantity a3);
                         (os, a4) = place_levels can_buy can_sell bid ask (mm_level_spacing a3) qty
                           [0..<nat (mm_num_levels a3)] a3
                     in Inr (os, a4\<lparr>mm_quote_history := mm_quote_history a4 @
                          [\<lparr>qe_step = step, qe_mid = mid, qe_reservation = reservation,
                            qe_spread = delta, qe_bid = bid, qe_ask = ask, qe_inventory = q,
                            qe_sigma_sq = sigma_sq, qe_pnl = total_pnl (stats a4)\<rparr>]\<rparr>)))))"

section \<open>The bid stays below the ask\<close>

lemma half_spread_ge_1: "2 \<le> delta \<Longrightarrow> 1 \<le> fdiv delta 2"
  using f64.ge_int [of 1 "delta / 2"] by (simp add: fdiv_def)

lemma mm_bid_le_ask: "2 \<le> delta \<Longrightarrow> mm_bid_price r delta \<le> mm_ask_price r delta"
  unfolding mm_bid_price_def mm_ask_price_def fsub_def fadd_def
  using half_spread_ge_1 [of delta] by (intro py_round_mono f64.rnd_mono) simp

lemma mm_bid_less_ask:
  assumes "2 \<le> delta" "\<bar>r\<bar> \<le> 2 ^ 52"
  shows "mm_bid_price r delta < mm_ask_price r delta"
proof -
  define n where "n = \<lfloor>r\<rfloor>"
  have n: "of_int n \<le> r" "r < of_int n + 1" by (simp_all add: n_def)
  have "real_of_int \<bar>n\<bar> \<le> real_of_int (2 ^ 52 + 1)" using assms(2) n by simp
  then have "\<bar>n\<bar> \<le> 2 ^ 52 + 1" by (subst (asm) of_int_le_iff)
  moreover have h: "1 \<le> fdiv delta 2" using assms(1) by (rule half_spread_ge_1)
  ultimately have "fsub r (fdiv delta 2) \<le> of_int n" "of_int (n + 1) \<le> fadd r (fdiv delta 2)"
    using n unfolding fsub_def fadd_def by (intro f64.le_int f64.ge_int; simp)+
  then show ?thesis
    using py_round_le_int [of _ n] py_round_ge_int [of "n + 1"]
    unfolding mm_bid_price_def mm_ask_price_def by fastforce
qed

lemma mm_spread_ge: "2 \<le> mm_spread np gamma kappa s t"
  by (simp add: mm_spread_def)

section \<open>The ladder of quotes\<close>

text \<open>The order the ladder sends for a side at a level, under the identifier it gets.\<close>

definition ladder_order :: "int \<Rightarrow> int \<Rightarrow> int \<Rightarrow> int \<Rightarrow> nat \<Rightarrow> agent_order \<Rightarrow> bool" where
  "ladder_order bid ask spacing qty l o1 \<longleftrightarrow>
     ao_order_type o1 = 0 \<and> ao_quantity o1 = level_quantity qty (int l) \<and>
     (ao_side o1 = 0 \<and> ao_price o1 = bid - int l * spacing \<or>
      ao_side o1 = 1 \<and> ao_price o1 = ask + int l * spacing)"

lemma place_levels_orders:
  "place_levels cb cs bid ask spacing qty ls a = (os, a') \<Longrightarrow> o1 \<in> set os \<Longrightarrow>
     (\<exists>l \<in> set ls. ladder_order bid ask spacing qty l o1) \<and>
     (ao_side o1 = 0 \<longrightarrow> cb) \<and> (ao_side o1 = 1 \<longrightarrow> cs)"
proof (induction ls arbitrary: a os)
  case (Cons l ls)
  obtain os1 a1 os2 where p: "place_level cb cs bid ask spacing qty (int l) a = (os1, a1)"
    "place_levels cb cs bid ask spacing qty ls a1 = (os2, a')" "os = os1 @ os2"
    using Cons.prems(1) by (auto split: prod.splits)
  show ?case
  proof (cases "o1 \<in> set os2")
    case True
    then show ?thesis using Cons.IH [OF p(2)] by auto
  next
    case False
    then have "o1 \<in> set os1" using Cons.prems(2) p(3) by auto
    then have "ladder_order bid ask spacing qty l o1 \<and> (ao_side o1 = 0 \<longrightarrow> cb) \<and> (ao_side o1 = 1 \<longrightarrow> cs)"
      using p(1) by (auto simp: place_level_def Let_def ladder_order_def emit_order_def next_order_id_def
          split: if_split_asm prod.split_asm)
    then show ?thesis by auto
  qed
qed simp

lemma place_level_count:
  "place_level cb cs bid ask spacing qty l a = (os, a') \<Longrightarrow>
     length (filter (\<lambda>o1. ao_side o1 = 0) os) = of_bool cb \<and>
     length (filter (\<lambda>o1. ao_side o1 = 1) os) = of_bool cs \<and>
     length os = of_bool cb + of_bool cs"
  by (auto simp: place_level_def Let_def emit_order_def next_order_id_def split: if_split_asm prod.split_asm)

lemma place_levels_count:
  "place_levels cb cs bid ask spacing qty ls a = (os, a') \<Longrightarrow>
     length (filter (\<lambda>o1. ao_side o1 = 0) os) = of_bool cb * length ls \<and>
     length (filter (\<lambda>o1. ao_side o1 = 1) os) = of_bool cs * length ls"
proof (induction ls arbitrary: a os)
  case (Cons l ls)
  then show ?case
    by (auto split: prod.splits dest!: place_level_count simp del: One_nat_def)
qed simp

text \<open>
  What placing orders does to the base state: it appends them, under consecutive new
  identifiers, to the active orders.
\<close>

definition placed :: "'a base_agent_scheme \<Rightarrow> agent_order list \<Rightarrow> 'a base_agent_scheme \<Rightarrow> bool" where
  "placed a os a' \<longleftrightarrow>
     active_orders a' = active_orders a @ map (\<lambda>o1. (ao_order_id o1, o1)) os \<and>
     map ao_order_id os = map (\<lambda>i. next_oid a + int i) [0..<length os] \<and>
     next_oid a' = next_oid a + int (length os) \<and> id_offset a' = id_offset a \<and>
     fill_prices a' = fill_prices a \<and> tick_size a' = tick_size a \<and>
     stats a' = (stats a)\<lparr>total_orders_sent := total_orders_sent (stats a) + int (length os)\<rparr> \<and>
     base_agent.more a' = base_agent.more a"

lemma placed_none: "placed a [] a"
  by (simp add: placed_def)

lemma placed_trans:
  assumes "placed a os1 a1" "placed a1 os2 a2"
  shows "placed a (os1 @ os2) a2"
proof -
  have "map (\<lambda>i. n + int i) [0..<k + m] =
      map (\<lambda>i. n + int i) [0..<k] @ map (\<lambda>i. n + int k + int i) [0..<m]" for n k m
    by (rule nth_equalityI) (auto simp: nth_append)
  then show ?thesis using assms by (simp add: placed_def)
qed

lemma placed_emit:
  assumes "emit_order s t p q a = (o1, a')" "ids_ok a"
  shows "placed a [o1] a'" "ids_ok a'"
proof -
  have new: "next_oid a \<notin> fst ` set (active_orders a)"
    using assms(2) by (fastforce simp: ids_ok_def)
  have a': "a' = track_order o1 (snd (next_order_id a))" and o1: "ao_order_id o1 = next_oid a"
    using assms(1) by (auto simp: emit_order_def next_order_id_def Let_def)
  have e: "active_orders a' = active_orders a @ [(next_oid a, o1)]"
    using dict_set_new [OF new, of o1] by (simp add: a' o1 track_order_def next_order_id_def)
  show "placed a [o1] a'"
    unfolding placed_def e using o1 by (simp add: a' track_order_def next_order_id_def)
  have "dict_ok (active_orders a')"
    using assms(2) by (simp add: a' track_order_def next_order_id_def ids_ok_def)
  then show "ids_ok a'"
    using assms(2) o1 unfolding ids_ok_def e by (auto simp: a' track_order_def next_order_id_def)
qed

lemma placed_level:
  assumes "place_level cb cs bid ask spacing qty l a = (os, a')" "ids_ok a"
  shows "placed a os a' \<and> ids_ok a'"
proof -
  obtain os1 a1 where 1: "(if cb then (case emit_order 0 0 (bid - l * spacing) (level_quantity qty l) a of
      (o1, a') \<Rightarrow> ([o1], a')) else ([], a)) = (os1, a1)" by fastforce
  obtain os2 a2 where 2: "(if cs then (case emit_order 1 0 (ask + l * spacing) (level_quantity qty l) a1 of
      (o1, a') \<Rightarrow> ([o1], a')) else ([], a1)) = (os2, a2)" by fastforce
  have "placed a os1 a1 \<and> ids_ok a1"
    using 1 assms(2) by (auto split: if_split_asm prod.split_asm intro: placed_none placed_emit)
  moreover from this have "placed a1 os2 a2 \<and> ids_ok a2"
    using 2 by (auto split: if_split_asm prod.split_asm intro: placed_none placed_emit)
  moreover have "os = os1 @ os2" "a' = a2"
    using assms(1) 1 2 by (simp_all add: place_level_def Let_def)
  ultimately show ?thesis using placed_trans by blast
qed

lemma placed_levels:
  "place_levels cb cs bid ask spacing qty ls a = (os, a') \<Longrightarrow> ids_ok a \<Longrightarrow> placed a os a' \<and> ids_ok a'"
proof (induction ls arbitrary: a os)
  case Nil
  then show ?case by (simp add: placed_none)
next
  case (Cons l ls)
  then show ?case
    by (auto split: prod.splits dest!: placed_level) (metis placed_trans)+
qed

section \<open>One quote\<close>

lemma estimate_sigma_sq_frame:
  assumes "estimate_sigma_sq np mid a = (sigma, a')"
  shows "base_agent.truncate a' = base_agent.truncate a" "mm_pending_cancels a' = mm_pending_cancels a"
    "mm_quote_history a' = mm_quote_history a" "mm_max_inventory a' = mm_max_inventory a"
    "mm_num_levels a' = mm_num_levels a" "mm_level_spacing a' = mm_level_spacing a"
    "mm_base_quantity a' = mm_base_quantity a" "mm_total_steps a' = mm_total_steps a"
    "mm_gamma a' = mm_gamma a" "mm_kappa a' = mm_kappa a" "mm_sigma_sq a' = sigma"
  using assms by (auto simp: estimate_sigma_sq_def Let_def base_agent.truncate_def split: if_split_asm)

text \<open>
  The state in which the ladder is placed: the base state with the profit marked to the book's
  midprice and no active order, the identifiers of the orders that were active pending
  cancellation.
\<close>

definition mm_cleared :: "book_update_msg \<Rightarrow> 'g market_maker \<Rightarrow> 'g market_maker \<Rightarrow> bool" where
  "mm_cleared u a a3 \<longleftrightarrow>
     base_agent.truncate a3 =
       base_agent.truncate (snd (cancel_all (update_unrealized_pnl (py_int (mm_mid u)) a))) \<and>
     mm_pending_cancels a3 = Some (dict_keys (active_orders a)) \<and>
     mm_quote_history a3 = mm_quote_history a"

lemma mm_on_book_update_cases:
  assumes "mm_on_book_update np u n a = Inr (os, a')"
  obtains (invalid) "best_bid u \<le> 0 \<or> best_ask u \<le> 0" "os = []" "a' = a"
  | (quote) e a3 a4 where "0 < best_bid u" "0 < best_ask u" "mm_cleared u a a3"
      "place_levels (inventory (stats a) < mm_max_inventory a) (inventory (stats a) > - mm_max_inventory a)
         (qe_bid e) (qe_ask e) (mm_level_spacing a)
         (mm_quantity (inventory (stats a)) (mm_max_inventory a) (mm_base_quantity a))
         [0..<nat (mm_num_levels a)] a3 = (os, a4)"
      "a' = a4\<lparr>mm_quote_history := mm_quote_history a4 @ [e]\<rparr>"
      "2 \<le> qe_spread e" "qe_inventory e = inventory (stats a)" "qe_step e = n" "qe_mid e = mm_mid u"
      "qe_bid e = mm_bid_price (qe_reservation e) (qe_spread e)"
      "qe_ask e = mm_ask_price (qe_reservation e) (qe_spread e)"
      "qe_reservation e = mm_reservation (mm_mid u) (inventory (stats a)) (mm_gamma a) (qe_sigma_sq e)
         (mm_time_left n (mm_total_steps a))"
proof (cases "best_bid u \<le> 0 \<or> best_ask u \<le> 0")
  case True
  then show thesis using assms invalid by (simp add: mm_on_book_update_def)
next
  case False
  let ?b = "update_unrealized_pnl (py_int (mm_mid u)) a"
  let ?a2 = "(snd (cancel_all ?b))\<lparr>mm_pending_cancels := Some (dict_keys (active_orders ?b))\<rparr>"
  obtain sigma a3 where est: "estimate_sigma_sq np (mm_mid u) ?a2 = (sigma, a3)" by fastforce
  note fr = estimate_sigma_sq_frame [OF est]
  have same: "mm_max_inventory a3 = mm_max_inventory a" "mm_num_levels a3 = mm_num_levels a"
    "mm_level_spacing a3 = mm_level_spacing a" "mm_base_quantity a3 = mm_base_quantity a"
    "mm_gamma a3 = mm_gamma a" "mm_total_steps a3 = mm_total_steps a"
    using fr by (simp_all add: cancel_all_def update_unrealized_pnl_def Let_def)
  have cl: "mm_cleared u a a3"
    unfolding mm_cleared_def using fr
    by (simp add: cancel_all_def update_unrealized_pnl_def Let_def base_agent.truncate_def)
  have "stats a3 = stats ?b"
    using fr(1) by (simp add: base_agent.truncate_def cancel_all_def)
  then have q: "inventory (stats a3) = inventory (stats a)"
    by (simp add: update_unrealized_pnl_def Let_def)
  let ?t = "mm_time_left n (mm_total_steps a)"
  let ?r = "mm_reservation (mm_mid u) (inventory (stats a)) (mm_gamma a) sigma ?t"
  let ?d = "mm_spread np (mm_gamma a) (mm_kappa a3) sigma ?t"
  obtain os4 a4 where pl: "place_levels (inventory (stats a) < mm_max_inventory a)
      (inventory (stats a) > - mm_max_inventory a) (mm_bid_price ?r ?d) (mm_ask_price ?r ?d)
      (mm_level_spacing a) (mm_quantity (inventory (stats a)) (mm_max_inventory a) (mm_base_quantity a))
      [0..<nat (mm_num_levels a)] a3 = (os4, a4)" by fastforce
  define e where "e = \<lparr>qe_step = n, qe_mid = mm_mid u, qe_reservation = ?r, qe_spread = ?d,
    qe_bid = mm_bid_price ?r ?d, qe_ask = mm_ask_price ?r ?d, qe_inventory = inventory (stats a),
    qe_sigma_sq = sigma, qe_pnl = total_pnl (stats a4)\<rparr>"
  have "os = os4" "a' = a4\<lparr>mm_quote_history := mm_quote_history a4 @ [e]\<rparr>"
    using assms False est pl
    by (auto simp: mm_on_book_update_def Let_def cancel_all_def same q e_def split: if_split_asm)
  then show thesis
    using quote [of a3 e a4] False cl pl by (simp add: e_def mm_spread_ge)
qed

lemma mm_cleared_base:
  assumes "mm_cleared u a a3"
  shows "base_ok a \<Longrightarrow> base_ok a3" "active_orders a3 = []" "next_oid a3 = next_oid a"
    "id_offset a3 = id_offset a" "fill_prices a3 = fill_prices a"
    "inventory (stats a3) = inventory (stats a)"
proof -
  let ?b = "snd (cancel_all (update_unrealized_pnl (py_int (mm_mid u)) a))"
  have b: "base_agent.truncate a3 = base_agent.truncate ?b"
    using assms by (simp add: mm_cleared_def)
  show "base_ok a3" if "base_ok a"
    using that base_ok_cancel_all [of "update_unrealized_pnl (py_int (mm_mid u)) a"] base_ok_truncate b
    by (metis base_ok_unrealized)
  from b [THEN arg_cong, of active_orders] b [THEN arg_cong, of next_oid] b [THEN arg_cong, of id_offset]
    b [THEN arg_cong, of fill_prices] b [THEN arg_cong, of "\<lambda>x. inventory (stats x)"]
  show "active_orders a3 = []" "next_oid a3 = next_oid a" "id_offset a3 = id_offset a"
    "fill_prices a3 = fill_prices a" "inventory (stats a3) = inventory (stats a)"
    by (simp_all add: cancel_all_def update_unrealized_pnl_def Let_def)
qed

text \<open>
  Placing never touches the ledger. Without the invariant on identifiers the new orders still
  go under the identifiers from \<open>next_oid\<close> on.
\<close>

lemma place_levels_frame:
  "place_levels cb cs bid ask spacing qty ls a = (os, a') \<Longrightarrow>
     fill_prices a' = fill_prices a \<and> id_offset a' = id_offset a \<and>
     inventory (stats a') = inventory (stats a) \<and> next_oid a \<le> next_oid a' \<and>
     (base_ok a \<longrightarrow> base_ok a')"
proof (induction ls arbitrary: a os)
  case (Cons l ls)
  obtain os1 a1 os2 where p: "place_level cb cs bid ask spacing qty (int l) a = (os1, a1)"
    "place_levels cb cs bid ask spacing qty ls a1 = (os2, a')"
    using Cons.prems(1) by (auto split: prod.splits)
  have "fill_prices a1 = fill_prices a \<and> id_offset a1 = id_offset a \<and>
     inventory (stats a1) = inventory (stats a) \<and> next_oid a \<le> next_oid a1 \<and> (base_ok a \<longrightarrow> base_ok a1)"
    using p(1) by (auto simp: place_level_def Let_def emit_order_props split: if_split_asm prod.split_asm)
  then show ?case using Cons.IH [OF p(2)] by auto
qed simp

lemma placed_get: "placed a os a' \<Longrightarrow> active_orders a = [] \<Longrightarrow> o1 \<in> set os \<Longrightarrow>
    dict_get (active_orders a') (ao_order_id o1) = Some o1"
proof -
  assume p: "placed a os a'" "active_orders a = []" and o1: "o1 \<in> set os"
  have "distinct (map ao_order_id os)"
    using p(1) by (simp add: placed_def distinct_map inj_on_def)
  then have "map_of (map (\<lambda>o1. (ao_order_id o1, o1)) os) (ao_order_id o1) = Some o1"
    using o1 by (intro map_of_is_SomeI) (auto simp: comp_def)
  then show ?thesis using p by (simp add: placed_def dict_get_def)
qed

text \<open>The fields of the subclass are out of reach of the base operations.\<close>

lemma place_levels_more:
  "place_levels cb cs bid ask spacing qty ls a = (os, a') \<Longrightarrow> base_agent.more a' = base_agent.more a"
proof (induction ls arbitrary: a os)
  case (Cons l ls)
  obtain os1 a1 os2 where p: "place_level cb cs bid ask spacing qty (int l) a = (os1, a1)"
    "place_levels cb cs bid ask spacing qty ls a1 = (os2, a')"
    using Cons.prems(1) by (auto split: prod.splits)
  have "base_agent.more a1 = base_agent.more a"
    using p(1) by (auto simp: place_level_def Let_def emit_defs split: if_split_asm)
  then show ?case using Cons.IH [OF p(2)] by simp
qed simp

interpretation mm: trading_agent base_agent.truncate "mm_on_book_update np" on_fill "\<lambda>_. True"
proof (unfold_locales, goal_cases)
  case (1 f s)
  show ?case by (rule on_fill_truncate)
next
  case (3 u n s os s')
  then show ?case
    by (cases rule: mm_on_book_update_cases)
      (auto dest!: place_levels_frame dest: mm_cleared_base simp: base_ok_def ids_ok_def ledger_ok_def)
next
  case (4 u n s os s')
  then show ?case
    by (cases rule: mm_on_book_update_cases) (auto dest!: place_levels_frame simp: mm_cleared_base)
next
  case (5 u n s os s')
  then show ?case
    by (cases rule: mm_on_book_update_cases) (auto dest!: place_levels_frame simp: mm_cleared_base)
next
  case (6 u n s os s' o1)
  from 6(1) show ?case
  proof (cases rule: mm_on_book_update_cases)
    case (quote e a3 a4)
    have "base_ok a3" using 6(2) mm_cleared_base(1) [OF quote(3)] by simp
    then have "placed a3 os a4" using placed_levels [OF quote(4)] by (simp add: base_ok_def)
    then have "dict_get (active_orders a4) (ao_order_id o1) = Some o1"
      using placed_get mm_cleared_base(2) [OF quote(3)] 6(4) by blast
    then show ?thesis using quote(5) by simp
  qed (use 6(4) in simp)
qed simp_all

end
