(* ===== verification/Latency_Model.thy ===== *)
theory Latency_Model
  imports Numpy
begin

text \<open>
  \<open>simulation/market/latency_model.py\<close>: the delay of an agent's actions. The lemmas bound a
  sample by the profile it is drawn from; the simulator relies on it never being negative, so
  that no event is scheduled in the past.
\<close>

record latency_config =
  base_us :: real
  jitter_us :: real
  spike_prob :: real
  spike_factor :: real

definition LatencyConfig :: "real \<Rightarrow> real \<Rightarrow> latency_config" where
  "LatencyConfig base jitter =
     \<lparr>base_us = base, jitter_us = jitter, spike_prob = flit (1 / 1000), spike_factor = 10\<rparr>"

definition default_config :: latency_config where
  "default_config = LatencyConfig 200 50"

record 'g latency_model =
  lat_config :: latency_config
  lat_rng :: 'g

definition latency_init :: "'g numpy \<Rightarrow> latency_config option \<Rightarrow> int \<Rightarrow> 'g latency_model" where
  "latency_init np config seed =
     \<lparr>lat_config = (case config of None \<Rightarrow> default_config | Some c \<Rightarrow> c),
      lat_rng = np_default_rng np seed\<rparr>"

definition latency_sample :: "'g numpy \<Rightarrow> 'g latency_model \<Rightarrow> (real \<times> 'g latency_model) result" where
  "latency_sample np m =
     (let c = lat_config m
      in case np_uniform np (- jitter_us c) (jitter_us c) (lat_rng m) of
           Inl e \<Rightarrow> Inl e
         | Inr (jitter, g1) \<Rightarrow>
             (let delay = fadd (base_us c) jitter;
                  (r, g2) = np_random np g1;
                  delay' = (if r < spike_prob c then fmul delay (spike_factor c) else delay)
              in Inr (max 0 delay', m\<lparr>lat_rng := g2\<rparr>)))"

definition sample_seconds :: "'g numpy \<Rightarrow> 'g latency_model \<Rightarrow> (real \<times> 'g latency_model) result" where
  "sample_seconds np m =
     (case latency_sample np m of
        Inl e \<Rightarrow> Inl e
      | Inr (d, m') \<Rightarrow> Inr (fdiv d 1000000, m'))"

definition colocated_latency :: "'g numpy \<Rightarrow> int \<Rightarrow> 'g latency_model" where
  "colocated_latency np seed = latency_init np (Some (LatencyConfig 5 2)) seed"

definition market_maker_latency :: "'g numpy \<Rightarrow> int \<Rightarrow> 'g latency_model" where
  "market_maker_latency np seed = latency_init np (Some (LatencyConfig 200 50)) seed"

definition retail_latency :: "'g numpy \<Rightarrow> int \<Rightarrow> 'g latency_model" where
  "retail_latency np seed = latency_init np (Some (LatencyConfig 1000 300)) seed"

definition latency_arb_latency :: "'g numpy \<Rightarrow> int \<Rightarrow> 'g latency_model" where
  "latency_arb_latency np seed = latency_init np (Some (LatencyConfig 50 10)) seed"

section \<open>Bounds\<close>

lemma sample_seconds_nonneg: "sample_seconds np m = Inr (d, m') \<Longrightarrow> 0 \<le> d \<and> is_float d"
  by (auto simp: sample_seconds_def latency_sample_def Let_def
      intro!: fdiv_nonneg split: sum.split_asm prod.split_asm)

lemma sample_config: "latency_sample np m = Inr (d, m') \<Longrightarrow> lat_config m' = lat_config m"
  by (auto simp: latency_sample_def Let_def split: sum.split_asm prod.split_asm)

text \<open>A usable configuration: a jitter that is not negative.\<close>

definition latency_ok :: "'g latency_model \<Rightarrow> bool" where
  "latency_ok m \<longleftrightarrow> is_float (jitter_us (lat_config m)) \<and> 0 \<le> jitter_us (lat_config m)"

lemma is_float_minus: "is_float x \<Longrightarrow> is_float (- x)"
  by (simp add: is_float_def rnd64_minus)

lemma sample_seconds_total:
  assumes "numpy_ok np" "latency_ok m"
  shows "\<exists>d m'. sample_seconds np m = Inr (d, m') \<and> 0 \<le> d \<and> is_float d \<and> latency_ok m'"
proof -
  obtain v g where v: "np_uniform np (- jitter_us (lat_config m)) (jitter_us (lat_config m)) (lat_rng m) = Inr (v, g)"
    using numpy_uniform [OF assms(1), of "- jitter_us (lat_config m)" "jitter_us (lat_config m)" "lat_rng m"]
      assms(2) by (auto simp: latency_ok_def is_float_minus)
  moreover obtain r g2 where "np_random np g = (r, g2)" by fastforce
  ultimately obtain d m' where "sample_seconds np m = Inr (d, m')" "lat_config m' = lat_config m"
    by (auto simp: sample_seconds_def latency_sample_def Let_def)
  then show ?thesis using sample_seconds_nonneg assms(2) by (fastforce simp: latency_ok_def)
qed

lemma jitter_bounds:
  assumes "of_int (b - j) \<le> of_int b + (v :: real)" "of_int b + v \<le> of_int (b + j)"
    "\<bar>b - j\<bar> \<le> 2 ^ 53" "\<bar>b + j\<bar> \<le> 2 ^ 53"
  shows "of_int (b - j) \<le> fadd (of_int b) v" "fadd (of_int b) v \<le> of_int (b + j)"
  using f64.ge_int [OF assms(1,3)] f64.le_int [OF assms(2,4)] by (simp_all only: fadd_def)

lemma spike_bounds:
  assumes "of_int l \<le> x" "x \<le> of_int h" "\<bar>10 * l\<bar> \<le> 2 ^ 53" "\<bar>10 * h\<bar> \<le> 2 ^ 53"
  shows "of_int (10 * l) \<le> fmul x 10" "fmul x 10 \<le> of_int (10 * h)"
  using f64.ge_int [of "10 * l" "x * 10"] f64.le_int [of "x * 10" "10 * h"] assms
  by (simp_all add: fmul_def)

lemma sample_profile:
  assumes np: "numpy_ok np" and c: "lat_config m = LatencyConfig (of_int b) (of_int j)"
    and range: "0 \<le> j" "j \<le> b" "b \<le> 1000000"
  shows "\<exists>d m'. latency_sample np m = Inr (d, m') \<and> lat_config m' = lat_config m \<and>
     (of_int (b - j) \<le> d \<and> d \<le> of_int (b + j) \<or>
      of_int (10 * (b - j)) \<le> d \<and> d \<le> of_int (10 * (b + j)))"
proof -
  have j: "is_float (of_int j)" using range by (intro is_float_of_int) simp
  then obtain v g where v: "np_uniform np (- of_int j) (of_int j) (lat_rng m) = Inr (v, g)"
    "- of_int j \<le> v" "v \<le> of_int j"
    using numpy_uniform [OF np is_float_minus [OF j] j, of "lat_rng m"] range by fastforce
  let ?x = "fadd (of_int b) v"
  have x: "of_int (b - j) \<le> ?x" "?x \<le> of_int (b + j)"
    by (rule jitter_bounds; use v(2,3) range in simp)+
  have y: "of_int (10 * (b - j)) \<le> fmul ?x 10" "fmul ?x 10 \<le> of_int (10 * (b + j))"
    by (rule spike_bounds [of "b - j" ?x "b + j"]; use x range in simp)+
  have "0 \<le> real_of_int (b - j)" using range by simp
  then have "max 0 ?x = ?x" "max 0 (fmul ?x 10) = fmul ?x 10" using x(1) y(1) by simp_all
  then show ?thesis
    using v(1) x y by (auto simp: latency_sample_def c LatencyConfig_def Let_def split: prod.splits)
qed

end
