(* ===== verification/Metrics.thy ===== *)
theory Metrics
  imports Numpy
begin

text \<open>
  \<open>simulation/metrics.py\<close>: the records, the recording operations and the report. The lemmas
  relate the counters to the records, characterise which quote a cancellation marks, and show
  that the sums of the decomposition are exact as long as they stay below $2^{53}$.
\<close>

section \<open>State\<close>

record fill_record =
  fr_timestamp :: real
  fr_price :: int
  fr_quantity :: int
  fr_side :: int
  is_maker :: bool
  mid_at_fill :: int
  mid_after_fill :: "int option"
  fr_maker_fee :: real
  fr_taker_fee :: real

record quote_record =
  qr_order_id :: int
  qr_timestamp :: real
  cancel_timestamp :: "real option"
  was_filled :: bool

definition QuoteRecord :: "int \<Rightarrow> real \<Rightarrow> quote_record" where
  "QuoteRecord oid t = \<lparr>qr_order_id = oid, qr_timestamp = t, cancel_timestamp = None, was_filled = False\<rparr>"

record metrics_engine =
  lookback :: int
  fills :: "fill_record list"
  quotes :: "quote_record list"
  inventory_history :: "int list"
  pnl_history :: "real list"
  mid_history :: "int list"
  me_orders_sent :: int
  me_fills :: int
  me_cancels :: int

definition metrics_init :: "int \<Rightarrow> metrics_engine" where
  "metrics_init window = \<lparr>lookback = window, fills = [], quotes = [], inventory_history = [],
     pnl_history = [], mid_history = [], me_orders_sent = 0, me_fills = 0, me_cancels = 0\<rparr>"

section \<open>Recording\<close>

definition record_fill :: "fill_record \<Rightarrow> metrics_engine \<Rightarrow> metrics_engine" where
  "record_fill f m = m\<lparr>fills := fills m @ [f], me_fills := me_fills m + 1\<rparr>"

definition record_quote :: "quote_record \<Rightarrow> metrics_engine \<Rightarrow> metrics_engine" where
  "record_quote q m = m\<lparr>quotes := quotes m @ [q], me_orders_sent := me_orders_sent m + 1\<rparr>"

text \<open>The loop over the reversed list, which stops at the first match.\<close>

fun mark_first :: "int \<Rightarrow> real \<Rightarrow> quote_record list \<Rightarrow> quote_record list" where
  "mark_first oid t [] = []"
| "mark_first oid t (q # qs) =
     (if qr_order_id q = oid \<and> cancel_timestamp q = None
      then q\<lparr>cancel_timestamp := Some t\<rparr> # qs else q # mark_first oid t qs)"

definition record_cancel :: "int \<Rightarrow> real \<Rightarrow> metrics_engine \<Rightarrow> metrics_engine" where
  "record_cancel oid t m =
     m\<lparr>me_cancels := me_cancels m + 1, quotes := rev (mark_first oid t (rev (quotes m)))\<rparr>"

definition record_state :: "int \<Rightarrow> real \<Rightarrow> int \<Rightarrow> int \<Rightarrow> metrics_engine \<Rightarrow> metrics_engine" where
  "record_state step pnl q mid m =
     m\<lparr>pnl_history := pnl_history m @ [pnl], inventory_history := inventory_history m @ [q],
       mid_history := mid_history m @ [mid]\<rparr>"

section \<open>Metrics\<close>

definition sharpe_ratio :: "'g numpy \<Rightarrow> metrics_engine \<Rightarrow> real" where
  "sharpe_ratio np m =
     (if length (pnl_history m) < 2 then 0
      else
        (let returns = np_diff np (pnl_history m)
         in if np_std np returns < flit (1 / 10 ^ 10) then 0
            else fmul (fdiv (np_mean np returns) (np_std np returns)) (np_sqrt np (252 * 6500))))"

definition inventory_variance :: "'g numpy \<Rightarrow> metrics_engine \<Rightarrow> real" where
  "inventory_variance np m =
     (if length (inventory_history m) < 2 then 0 else np_var np (map fint (inventory_history m)))"

definition fill_ratio :: "metrics_engine \<Rightarrow> real" where
  "fill_ratio m =
     (if me_orders_sent m = 0 then 0 else rnd64 (of_int (me_fills m) / of_int (me_orders_sent m)))"

definition adverse_cost :: "fill_record \<Rightarrow> int \<Rightarrow> int" where
  "adverse_cost f after = (if fr_side f = 0 then mid_at_fill f - after else after - mid_at_fill f)"

definition adverse_costs :: "fill_record list \<Rightarrow> int list" where
  "adverse_costs fs = concat (map (\<lambda>f. case mid_after_fill f of
      Some after \<Rightarrow> if is_maker f then [adverse_cost f after] else []
    | None \<Rightarrow> []) fs)"

definition adverse_selection :: "'g numpy \<Rightarrow> metrics_engine \<Rightarrow> real" where
  "adverse_selection np m =
     (let costs = adverse_costs (fills m) in if costs \<noteq> [] then np_mean np (map fint costs) else 0)"

text \<open>
  The code's second branch tests \<open>q.cancel_timestamp\<close> again although it is reached only when it
  is \<open>None\<close>: it always appends 0.
\<close>

definition lifetimes :: "quote_record list \<Rightarrow> real list" where
  "lifetimes qs = concat (map (\<lambda>q. case cancel_timestamp q of
      Some t \<Rightarrow> [fsub t (qr_timestamp q)]
    | None \<Rightarrow> if was_filled q
        then [case cancel_timestamp q of
                Some t \<Rightarrow> if t \<noteq> 0 then fsub t (qr_timestamp q) else 0 | None \<Rightarrow> 0]
        else []) qs)"

definition quote_lifetime_avg :: "'g numpy \<Rightarrow> metrics_engine \<Rightarrow> real" where
  "quote_lifetime_avg np m =
     (let ls = lifetimes (quotes m) in if ls \<noteq> [] then np_mean np ls else 0)"

text \<open>\<open>None\<close> stands for \<open>float("inf")\<close>.\<close>

definition order_to_trade_ratio :: "metrics_engine \<Rightarrow> real option" where
  "order_to_trade_ratio m =
     (if me_fills m = 0 then None
      else Some (rnd64 (of_int (me_orders_sent m) / of_int (me_fills m))))"

section \<open>Decomposition of the profit\<close>

record pnl_parts =
  spread_capture :: real
  pp_inventory_pnl :: real
  pp_adverse_selection :: real
  maker_fees :: real
  taker_fees :: real
  net_fees :: real

text \<open>The four accumulators of the loop over the fills.\<close>

type_synonym fill_sums = "real \<times> real \<times> real \<times> real"

definition captured :: "fill_record \<Rightarrow> int" where
  "captured f = (if fr_side f = 0 then mid_at_fill f - fr_price f else fr_price f - mid_at_fill f)"

definition add_fill :: "fill_record \<Rightarrow> fill_sums \<Rightarrow> fill_sums" where
  "add_fill f = (\<lambda>(sc, adv, mf, tf).
     (let (sc, adv, mf) =
        (if is_maker f
         then (fadd sc (fint (captured f)),
               (case mid_after_fill f of Some after \<Rightarrow> fadd adv (fint (adverse_cost f after)) | None \<Rightarrow> adv),
               fadd mf (fr_maker_fee f))
         else (sc, adv, mf))
      in (sc, adv, mf, fadd tf (if \<not> is_maker f then fr_taker_fee f else 0))))"

definition inventory_gain :: "metrics_engine \<Rightarrow> nat \<Rightarrow> int" where
  "inventory_gain m i = inventory_history m ! (i - 1) * (mid_history m ! i - mid_history m ! (i - 1))"

definition inventory_sum :: "metrics_engine \<Rightarrow> real" where
  "inventory_sum m =
     (if length (mid_history m) \<ge> 2 \<and> length (inventory_history m) \<ge> 2
      then fold (\<lambda>i r. fadd r (fint (inventory_gain m i)))
             [1..<min (length (mid_history m)) (length (inventory_history m))] 0
      else 0)"

definition pnl_decomposition :: "metrics_engine \<Rightarrow> pnl_parts" where
  "pnl_decomposition m =
     (case fold add_fill (fills m) (0, 0, 0, 0) of (sc, adv, mf, tf) \<Rightarrow>
        \<lparr>spread_capture = sc, pp_inventory_pnl = inventory_sum m, pp_adverse_selection = adv,
         maker_fees = mf, taker_fees = tf, net_fees = fadd mf tf\<rparr>)"

section \<open>Report\<close>

datatype report_value = Count int | Value real | Infinite

definition compute_report :: "'g numpy \<Rightarrow> metrics_engine \<Rightarrow> (string, report_value) dict" where
  "compute_report np m =
     (let d = pnl_decomposition m
      in foldl (\<lambda>r (k, v). dict_set k v r) []
        [(''total_fills'', Count (me_fills m)),
         (''total_orders'', Count (me_orders_sent m)),
         (''total_cancels'', Count (me_cancels m)),
         (''sharpe_ratio'', Value (sharpe_ratio np m)),
         (''inventory_variance'', Value (inventory_variance np m)),
         (''fill_ratio'', Value (fill_ratio m)),
         (''adverse_selection'', Value (adverse_selection np m)),
         (''quote_lifetime_avg'', Value (quote_lifetime_avg np m)),
         (''order_to_trade_ratio'',
            (case order_to_trade_ratio m of None \<Rightarrow> Infinite | Some r \<Rightarrow> Value r)),
         (''spread_capture'', Value (spread_capture d)),
         (''inventory_pnl'', Value (pp_inventory_pnl d)),
         (''adverse_selection'', Value (pp_adverse_selection d)),
         (''maker_fees'', Value (maker_fees d)),
         (''taker_fees'', Value (taker_fees d)),
         (''net_fees'', Value (net_fees d))])"

section \<open>The counters agree with the records\<close>

definition metrics_ok :: "metrics_engine \<Rightarrow> bool" where
  "metrics_ok m \<longleftrightarrow> me_fills m = int (length (fills m)) \<and> me_orders_sent m = int (length (quotes m)) \<and>
     length (filter (\<lambda>q. cancel_timestamp q \<noteq> None) (quotes m)) \<le> nat (me_cancels m) \<and> 0 \<le> me_cancels m \<and>
     length (pnl_history m) = length (inventory_history m) \<and>
     length (mid_history m) = length (inventory_history m)"

lemma metrics_ok_init: "metrics_ok (metrics_init w)"
  by (simp add: metrics_ok_def metrics_init_def)

lemma metrics_ok_fill [simp]: "metrics_ok m \<Longrightarrow> metrics_ok (record_fill f m)"
  by (simp add: metrics_ok_def record_fill_def)

lemma metrics_ok_quote [simp]: "metrics_ok m \<Longrightarrow> cancel_timestamp q = None \<Longrightarrow> metrics_ok (record_quote q m)"
  by (simp add: metrics_ok_def record_quote_def)

lemma metrics_ok_state [simp]: "metrics_ok m \<Longrightarrow> metrics_ok (record_state n p i mid m)"
  by (simp add: metrics_ok_def record_state_def)

lemma mark_first_length [simp]: "length (mark_first oid t qs) = length qs"
  by (induction qs) auto

lemma mark_first_marked:
  "length (filter (\<lambda>q. cancel_timestamp q \<noteq> None) (mark_first oid t qs)) \<le>
     Suc (length (filter (\<lambda>q. cancel_timestamp q \<noteq> None) qs))"
  by (induction qs) auto

lemma metrics_ok_cancel [simp]: "metrics_ok m \<Longrightarrow> metrics_ok (record_cancel oid t m)"
  using mark_first_marked [of oid t "rev (quotes m)"]
  by (auto simp: metrics_ok_def record_cancel_def rev_filter [symmetric] nat_add_distrib)

text \<open>The quote a cancellation marks is the latest unmarked one of its identifier.\<close>

lemma mark_first_split:
  "qr_order_id q = oid \<Longrightarrow> cancel_timestamp q = None \<Longrightarrow>
     \<forall>p \<in> set xs. qr_order_id p = oid \<longrightarrow> cancel_timestamp p \<noteq> None \<Longrightarrow>
     mark_first oid t (xs @ q # ys) = xs @ q\<lparr>cancel_timestamp := Some t\<rparr> # ys"
  by (induction xs) auto

lemma mark_first_none:
  "\<forall>p \<in> set xs. qr_order_id p = oid \<longrightarrow> cancel_timestamp p \<noteq> None \<Longrightarrow> mark_first oid t xs = xs"
  by (induction xs) auto

section \<open>Exact sums\<close>

text \<open>
  A running sum of integers in floats is exact as long as the sum of the magnitudes stays
  below $2^{53}$.
\<close>

lemma fold_fadd_exact:
  assumes "\<bar>s\<bar> + sum_list (map (\<lambda>x. \<bar>f x\<bar>) xs) \<le> 2 ^ 53"
  shows "fold (\<lambda>x r. fadd r (fint (f x))) xs (of_int s) = of_int (s + sum_list (map f xs))"
  using assms
proof (induction xs arbitrary: s)
  case (Cons x xs)
  have 0: "0 \<le> sum_list (map (\<lambda>x. \<bar>f x\<bar>) xs)" by (rule sum_list_nonneg) auto
  then have "fint (f x) = of_int (f x)" using Cons.prems by (intro fint_exact) simp
  moreover have "fadd (of_int s) (of_int (f x)) = of_int (s + f x)"
    using Cons.prems 0 by (intro fadd_of_int) simp
  ultimately show ?case using Cons.IH [of "s + f x"] Cons.prems by (simp add: add.assoc)
qed simp

lemma add_fill_sums:
  "fold add_fill fs (sc, adv, mf, tf) =
     (fold (\<lambda>f r. fadd r (fint (captured f))) (filter is_maker fs) sc,
      fold (\<lambda>c r. fadd r (fint c)) (adverse_costs fs) adv,
      fold (\<lambda>f r. fadd r (fr_maker_fee f)) (filter is_maker fs) mf,
      fold (\<lambda>f r. fadd r (if is_maker f then 0 else fr_taker_fee f)) fs tf)"
  by (induction fs arbitrary: sc adv mf tf)
    (auto simp: add_fill_def adverse_costs_def Let_def split: option.splits)

lemma spread_capture_exact:
  assumes "sum_list (map (\<lambda>f. \<bar>captured f\<bar>) (filter is_maker (fills m))) \<le> 2 ^ 53"
  shows "spread_capture (pnl_decomposition m) = of_int (sum_list (map captured (filter is_maker (fills m))))"
  using fold_fadd_exact [of 0 captured "filter is_maker (fills m)"] assms
  by (simp add: pnl_decomposition_def add_fill_sums)

lemma adverse_selection_exact:
  assumes "sum_list (map abs (adverse_costs (fills m))) \<le> 2 ^ 53"
  shows "pp_adverse_selection (pnl_decomposition m) = of_int (sum_list (adverse_costs (fills m)))"
  using fold_fadd_exact [of 0 "\<lambda>c. c" "adverse_costs (fills m)"] assms
  by (simp add: pnl_decomposition_def add_fill_sums)

lemma inventory_pnl_exact:
  assumes "metrics_ok m"
    "sum_list (map (\<lambda>i. \<bar>inventory_gain m i\<bar>) [1..<length (mid_history m)]) \<le> 2 ^ 53"
  shows "pp_inventory_pnl (pnl_decomposition m) =
    of_int (sum_list (map (inventory_gain m) [1..<length (mid_history m)]))"
proof -
  have "length (inventory_history m) = length (mid_history m)" using assms(1) by (simp add: metrics_ok_def)
  moreover have "\<not> 2 \<le> n \<Longrightarrow> [1..<n] = []" for n :: nat by (cases n) auto
  ultimately show ?thesis
    using fold_fadd_exact [of 0 "inventory_gain m" "[1..<length (mid_history m)]"] assms(2)
    by (auto simp: pnl_decomposition_def inventory_sum_def add_fill_sums)
qed

end
