(* ===== verification/Price_Process.thy ===== *)
theory Price_Process
  imports Numpy
begin

text \<open>
  \<open>simulation/market/price_process.py\<close>: the generators of the fundamental price and the Hawkes
  process of the order flow. \<open>generate\<close> and \<open>step\<close> of a price process are two copies of the same
  recurrence; the locale \<open>online_process\<close> states what relates them and gives their
  agreement, for the three processes.
\<close>

section \<open>Paths\<close>

text \<open>Storing in an \<open>int64\<close> array raises when the value does not fit.\<close>

definition int64_ok :: "int \<Rightarrow> bool" where
  "int64_ok v \<longleftrightarrow> - (2 ^ 63) \<le> v \<and> v < 2 ^ 63"

fun path :: "('p \<Rightarrow> (int \<times> 'p) result) \<Rightarrow> nat \<Rightarrow> 'p \<Rightarrow> (int list \<times> 'p) result" where
  "path next 0 p = Inr ([], p)"
| "path next (Suc n) p =
     (case next p of
        Inl e \<Rightarrow> Inl e
      | Inr (v, p') \<Rightarrow>
          (if \<not> int64_ok v then Inl OverflowError
           else (case path next n p' of
                   Inl e \<Rightarrow> Inl e
                 | Inr (vs, p'') \<Rightarrow> Inr (v # vs, p''))))"

text \<open>\<open>np.zeros\<close> refuses a negative length.\<close>

definition generate_path :: "('p \<Rightarrow> (int \<times> 'p) result) \<Rightarrow> int \<Rightarrow> 'p \<Rightarrow> (int list \<times> 'p) result" where
  "generate_path next num_steps p = (if num_steps < 0 then Inl ValueError else path next (nat num_steps) p)"

lemma path_length: "path next n p = Inr (vs, p') \<Longrightarrow> length vs = n \<and> list_all int64_ok vs"
  by (induction n arbitrary: p vs) (auto split: sum.split_asm prod.split_asm if_split_asm)

section \<open>Geometric Brownian motion\<close>

record 'g gbm =
  gbm_initial_price :: int
  gbm_mu :: real
  gbm_sigma :: real
  gbm_dt :: real
  gbm_rng :: 'g
  gbm_current_price :: real

definition gbm_init :: "'g numpy \<Rightarrow> int \<Rightarrow> real \<Rightarrow> real \<Rightarrow> real \<Rightarrow> int \<Rightarrow> 'g gbm" where
  "gbm_init np initial mu sigma dt seed =
     \<lparr>gbm_initial_price = initial, gbm_mu = mu, gbm_sigma = sigma, gbm_dt = dt,
      gbm_rng = np_default_rng np seed, gbm_current_price = fint initial\<rparr>"

text \<open>One iteration of the loop of \<open>generate\<close>, on the local \<open>s\<close> and the generator.\<close>

definition gbm_advance :: "'g numpy \<Rightarrow> 'g gbm \<Rightarrow> real \<times> 'g \<Rightarrow> (int \<times> (real \<times> 'g)) result" where
  "gbm_advance np p = (\<lambda>(s, g).
     (case np_normal np 0 (np_sqrt np (gbm_dt p)) g of
        Inl e \<Rightarrow> Inl e
      | Inr (dw, g') \<Rightarrow>
          (let s' = fmul s (fadd (fadd 1 (fmul (gbm_mu p) (gbm_dt p))) (fmul (gbm_sigma p) dw))
           in Inr (py_round s', (s', g')))))"

definition gbm_generate :: "'g numpy \<Rightarrow> int \<Rightarrow> 'g gbm \<Rightarrow> (int list \<times> 'g gbm) result" where
  "gbm_generate np num_steps p =
     (case generate_path (gbm_advance np p) num_steps (fint (gbm_initial_price p), gbm_rng p) of
        Inl e \<Rightarrow> Inl e
      | Inr (vs, (s, g)) \<Rightarrow> Inr (vs, p\<lparr>gbm_rng := g\<rparr>))"

definition gbm_step :: "'g numpy \<Rightarrow> 'g gbm \<Rightarrow> (int \<times> 'g gbm) result" where
  "gbm_step np p =
     (case np_normal np 0 (np_sqrt np (gbm_dt p)) (gbm_rng p) of
        Inl e \<Rightarrow> Inl e
      | Inr (dw, g) \<Rightarrow>
          (let price = fmul (gbm_current_price p)
             (fadd (fadd 1 (fmul (gbm_mu p) (gbm_dt p))) (fmul (gbm_sigma p) dw))
           in Inr (py_round price, p\<lparr>gbm_rng := g, gbm_current_price := price\<rparr>)))"

section \<open>Ornstein-Uhlenbeck\<close>

record 'g ou =
  ou_initial_price :: int
  ou_kappa :: real
  ou_theta :: real
  ou_sigma :: real
  ou_dt :: real
  ou_rng :: 'g
  ou_current_price :: real

definition ou_init :: "'g numpy \<Rightarrow> int \<Rightarrow> real \<Rightarrow> int \<Rightarrow> real \<Rightarrow> real \<Rightarrow> int \<Rightarrow> 'g ou" where
  "ou_init np initial kappa theta sigma dt seed =
     \<lparr>ou_initial_price = initial, ou_kappa = kappa, ou_theta = fint theta, ou_sigma = sigma,
      ou_dt = dt, ou_rng = np_default_rng np seed, ou_current_price = fint initial\<rparr>"

definition ou_advance :: "'g numpy \<Rightarrow> 'g ou \<Rightarrow> real \<times> 'g \<Rightarrow> (int \<times> (real \<times> 'g)) result" where
  "ou_advance np p = (\<lambda>(s, g).
     (case np_normal np 0 (np_sqrt np (ou_dt p)) g of
        Inl e \<Rightarrow> Inl e
      | Inr (dw, g') \<Rightarrow>
          (let s' = fadd s (fadd (fmul (fmul (ou_kappa p) (fsub (ou_theta p) s)) (ou_dt p))
                                 (fmul (ou_sigma p) dw))
           in Inr (py_round s', (s', g')))))"

definition ou_generate :: "'g numpy \<Rightarrow> int \<Rightarrow> 'g ou \<Rightarrow> (int list \<times> 'g ou) result" where
  "ou_generate np num_steps p =
     (case generate_path (ou_advance np p) num_steps (fint (ou_initial_price p), ou_rng p) of
        Inl e \<Rightarrow> Inl e
      | Inr (vs, (s, g)) \<Rightarrow> Inr (vs, p\<lparr>ou_rng := g\<rparr>))"

definition ou_step :: "'g numpy \<Rightarrow> 'g ou \<Rightarrow> (int \<times> 'g ou) result" where
  "ou_step np p =
     (case np_normal np 0 (np_sqrt np (ou_dt p)) (ou_rng p) of
        Inl e \<Rightarrow> Inl e
      | Inr (dw, g) \<Rightarrow>
          (let price = fadd (ou_current_price p)
             (fadd (fmul (fmul (ou_kappa p) (fsub (ou_theta p) (ou_current_price p))) (ou_dt p))
                   (fmul (ou_sigma p) dw))
           in Inr (py_round price, p\<lparr>ou_rng := g, ou_current_price := price\<rparr>)))"

section \<open>Regime switching\<close>

datatype regime = CALM | VOLATILE | NEWS

text \<open>\<open>Regime(v)\<close> and \<open>int(regime)\<close>.\<close>

definition regime_of :: "int \<Rightarrow> regime result" where
  "regime_of v = (if v = 0 then Inr CALM else if v = 1 then Inr VOLATILE
     else if v = 2 then Inr NEWS else Inl ValueError)"

fun regime_index :: "regime \<Rightarrow> nat" where
  "regime_index CALM = 0"
| "regime_index VOLATILE = 1"
| "regime_index NEWS = 2"

record regime_params =
  rp_sigma :: real
  duration_mean :: int
  jump_size :: real

definition DEFAULT_REGIMES :: "(regime, regime_params) dict" where
  "DEFAULT_REGIMES =
     [(CALM, \<lparr>rp_sigma = 30, duration_mean = 200, jump_size = 0\<rparr>),
      (VOLATILE, \<lparr>rp_sigma = 100, duration_mean = 50, jump_size = 0\<rparr>),
      (NEWS, \<lparr>rp_sigma = 200, duration_mean = 10, jump_size = 50\<rparr>)]"

definition TRANSITION_MATRIX :: "real list list" where
  "TRANSITION_MATRIX =
     [[flit (95 / 100), flit (4 / 100), flit (1 / 100)],
      [flit (10 / 100), flit (85 / 100), flit (5 / 100)],
      [flit (30 / 100), flit (50 / 100), flit (20 / 100)]]"

record 'g regime_process =
  rs_initial_price :: int
  rs_kappa :: real
  rs_theta :: real
  rs_dt :: real
  rs_rng :: 'g
  rs_current_price :: real
  rs_regimes :: "(regime, regime_params) dict"
  current_regime :: regime
  steps_in_regime :: int

text \<open>\<open>regimes or DEFAULT_REGIMES\<close>: an empty dictionary counts as none given.\<close>

definition rs_init ::
  "'g numpy \<Rightarrow> int \<Rightarrow> real \<Rightarrow> int \<Rightarrow> (regime, regime_params) dict \<Rightarrow> real \<Rightarrow> int \<Rightarrow> 'g regime_process" where
  "rs_init np initial kappa theta regimes dt seed =
     \<lparr>rs_initial_price = initial, rs_kappa = kappa, rs_theta = fint theta, rs_dt = dt,
      rs_rng = np_default_rng np seed, rs_current_price = fint initial,
      rs_regimes = (if regimes = [] then DEFAULT_REGIMES else regimes),
      current_regime = CALM, steps_in_regime = 0\<rparr>"

definition regime_get :: "regime \<Rightarrow> 'g regime_process \<Rightarrow> regime_params result" where
  "regime_get r p = (case dict_get (rs_regimes p) r of None \<Rightarrow> Inl KeyError | Some v \<Rightarrow> Inr v)"

text \<open>Entering a regime; entering \<open>NEWS\<close> jumps.\<close>

definition enter_regime :: "'g numpy \<Rightarrow> regime \<Rightarrow> 'g regime_process \<Rightarrow> 'g regime_process result" where
  "enter_regime np r p =
     (let p1 = p\<lparr>current_regime := r, steps_in_regime := 0\<rparr>
      in if r = NEWS
         then (case regime_get NEWS p1 of
                 Inl e \<Rightarrow> Inl e
               | Inr params \<Rightarrow>
                   (case np_choice_of np [-1, 1] (rs_rng p1) of
                      Inl e \<Rightarrow> Inl e
                    | Inr (direction, g) \<Rightarrow>
                        Inr (p1\<lparr>rs_rng := g, rs_current_price :=
                          fadd (rs_current_price p1) (fmul (fint direction) (jump_size params))\<rparr>)))
         else Inr p1)"

definition maybe_switch_regime :: "'g numpy \<Rightarrow> 'g regime_process \<Rightarrow> 'g regime_process result" where
  "maybe_switch_regime np p =
     (let p1 = p\<lparr>steps_in_regime := steps_in_regime p + 1\<rparr>
      in case regime_get (current_regime p1) p1 of
           Inl e \<Rightarrow> Inl e
         | Inr params \<Rightarrow>
             (let switch_prob = fsub 1 (np_exp np
                    (rnd64 (of_int (- steps_in_regime p1) / of_int (max (duration_mean params) 1))));
                  (r, g1) = np_random np (rs_rng p1);
                  p2 = p1\<lparr>rs_rng := g1\<rparr>
              in if r < fmul switch_prob (flit (1 / 10))
                 then (case np_choice_p np 3 (TRANSITION_MATRIX ! regime_index (current_regime p2)) g1 of
                         Inl e \<Rightarrow> Inl e
                       | Inr (v, g2) \<Rightarrow>
                           (case regime_of v of
                              Inl e \<Rightarrow> Inl e
                            | Inr new_regime \<Rightarrow>
                                (let p3 = p2\<lparr>rs_rng := g2\<rparr>
                                 in if new_regime \<noteq> current_regime p3
                                    then enter_regime np new_regime p3 else Inr p3)))
                 else Inr p2))"

definition rs_step :: "'g numpy \<Rightarrow> 'g regime_process \<Rightarrow> (int \<times> 'g regime_process) result" where
  "rs_step np p =
     (case maybe_switch_regime np p of
        Inl e \<Rightarrow> Inl e
      | Inr p1 \<Rightarrow>
          (case regime_get (current_regime p1) p1 of
             Inl e \<Rightarrow> Inl e
           | Inr params \<Rightarrow>
               (case np_normal np 0 (np_sqrt np (rs_dt p1)) (rs_rng p1) of
                  Inl e \<Rightarrow> Inl e
                | Inr (dw, g) \<Rightarrow>
                    (let price = fadd (rs_current_price p1)
                       (fadd (fmul (fmul (rs_kappa p1) (fsub (rs_theta p1) (rs_current_price p1))) (rs_dt p1))
                             (fmul (rp_sigma params) dw))
                     in Inr (py_round price, p1\<lparr>rs_rng := g, rs_current_price := price\<rparr>)))))"

definition rs_generate :: "'g numpy \<Rightarrow> int \<Rightarrow> 'g regime_process \<Rightarrow> (int list \<times> 'g regime_process) result" where
  "rs_generate np num_steps p = generate_path (rs_step np) num_steps p"

section \<open>\<open>generate\<close> and \<open>step\<close> agree\<close>

text \<open>
  \<open>view\<close> is the part of the object the recurrence of \<open>generate\<close> works on; \<open>advance\<close> is one
  iteration of its loop.
\<close>

locale online_process =
  fixes step :: "'p \<Rightarrow> (int \<times> 'p) result"
    and advance :: "'p \<Rightarrow> 's \<Rightarrow> (int \<times> 's) result"
    and view :: "'p \<Rightarrow> 's"
  assumes step_advance: "advance p (view p) =
      (case step p of Inl e \<Rightarrow> Inl e | Inr (v, p') \<Rightarrow> Inr (v, view p'))"
    and advance_const: "step p = Inr (v, p') \<Longrightarrow> advance p' = advance p"
begin

lemma path_steps:
  "path (advance p) n (view p) =
     (case path step n p of Inl e \<Rightarrow> Inl e | Inr (vs, p') \<Rightarrow> Inr (vs, view p'))"
proof (induction n arbitrary: p)
  case (Suc n)
  show ?case
  proof (cases "step p")
    case (Inr r)
    obtain v p' where "r = (v, p')" by (cases r)
    with Inr have st: "step p = Inr (v, p')" by simp
    then show ?thesis using Suc.IH [of p'] advance_const [OF st] step_advance [of p]
      by (auto split: sum.splits prod.splits)
  qed (simp add: step_advance)
qed simp

lemma generate_steps:
  "generate_path (advance p) k (view p) =
     (case generate_path step k p of Inl e \<Rightarrow> Inl e | Inr (vs, p') \<Rightarrow> Inr (vs, view p'))"
  by (simp add: generate_path_def path_steps)

end

interpretation gbm: online_process "gbm_step np" "gbm_advance np" "\<lambda>p. (gbm_current_price p, gbm_rng p)"
  by unfold_locales
    (auto simp: gbm_step_def gbm_advance_def Let_def fun_eq_iff split: sum.splits prod.splits)

interpretation ou: online_process "ou_step np" "ou_advance np" "\<lambda>p. (ou_current_price p, ou_rng p)"
  by unfold_locales
    (auto simp: ou_step_def ou_advance_def Let_def fun_eq_iff split: sum.splits prod.splits)

interpretation rs: online_process "rs_step np" "\<lambda>_. rs_step np" "\<lambda>p. p"
  by unfold_locales (auto split: sum.splits prod.splits)

section \<open>Regimes stay among the configured ones\<close>

definition regimes_ok :: "'g regime_process \<Rightarrow> bool" where
  "regimes_ok p \<longleftrightarrow> (\<forall>r. dict_get (rs_regimes p) r \<noteq> None) \<and> 0 \<le> steps_in_regime p"

lemma regimes_ok_init: "regimes_ok (rs_init np initial kappa theta [] dt seed)"
proof -
  have "dict_get DEFAULT_REGIMES r \<noteq> None" for r
    by (cases r) (simp_all add: DEFAULT_REGIMES_def dict_get_def)
  then show ?thesis by (simp add: regimes_ok_def rs_init_def)
qed

lemma regimes_ok_switch:
  assumes "maybe_switch_regime np p = Inr p'" "regimes_ok p"
  shows "regimes_ok p' \<and> rs_regimes p' = rs_regimes p \<and>
    (steps_in_regime p' = 0 \<and> current_regime p' \<noteq> current_regime p \<or>
     steps_in_regime p' = steps_in_regime p + 1 \<and> current_regime p' = current_regime p \<and>
       rs_current_price p' = rs_current_price p)"
  using assms
  by (auto simp: maybe_switch_regime_def enter_regime_def Let_def regimes_ok_def
      split: sum.split_asm prod.split_asm if_split_asm)

section \<open>Hawkes process\<close>

record 'g hawkes =
  hk_mu :: real
  hk_alpha :: real
  hk_beta :: real
  hk_rng :: 'g
  event_times :: "real list"
  hk_time :: real

definition hawkes_init :: "'g numpy \<Rightarrow> real \<Rightarrow> real \<Rightarrow> real \<Rightarrow> int \<Rightarrow> 'g hawkes result" where
  "hawkes_init np mu alpha beta seed =
     (if beta = 0 then Inl ZeroDivisionError
      else if \<not> fdiv alpha beta < 1 then Inl AssertionError
      else Inr \<lparr>hk_mu = mu, hk_alpha = alpha, hk_beta = beta, hk_rng = np_default_rng np seed,
                event_times = [], hk_time = 0\<rparr>)"

definition branching_ratio :: "'g hawkes \<Rightarrow> real" where
  "branching_ratio h = fdiv (hk_alpha h) (hk_beta h)"

definition intensity :: "'g numpy \<Rightarrow> 'g hawkes \<Rightarrow> real" where
  "intensity np h =
     foldl (\<lambda>lam ti. fadd lam (fmul (hk_alpha h)
        (np_exp np (fmul (- hk_beta h) (fsub (hk_time h) ti))))) (hk_mu h) (event_times h)"

text \<open>The thinning loop: \<open>n\<close> candidates, accepted events appended at the current time.\<close>

fun thin :: "'g numpy \<Rightarrow> real \<Rightarrow> nat \<Rightarrow> 'g hawkes \<Rightarrow> nat \<times> 'g hawkes" where
  "thin np lam_bar 0 h = (0, h)"
| "thin np lam_bar (Suc n) h =
     (let (r, g) = np_random np (hk_rng h);
          h1 = h\<lparr>hk_rng := g\<rparr>
      in if r < fdiv (intensity np h1) (max lam_bar (flit (1 / 10 ^ 10)))
         then (case thin np lam_bar n (h1\<lparr>event_times := event_times h1 @ [hk_time h1]\<rparr>) of
                 (k, h2) \<Rightarrow> (Suc k, h2))
         else thin np lam_bar n h1)"

definition hawkes_step :: "'g numpy \<Rightarrow> real \<Rightarrow> 'g hawkes \<Rightarrow> (nat \<times> 'g hawkes) result" where
  "hawkes_step np dt h =
     (let now = fadd (hk_time h) dt;
          cutoff = fsub now (fdiv 10 (hk_beta h));
          h1 = h\<lparr>hk_time := now, event_times := filter (\<lambda>t. t > cutoff) (event_times h)\<rparr>;
          lam_bar = fadd (intensity np h1) (hk_alpha h)
      in case np_poisson np (fmul lam_bar dt) (hk_rng h1) of
           Inl e \<Rightarrow> Inl e
         | Inr (n, g) \<Rightarrow> Inr (thin np lam_bar (nat n) (h1\<lparr>hk_rng := g\<rparr>)))"

definition hawkes_reset :: "'g hawkes \<Rightarrow> 'g hawkes" where
  "hawkes_reset h = h\<lparr>event_times := [], hk_time := 0\<rparr>"

text \<open>Parameters under which the process is a counting process with a background rate.\<close>

definition hawkes_ok :: "'g hawkes \<Rightarrow> bool" where
  "hawkes_ok h \<longleftrightarrow> 0 \<le> hk_mu h \<and> 0 \<le> hk_alpha h \<and> 0 < hk_beta h \<and> is_float (hk_mu h) \<and>
     is_float (hk_time h) \<and> 0 \<le> hk_time h \<and>
     (\<forall>t \<in> set (event_times h). is_float t \<and> t \<le> hk_time h)"

lemma intensity_ge_from:
  assumes "numpy_ok np" "0 \<le> alpha" "is_float lam"
  shows "lam \<le> foldl (\<lambda>lam ti. fadd lam (fmul alpha (np_exp np (k ti)))) lam ts"
  using assms(3)
proof (induction ts arbitrary: lam)
  case (Cons t ts)
  have "lam \<le> fadd lam (fmul alpha (np_exp np (k t)))"
    using Cons.prems assms(1,2) by (intro fadd_grow fmul_nonneg numpy_exp(2)) auto
  then show ?case using Cons.IH [of "fadd lam (fmul alpha (np_exp np (k t)))"] by simp
qed simp

lemma intensity_ge_mu: "numpy_ok np \<Longrightarrow> hawkes_ok h \<Longrightarrow> hk_mu h \<le> intensity np h"
  by (simp add: intensity_def hawkes_ok_def intensity_ge_from)

text \<open>An accepted candidate raises the intensity seen by the next one by \<open>alpha\<close>, up to rounding.\<close>

lemma intensity_accept:
  "numpy_ok np \<Longrightarrow> intensity np (h\<lparr>event_times := event_times h @ [hk_time h]\<rparr>) =
     fadd (intensity np h) (rnd64 (hk_alpha h))"
  by (simp add: intensity_def fsub_def fmul_def numpy_exp)

lemma thin_spec:
  assumes "thin np lam_bar n h = (k, h')"
  shows "k \<le> n \<and> event_times h' = event_times h @ replicate k (hk_time h) \<and> hk_time h' = hk_time h \<and>
    hk_mu h' = hk_mu h \<and> hk_alpha h' = hk_alpha h \<and> hk_beta h' = hk_beta h"
  using assms
proof (induction n arbitrary: h k)
  case (Suc n)
  then show ?case
    by (fastforce simp: Let_def split: prod.split_asm if_split_asm)
qed simp

lemma hawkes_step_cases:
  assumes "hawkes_step np dt h = Inr (k, h')"
  shows "hk_time h' = fadd (hk_time h) dt \<and>
    event_times h' = filter (\<lambda>t. t > fsub (hk_time h') (fdiv 10 (hk_beta h))) (event_times h)
      @ replicate k (hk_time h') \<and>
    hk_mu h' = hk_mu h \<and> hk_alpha h' = hk_alpha h \<and> hk_beta h' = hk_beta h"
  using assms by (auto simp: hawkes_step_def Let_def split: sum.split_asm dest!: thin_spec)

lemma hawkes_ok_step:
  assumes "hawkes_step np dt h = Inr (k, h')" "hawkes_ok h" "0 \<le> dt"
  shows "hawkes_ok h'"
proof -
  note s = hawkes_step_cases [OF assms(1)]
  have "hk_time h \<le> fadd (hk_time h) dt" using assms(2,3) by (simp add: fadd_grow hawkes_ok_def)
  then show ?thesis using s assms(2) by (fastforce simp: hawkes_ok_def)
qed

lemma hawkes_step_total:
  assumes "numpy_ok np" "hawkes_ok h" "0 \<le> dt"
  shows "\<exists>k h'. hawkes_step np dt h = Inr (k, h')"
proof -
  let ?now = "fadd (hk_time h) dt"
  let ?h1 = "h\<lparr>hk_time := ?now, event_times :=
      filter (\<lambda>t. t > fsub ?now (fdiv 10 (hk_beta h))) (event_times h)\<rparr>"
  let ?bar = "fadd (intensity np ?h1) (hk_alpha h)"
  have "hk_time h \<le> ?now" using assms(2,3) by (simp add: fadd_grow hawkes_ok_def)
  then have "hawkes_ok ?h1" using assms(2) by (fastforce simp: hawkes_ok_def)
  then have "0 \<le> intensity np ?h1"
    using intensity_ge_mu [OF assms(1)] by (fastforce simp: hawkes_ok_def)
  then have "0 \<le> ?bar" using assms(2) by (auto simp: hawkes_ok_def intro!: fadd_nonneg)
  then have "0 \<le> fmul ?bar dt" using assms(3) by (simp add: fmul_nonneg)
  then obtain n g where "np_poisson np (fmul ?bar dt) (hk_rng h) = Inr (n, g)"
    using numpy_poisson_total [OF assms(1)] by blast
  then show ?thesis by (auto simp: hawkes_step_def Let_def)
qed

section \<open>The processes do not raise\<close>

lemma flit_unit: "0 \<le> x \<Longrightarrow> x \<le> 1 \<Longrightarrow> 0 \<le> flit x \<and> \<bar>flit x - x\<bar> \<le> 1 / 2 ^ 53"
  using rnd64_error_unit [of x] flit_nonneg [of x] by (simp add: flit_def)

lemma flit_sum:
  fixes x y z :: real
  assumes "0 \<le> x" "0 \<le> y" "0 \<le> z" "x + y + z = 1"
  shows "distribution 3 [flit x, flit y, flit z]"
proof -
  have "x \<le> 1" "y \<le> 1" "z \<le> 1" using assms by auto
  note e = flit_unit [OF assms(1) this(1)] flit_unit [OF assms(2) this(2)] flit_unit [OF assms(3) this(3)]
  have "\<bar>flit x + (flit y + flit z) - 1\<bar> \<le> 3 * (1 / 2 ^ 53)" using e assms(4) by arith
  also have "\<dots> \<le> 1 / 10 ^ 9" by simp
  finally show ?thesis using e by (simp add: distribution_def)
qed

lemma transition_row: "distribution 3 (TRANSITION_MATRIX ! regime_index r)"
  by (cases r; simp only: TRANSITION_MATRIX_def regime_index.simps nth_Cons_0 nth_Cons_numeral nth_Cons_Suc
      One_nat_def numeral_2_eq_2) (rule flit_sum; simp)+

lemma gbm_step_total:
  assumes "numpy_ok np" "0 \<le> gbm_dt p"
  shows "\<exists>v p'. gbm_step np p = Inr (v, p') \<and> gbm_dt p' = gbm_dt p"
  using numpy_normal [OF assms(1) numpy_sqrt [OF assms], of 0 "gbm_rng p"]
  by (auto simp: gbm_step_def Let_def)

lemma ou_step_total:
  assumes "numpy_ok np" "0 \<le> ou_dt p"
  shows "\<exists>v p'. ou_step np p = Inr (v, p') \<and> ou_dt p' = ou_dt p"
  using numpy_normal [OF assms(1) numpy_sqrt [OF assms], of 0 "ou_rng p"]
  by (auto simp: ou_step_def Let_def)

lemma regime_get_total: "regimes_ok p \<Longrightarrow> \<exists>params. regime_get r p = Inr params"
  unfolding regimes_ok_def regime_get_def by (metis (no_types, lifting) option.case_eq_if)

lemma enter_regime_total:
  assumes "numpy_ok np" "regimes_ok p"
  shows "\<exists>p'. enter_regime np r p = Inr p' \<and> rs_dt p' = rs_dt p"
proof -
  let ?p = "p\<lparr>current_regime := r, steps_in_regime := 0\<rparr>"
  obtain params where "regime_get NEWS ?p = Inr params"
    using regime_get_total [of ?p] assms(2) by (auto simp: regimes_ok_def)
  moreover obtain v g where "np_choice_of np [-1, 1] (rs_rng p) = Inr (v, g)"
    using numpy_choice_of_total [OF assms(1), of "[-1, 1]"] by blast
  ultimately show ?thesis by (cases "r = NEWS") (simp_all add: enter_regime_def Let_def)
qed

lemma maybe_switch_total:
  assumes np: "numpy_ok np" and ok: "regimes_ok p"
  shows "\<exists>p'. maybe_switch_regime np p = Inr p' \<and> rs_dt p' = rs_dt p"
proof -
  let ?p1 = "p\<lparr>steps_in_regime := steps_in_regime p + 1\<rparr>"
  obtain params where params: "regime_get (current_regime p) ?p1 = Inr params"
    using regime_get_total [of ?p1] ok by (auto simp: regimes_ok_def)
  obtain r g1 where r: "np_random np (rs_rng p) = (r, g1)" by fastforce
  obtain v g2 where v: "np_choice_p np 3 (TRANSITION_MATRIX ! regime_index (current_regime p)) g1 = Inr (v, g2)"
    using numpy_choice_p_total [OF np _ transition_row] by (metis zero_less_numeral)
  then have "0 \<le> v \<and> v < 3" by (rule numpy_choice_p [OF np])
  then have "v = 0 \<or> v = 1 \<or> v = 2" by auto
  then obtain nr where nr: "regime_of v = Inr nr" by (force simp: regime_of_def)
  let ?p3 = "?p1\<lparr>rs_rng := g2\<rparr>"
  have "regimes_ok ?p3" using ok by (simp add: regimes_ok_def)
  then obtain p' where "enter_regime np nr ?p3 = Inr p'" "rs_dt p' = rs_dt p"
    using enter_regime_total [OF np] by fastforce
  then show ?thesis using params r v nr by (auto simp: maybe_switch_regime_def Let_def)
qed

lemma rs_step_total:
  assumes np: "numpy_ok np" and ok: "regimes_ok p" "0 \<le> rs_dt p"
  shows "\<exists>v p'. rs_step np p = Inr (v, p') \<and> regimes_ok p' \<and> rs_dt p' = rs_dt p"
proof -
  obtain p1 where p1: "maybe_switch_regime np p = Inr p1" "rs_dt p1 = rs_dt p"
    using maybe_switch_total [OF np ok(1)] by blast
  have ok1: "regimes_ok p1" using regimes_ok_switch [OF p1(1) ok(1)] by simp
  obtain params where "regime_get (current_regime p1) p1 = Inr params" using regime_get_total [OF ok1] by blast
  moreover obtain dw g where "np_normal np 0 (np_sqrt np (rs_dt p1)) (rs_rng p1) = Inr (dw, g)"
    using numpy_normal [OF np numpy_sqrt [OF np]] ok(2) p1(2) by metis
  ultimately show ?thesis using p1 ok1 by (simp add: rs_step_def Let_def regimes_ok_def)
qed

end
