(* ===== verification/Ws_Bridge.thy ===== *)
theory Ws_Bridge
  imports Arena_Prelude
begin

text \<open>
  The part of \<open>simulation/market/ws_bridge.py\<close> the simulator talks to: the two queues between the
  simulation thread and the WebSocket thread. Messages are carried as JSON values; the text
  between \<open>json.dumps\<close> and \<open>json.loads\<close> is not modelled, and a text that \<open>json.loads\<close> refuses is an
  exception in the queue. Also here: reading an integer out of a JSON value, as \<open>int(...)\<close>
  does.
\<close>

section \<open>JSON values\<close>

datatype json =
    JNull
  | JBool bool
  | JInt int
  | JFloat real
  | JStr string
  | JList "json list"
  | JObj "(string \<times> json) list"

text \<open>\<open>data.get(key, default)\<close>: only an object has the method.\<close>

fun json_get :: "string \<Rightarrow> json \<Rightarrow> json \<Rightarrow> json result" where
  "json_get key dflt (JObj d) = Inr (case dict_get d key of None \<Rightarrow> dflt | Some v \<Rightarrow> v)"
| "json_get key dflt _ = Inl AttributeError"

section \<open>\<open>int(...)\<close>\<close>

definition char_code :: "char \<Rightarrow> nat" where
  "char_code c = of_char c"

definition is_space :: "char \<Rightarrow> bool" where
  "is_space c \<longleftrightarrow> (let n = char_code c in 9 \<le> n \<and> n \<le> 13 \<or> 28 \<le> n \<and> n \<le> 32 \<or> n = 133 \<or> n = 160)"

definition is_digit :: "char \<Rightarrow> bool" where
  "is_digit c \<longleftrightarrow> 48 \<le> char_code c \<and> char_code c \<le> 57"

definition strip :: "string \<Rightarrow> string" where
  "strip s = rev (dropWhile is_space (rev (dropWhile is_space s)))"

text \<open>Digits, with single underscores between them.\<close>

fun read_digits :: "int \<Rightarrow> bool \<Rightarrow> string \<Rightarrow> int option" where
  "read_digits acc seen [] = (if seen then Some acc else None)"
| "read_digits acc seen (c # cs) =
     (if is_digit c then read_digits (10 * acc + int (char_code c - 48)) True cs
      else if c = CHR ''_'' \<and> seen then read_digits acc False cs
      else None)"

definition int_of_string :: "string \<Rightarrow> int result" where
  "int_of_string s =
     (let t = strip s;
          (sign, ds) = (case t of
             [] \<Rightarrow> (1, [])
           | c # cs \<Rightarrow> if c = CHR ''-'' then (- 1, cs) else if c = CHR ''+'' then (1, cs) else (1, t))
      in if length (filter is_digit ds) > 4300 then Inl ValueError
         else (case read_digits 0 False ds of None \<Rightarrow> Inl ValueError | Some v \<Rightarrow> Inr (sign * v)))"

fun int_of_json :: "json \<Rightarrow> int result" where
  "int_of_json (JInt i) = Inr i"
| "int_of_json (JFloat x) = Inr (py_int x)"
| "int_of_json (JBool b) = Inr (if b then 1 else 0)"
| "int_of_json (JStr s) = int_of_string s"
| "int_of_json _ = Inl TypeError"

section \<open>Decimal numerals\<close>

text \<open>The digits an f-string prints for a count.\<close>

fun show_nat :: "nat \<Rightarrow> string" where
  "show_nat n =
     (if n < 10 then [char_of (48 + n)] else show_nat (n div 10) @ [char_of (48 + n mod 10)])"

declare show_nat.simps [simp del]

lemma char_code_digit [simp]: "n < 10 \<Longrightarrow> char_code (char_of (48 + n)) = 48 + n"
  by (simp add: char_code_def)

lemma show_nat_value: "foldl (\<lambda>a c. 10 * a + int (char_code c - 48)) 0 (show_nat n) = int n"
proof (induction n rule: show_nat.induct)
  case (1 n)
  show ?case
  proof (cases "n < 10")
    case False
    then have "show_nat n = show_nat (n div 10) @ [char_of (48 + n mod 10)]"
      by (subst show_nat.simps) simp
    then show ?thesis using 1 [OF False] div_mult_mod_eq [of "int n" 10]
      by (simp add: zdiv_int zmod_int)
  qed (simp add: show_nat.simps)
qed

lemma show_nat_inject: "show_nat m = show_nat n \<longleftrightarrow> m = n"
  by (metis show_nat_value of_nat_eq_iff)

section \<open>The bridge\<close>

text \<open>
  \<open>arrivals\<close> is what the WebSocket thread puts into the incoming queue before each of the next
  polls; \<open>loop_up\<close> is whether that thread has set up its event loop.
\<close>

record ws_bridge =
  ws_port :: int
  http_port :: int
  loop_up :: bool
  message_queue :: "json list"
  incoming_queue :: "json result list"
  arrivals :: "json result list list"

definition ws_init :: "int \<Rightarrow> int \<Rightarrow> ws_bridge" where
  "ws_init wp hp = \<lparr>ws_port = wp, http_port = hp, loop_up = False, message_queue = [],
     incoming_queue = [], arrivals = []\<rparr>"

definition ws_push :: "json \<Rightarrow> ws_bridge \<Rightarrow> ws_bridge" where
  "ws_push data b = (if loop_up b then b\<lparr>message_queue := message_queue b @ [data]\<rparr> else b)"

definition ws_arrive :: "ws_bridge \<Rightarrow> ws_bridge" where
  "ws_arrive b = (case arrivals b of
      [] \<Rightarrow> b
    | ms # rest \<Rightarrow> b\<lparr>incoming_queue := incoming_queue b @ ms, arrivals := rest\<rparr>)"

text \<open>The loop of \<open>get_nowait\<close> until the queue is empty.\<close>

definition poll_incoming :: "ws_bridge \<Rightarrow> json result list \<times> ws_bridge" where
  "poll_incoming b = (let b' = ws_arrive b in (incoming_queue b', b'\<lparr>incoming_queue := []\<rparr>))"

end
