(* ===== verification/Sim_State.thy ===== *)
theory Sim_State
  imports Event_Queue Engine_Protocol Market_Maker Latency_Model Metrics Price_Process Ws_Bridge
begin

text \<open>
  The state of \<open>simulation/simulator.py\<close> and its construction: the configuration, the agents
  behind the common interface of \<open>BaseAgent\<close>, the price process, and \<open>Simulator.__init__\<close>,
  \<open>_create_price_process\<close> and \<open>_create_agents\<close>.
\<close>

section \<open>Configuration\<close>

text \<open>
  What \<open>yaml.safe_load\<close> returns, by section: a value that the code reads with \<open>.get\<close> is an
  option. A missing section read with \<open>.get(..., {})\<close> is one whose values are all absent; the
  two sections read with \<open>[...]\<close> are options themselves.
\<close>

record price_config =
  pc_type :: "string option"
  pc_initial_price :: "int option"
  pc_mu :: "real option"
  pc_sigma :: "real option"
  pc_kappa :: "real option"
  pc_theta :: "int option"
  pc_seed :: "int option"

record simulation_config =
  sc_steps :: "int option"
  sc_dt :: "real option"

record mm_config =
  mc_gamma :: "real option"
  mc_kappa :: "real option"
  mc_levels :: "int option"
  mc_level_spacing :: "int option"
  mc_base_qty :: "int option"
  mc_inventory_limit :: "int option"

record noise_config =
  nc_order_prob :: "real option"
  nc_spread_range :: "int option"
  nc_min_qty :: "int option"
  nc_max_qty :: "int option"
  nc_market_order_prob :: "real option"

record informed_config =
  ic_threshold :: "int option"
  ic_aggression :: "real option"
  ic_min_qty :: "int option"
  ic_max_qty :: "int option"

record momentum_config =
  tc_fast_period :: "int option"
  tc_slow_period :: "int option"
  tc_trade_prob :: "real option"
  tc_min_qty :: "int option"
  tc_max_qty :: "int option"

record arb_config =
  lc_threshold :: "int option"
  lc_max_position :: "int option"
  lc_trade_prob :: "real option"

record flow_config =
  fc_model :: "string option"
  fc_mu :: "real option"
  fc_alpha :: "real option"
  fc_beta :: "real option"

record sim_config =
  cfg_price :: "price_config option"
  cfg_simulation :: "simulation_config option"
  cfg_num_noise :: "int option"
  cfg_mm :: mm_config
  cfg_noise :: noise_config
  cfg_informed :: informed_config
  cfg_momentum :: momentum_config
  cfg_arb :: arb_config
  cfg_flow :: flow_config
  cfg_host :: "string option"
  cfg_port :: "int option"

text \<open>\<open>d.get(key, default)\<close> and \<open>d[key]\<close>.\<close>

definition cfg_get :: "'a option \<Rightarrow> 'a \<Rightarrow> 'a" where
  "cfg_get v d = (case v of None \<Rightarrow> d | Some x \<Rightarrow> x)"

definition cfg_at :: "'a option \<Rightarrow> 'a result" where
  "cfg_at v = (case v of None \<Rightarrow> Inl KeyError | Some x \<Rightarrow> Inr x)"

section \<open>Agents\<close>

datatype 'g agent =
    MM_Agent "'g market_maker"
  | Noise_Agent "'g noise_trader"
  | Informed_Agent "'g informed_trader"
  | Momentum_Agent "'g momentum_trader"
  | Arb_Agent "'g latency_arb"
  | Human_Agent human_agent

fun agent_base :: "'g agent \<Rightarrow> base_agent" where
  "agent_base (MM_Agent a) = base_agent.truncate a"
| "agent_base (Noise_Agent a) = base_agent.truncate a"
| "agent_base (Informed_Agent a) = base_agent.truncate a"
| "agent_base (Momentum_Agent a) = base_agent.truncate a"
| "agent_base (Arb_Agent a) = base_agent.truncate a"
| "agent_base (Human_Agent a) = base_agent.truncate a"

definition wrap_update ::
  "('a \<Rightarrow> 'g agent) \<Rightarrow> (agent_order list \<times> 'a) result \<Rightarrow> (agent_order list \<times> 'g agent) result" where
  "wrap_update w r = (case r of Inl e \<Rightarrow> Inl e | Inr (os, a) \<Rightarrow> Inr (os, w a))"

fun agent_on_book_update ::
  "'g numpy \<Rightarrow> book_update_msg \<Rightarrow> int \<Rightarrow> 'g agent \<Rightarrow> (agent_order list \<times> 'g agent) result" where
  "agent_on_book_update np u n (MM_Agent a) = wrap_update MM_Agent (mm_on_book_update np u n a)"
| "agent_on_book_update np u n (Noise_Agent a) = wrap_update Noise_Agent (noise_on_book_update np u n a)"
| "agent_on_book_update np u n (Informed_Agent a) = wrap_update Informed_Agent (informed_on_book_update np u n a)"
| "agent_on_book_update np u n (Momentum_Agent a) = wrap_update Momentum_Agent (momentum_on_book_update np u n a)"
| "agent_on_book_update np u n (Arb_Agent a) = wrap_update Arb_Agent (latency_arb_on_book_update np u n a)"
| "agent_on_book_update np u n (Human_Agent a) = wrap_update Human_Agent (human_on_book_update u n a)"

fun agent_on_fill :: "fill_msg \<Rightarrow> 'g agent \<Rightarrow> 'g agent" where
  "agent_on_fill f (MM_Agent a) = MM_Agent (on_fill f a)"
| "agent_on_fill f (Noise_Agent a) = Noise_Agent (on_fill f a)"
| "agent_on_fill f (Informed_Agent a) = Informed_Agent (on_fill f a)"
| "agent_on_fill f (Momentum_Agent a) = Momentum_Agent (on_fill f a)"
| "agent_on_fill f (Arb_Agent a) = Arb_Agent (on_fill f a)"
| "agent_on_fill f (Human_Agent a) = Human_Agent (on_fill f a)"

text \<open>\<open>hasattr(agent, "set_true_price")\<close> holds for two of the classes.\<close>

fun agent_set_true_price :: "int \<Rightarrow> 'g agent \<Rightarrow> 'g agent" where
  "agent_set_true_price p (Informed_Agent a) = Informed_Agent (informed_set_true_price p a)"
| "agent_set_true_price p (Arb_Agent a) = Arb_Agent (latency_arb_set_true_price p a)"
| "agent_set_true_price p a = a"

text \<open>The cancels an agent has pending, and the agent after \<open>agent._pending_cancels = []\<close>.\<close>

fun agent_pending_cancels :: "'g agent \<Rightarrow> int list" where
  "agent_pending_cancels (MM_Agent a) = (case mm_pending_cancels a of None \<Rightarrow> [] | Some ids \<Rightarrow> ids)"
| "agent_pending_cancels (Human_Agent a) = ha_pending_cancels a"
| "agent_pending_cancels _ = []"

fun agent_clear_cancels :: "'g agent \<Rightarrow> 'g agent" where
  "agent_clear_cancels (MM_Agent a) = MM_Agent (a\<lparr>mm_pending_cancels := Some []\<rparr>)"
| "agent_clear_cancels (Human_Agent a) = Human_Agent (a\<lparr>ha_pending_cancels := []\<rparr>)"
| "agent_clear_cancels a = a"

fun agent_inv :: "'g agent \<Rightarrow> bool" where
  "agent_inv (Human_Agent a) = human_ok a"
| "agent_inv _ = True"

lemma agent_base_on_fill: "agent_base (agent_on_fill f a) = on_fill f (agent_base a)"
  by (cases a) (simp_all add: on_fill_truncate)

interpretation agent: trading_agent agent_base "agent_on_book_update np" agent_on_fill agent_inv
proof (unfold_locales, goal_cases)
  case (1 f s)
  show ?case by (rule agent_base_on_fill)
next
  case (2 s f)
  then show ?case by (cases s) (auto intro: human.fill_inv)
next
  case (3 u n s os s')
  then show ?case
    by (cases s) (auto simp: wrap_update_def split: sum.split_asm prod.split_asm
        dest: mm.update_ok noise.update_ok informed.update_ok momentum.update_ok arb.update_ok human.update_ok)
next
  case (4 u n s os s')
  then show ?case
    by (cases s) (auto simp: wrap_update_def split: sum.split_asm prod.split_asm
        dest: mm.update_ledger noise.update_ledger informed.update_ledger momentum.update_ledger
          arb.update_ledger human.update_ledger)
next
  case (5 u n s os s')
  then show ?case
    by (cases s) (auto simp: wrap_update_def split: sum.split_asm prod.split_asm
        dest: mm.update_forward noise.update_forward informed.update_forward momentum.update_forward
          arb.update_forward human.update_forward)
next
  case (6 u n s os s' o1)
  then show ?case
    by (cases s) (auto simp: wrap_update_def split: sum.split_asm prod.split_asm
        dest: mm.update_tracked noise.update_tracked informed.update_tracked momentum.update_tracked
          arb.update_tracked human.update_tracked)
qed

lemma agent_base_set_true_price [simp]: "agent_base (agent_set_true_price p a) = agent_base a"
  by (cases a) (simp_all add: informed_set_true_price_def latency_arb_set_true_price_def base_agent.truncate_def)

lemma agent_base_clear_cancels [simp]: "agent_base (agent_clear_cancels a) = agent_base a"
  by (cases a) (simp_all add: base_agent.truncate_def)

lemma agent_inv_set_true_price [simp]: "agent_inv (agent_set_true_price p a) = agent_inv a"
  by (cases a) simp_all

lemma agent_inv_clear_cancels [simp]: "agent_inv (agent_clear_cancels a) = agent_inv a"
  by (cases a) (simp_all add: human_ok_def)

section \<open>Price process\<close>

datatype 'g price_process = GBM_Process "'g gbm" | RS_Process "'g regime_process" | OU_Process "'g ou"

fun price_step :: "'g numpy \<Rightarrow> 'g price_process \<Rightarrow> (int \<times> 'g price_process) result" where
  "price_step np (GBM_Process p) =
     (case gbm_step np p of Inl e \<Rightarrow> Inl e | Inr (v, p') \<Rightarrow> Inr (v, GBM_Process p'))"
| "price_step np (RS_Process p) =
     (case rs_step np p of Inl e \<Rightarrow> Inl e | Inr (v, p') \<Rightarrow> Inr (v, RS_Process p'))"
| "price_step np (OU_Process p) =
     (case ou_step np p of Inl e \<Rightarrow> Inl e | Inr (v, p') \<Rightarrow> Inr (v, OU_Process p'))"

definition create_price_process :: "'g numpy \<Rightarrow> sim_config \<Rightarrow> 'g price_process result" where
  "create_price_process np cfg =
     (case cfg_at (cfg_price cfg) of
        Inl e \<Rightarrow> Inl e
      | Inr pp \<Rightarrow>
          (let ty = cfg_get (pc_type pp) ''ou''
           in case cfg_at (pc_initial_price pp) of
                Inl e \<Rightarrow> Inl e
              | Inr initial \<Rightarrow>
                  Inr (if ty = ''gbm'' then
                         GBM_Process (gbm_init np initial (cfg_get (pc_mu pp) 0)
                           (cfg_get (pc_sigma pp) (flit (5 / 1000))) (flit (1 / 1000)) (cfg_get (pc_seed pp) 42))
                       else if ty = ''regime_switching'' then
                         RS_Process (rs_init np initial (cfg_get (pc_kappa pp) (flit (3 / 10)))
                           (cfg_get (pc_theta pp) initial) [] (flit (1 / 1000)) (cfg_get (pc_seed pp) 42))
                       else
                         OU_Process (ou_init np initial (cfg_get (pc_kappa pp) (flit (5 / 10)))
                           (cfg_get (pc_theta pp) initial) (cfg_get (pc_sigma pp) 50) (flit (1 / 1000))
                           (cfg_get (pc_seed pp) 42)))))"

section \<open>The simulator\<close>

datatype 'g latency = Model_Latency "'g latency_model" | Zero_Latency

fun latency_seconds :: "'g numpy \<Rightarrow> 'g latency \<Rightarrow> (real \<times> 'g latency) result" where
  "latency_seconds np Zero_Latency = Inr (0, Zero_Latency)"
| "latency_seconds np (Model_Latency m) =
     (case sample_seconds np m of Inl e \<Rightarrow> Inl e | Inr (d, m') \<Rightarrow> Inr (d, Model_Latency m'))"

lemma latency_seconds_nonneg: "latency_seconds np l = Inr (d, l') \<Longrightarrow> 0 \<le> d \<and> is_float d"
  by (cases l) (auto split: sum.split_asm prod.split_asm dest: sample_seconds_nonneg)

record 'g simulator =
  sim_cfg :: sim_config
  sim_running :: bool
  current_time :: real
  event_queue :: event_queue
  sim_tcp :: "tcp_client option"
  sim_ws :: "ws_bridge option"
  sim_price :: "'g price_process"
  sim_hawkes :: "'g hawkes option"
  sim_metrics :: metrics_engine
  sim_agents :: "(string, 'g agent) dict"
  agent_latencies :: "(string, 'g latency) dict"
  current_mid :: int
  last_book_update :: "book_update_msg option"
  step_count :: int
  total_steps :: int

definition sim_init :: "'g numpy \<Rightarrow> sim_config \<Rightarrow> 'g simulator result" where
  "sim_init np cfg =
     (case create_price_process np cfg of
        Inl e \<Rightarrow> Inl e
      | Inr pp \<Rightarrow>
          (case cfg_at (cfg_price cfg) of
             Inl e \<Rightarrow> Inl e
           | Inr ppc \<Rightarrow>
               (case cfg_at (pc_initial_price ppc) of
                  Inl e \<Rightarrow> Inl e
                | Inr initial \<Rightarrow>
                    (case cfg_at (cfg_simulation cfg) of
                       Inl e \<Rightarrow> Inl e
                     | Inr sc \<Rightarrow>
                         (case cfg_at (sc_steps sc) of
                            Inl e \<Rightarrow> Inl e
                          | Inr steps \<Rightarrow>
                              Inr \<lparr>sim_cfg = cfg, sim_running = False, current_time = 0,
                                   event_queue = eq_init, sim_tcp = None, sim_ws = None,
                                   sim_price = pp, sim_hawkes = None,
                                   sim_metrics = metrics_init 100, sim_agents = [],
                                   agent_latencies = [], current_mid = initial,
                                   last_book_update = None, step_count = 0,
                                   total_steps = steps\<rparr>)))))"

definition set_ws_bridge :: "ws_bridge option \<Rightarrow> 'g simulator \<Rightarrow> 'g simulator" where
  "set_ws_bridge b s = s\<lparr>sim_ws := b\<rparr>"

text \<open>\<open>self.agents[id] = a\<close> and \<open>self.agent_latencies[id] = l\<close>.\<close>

definition add_agent :: "string \<Rightarrow> 'g agent \<Rightarrow> 'g latency \<Rightarrow> 'g simulator \<Rightarrow> 'g simulator" where
  "add_agent aid a l s =
     s\<lparr>sim_agents := dict_set aid a (sim_agents s),
       agent_latencies := dict_set aid l (agent_latencies s)\<rparr>"

definition create_mm :: "'g numpy \<Rightarrow> sim_config \<Rightarrow> int \<Rightarrow> 'g market_maker \<times> int" where
  "create_mm np cfg counter =
     (let c = cfg_mm cfg
      in mm_init np ''MM'' (cfg_get (mc_gamma c) (flit (1 / 10))) (cfg_get (mc_kappa c) (flit (15 / 10)))
           (cfg_get (mc_inventory_limit c) 500) (cfg_get (mc_levels c) 3)
           (cfg_get (mc_level_spacing c) 5) (cfg_get (mc_base_qty c) 100) 100 10000 42
           (flit (1 / 100)) counter)"

definition noise_id :: "nat \<Rightarrow> string" where
  "noise_id i = ''NOISE_'' @ show_nat i"

definition create_noise :: "'g numpy \<Rightarrow> sim_config \<Rightarrow> nat \<Rightarrow> int \<Rightarrow> 'g noise_trader \<times> int" where
  "create_noise np cfg i counter =
     (let c = cfg_noise cfg
      in noise_init np (noise_id i) (cfg_get (nc_order_prob c) (flit (3 / 10)))
           (cfg_get (nc_spread_range c) 20) (cfg_get (nc_min_qty c) 10) (cfg_get (nc_max_qty c) 100)
           (cfg_get (nc_market_order_prob c) (flit (5 / 100))) (42 + int i) (flit (1 / 100)) counter)"

fun create_noises :: "'g numpy \<Rightarrow> nat list \<Rightarrow> 'g simulator \<times> int \<Rightarrow> 'g simulator \<times> int" where
  "create_noises np [] (s, counter) = (s, counter)"
| "create_noises np (i # is) (s, counter) =
     (case create_noise np (sim_cfg s) i counter of (a, counter') \<Rightarrow>
        create_noises np is
          (add_agent (noise_id i) (Noise_Agent a) (Model_Latency (retail_latency np (42 + int i))) s,
           counter'))"

definition create_informed :: "'g numpy \<Rightarrow> sim_config \<Rightarrow> int \<Rightarrow> 'g informed_trader \<times> int" where
  "create_informed np cfg counter =
     (let c = cfg_informed cfg
      in informed_init np ''INFORMED'' (cfg_get (ic_threshold c) 15)
           (cfg_get (ic_aggression c) (flit (8 / 10))) (cfg_get (ic_min_qty c) 50)
           (cfg_get (ic_max_qty c) 200) 100 (flit (1 / 100)) counter)"

definition create_momentum :: "'g numpy \<Rightarrow> sim_config \<Rightarrow> int \<Rightarrow> ('g momentum_trader \<times> int) result" where
  "create_momentum np cfg counter =
     (let c = cfg_momentum cfg
      in momentum_init np ''MOMENTUM'' (cfg_get (tc_fast_period c) 10) (cfg_get (tc_slow_period c) 50)
           (cfg_get (tc_trade_prob c) (flit (3 / 10))) (cfg_get (tc_min_qty c) 20)
           (cfg_get (tc_max_qty c) 80) 200 (flit (1 / 100)) counter)"

definition create_arb :: "'g numpy \<Rightarrow> sim_config \<Rightarrow> int \<Rightarrow> 'g latency_arb \<times> int" where
  "create_arb np cfg counter =
     (let c = cfg_arb cfg
      in latency_arb_init np ''LAT_ARB'' (cfg_get (lc_threshold c) 5) (cfg_get (lc_max_position c) 50)
           (cfg_get (lc_trade_prob c) (flit (9 / 10))) 10 50 300 (flit (1 / 100)) counter)"

text \<open>The class attribute \<open>BaseAgent._agent_counter\<close> is passed in and returned.\<close>

definition create_agents :: "'g numpy \<Rightarrow> int \<Rightarrow> 'g simulator \<Rightarrow> ('g simulator \<times> int) result" where
  "create_agents np counter s =
     (let cfg = sim_cfg s;
          (mm, c1) = create_mm np cfg counter;
          s1 = add_agent ''MM'' (MM_Agent mm) (Model_Latency (market_maker_latency np 42)) s;
          (s2, c2) = create_noises np [0..<nat (cfg_get (cfg_num_noise cfg) 3)] (s1, c1);
          (it, c3) = create_informed np cfg c2;
          s3 = add_agent ''INFORMED'' (Informed_Agent it)
                 (Model_Latency (latency_init np (Some (LatencyConfig 500 100)) 100)) s2
      in case create_momentum np cfg c3 of
           Inl e \<Rightarrow> Inl e
         | Inr (mt, c4) \<Rightarrow>
             (let s4 = add_agent ''MOMENTUM'' (Momentum_Agent mt) (Model_Latency (retail_latency np 200)) s3;
                  (la, c5) = create_arb np cfg c4;
                  s5 = add_agent ''LAT_ARB'' (Arb_Agent la) (Model_Latency (latency_arb_latency np 300)) s4;
                  (hu, c6) = human_init ''HUMAN'' c5;
                  s6 = add_agent ''HUMAN'' (Human_Agent hu) Zero_Latency s5
              in Inr (s6, c6)))"

end
