(* ===== verification/Simulator.thy ===== *)
theory Simulator
  imports Sim_State
begin

text \<open>
  The operations of \<open>Simulator\<close> in \<open>simulation/simulator.py\<close>: submitting orders and cancels,
  the messages from the frontend, scheduling, the event handler and the loop of \<open>run\<close>. An
  exception the code catches and logs leaves the state as far as it got; one that leaves
  \<open>run\<close> is a left value. The loop is total: its measure is the number of price moves still
  scheduled, then the length of the queue.
\<close>

section \<open>Submitting\<close>

definition with_tcp :: "tcp_client \<Rightarrow> 'g simulator \<Rightarrow> 'g simulator" where
  "with_tcp c s = s\<lparr>sim_tcp := Some c\<rparr>"

text \<open>One cancel: the record is made only when sending did not raise.\<close>

definition submit_cancel :: "int \<Rightarrow> 'g simulator \<Rightarrow> 'g simulator" where
  "submit_cancel oid s =
     (case sim_tcp s of
        None \<Rightarrow> s
      | Some c \<Rightarrow>
          (case send_cancel c oid of
             (Inl e, c') \<Rightarrow> with_tcp c' s
           | (Inr u, c') \<Rightarrow>
               (with_tcp c' s)\<lparr>sim_metrics := record_cancel oid (current_time s) (sim_metrics s)\<rparr>))"

definition submit_cancels :: "int list \<Rightarrow> 'g simulator \<Rightarrow> 'g simulator" where
  "submit_cancels ids s = foldl (\<lambda>s oid. submit_cancel oid s) s ids"

definition submit_order :: "agent_order \<Rightarrow> 'g simulator \<Rightarrow> 'g simulator" where
  "submit_order o1 s =
     (case sim_tcp s of
        None \<Rightarrow> s
      | Some c \<Rightarrow>
          (case send_new_order c (ao_order_id o1) (ao_side o1) (ao_order_type o1) (ao_price o1)
                  (ao_quantity o1) 0 of
             (Inl e, c') \<Rightarrow> with_tcp c' s
           | (Inr u, c') \<Rightarrow>
               (with_tcp c' s)\<lparr>sim_metrics :=
                  record_quote (QuoteRecord (ao_order_id o1) (current_time s)) (sim_metrics s)\<rparr>))"

text \<open>\<open>for agent in self.agents.values()\<close>, updating each in place.\<close>

definition agents_map :: "('g agent \<Rightarrow> 'g agent) \<Rightarrow> (string, 'g agent) dict \<Rightarrow> (string, 'g agent) dict" where
  "agents_map f d = map (\<lambda>(k, a). (k, f a)) d"

definition mid_after :: "'g simulator \<Rightarrow> int" where
  "mid_after s =
     (case last_book_update s of
        Some b \<Rightarrow> (best_bid b + best_ask b) div 2
      | None \<Rightarrow> current_mid s)"

definition handle_message :: "message \<Rightarrow> 'g simulator \<Rightarrow> 'g simulator" where
  "handle_message m s =
     (case m of
        Book_Message b \<Rightarrow> s\<lparr>last_book_update := Some b\<rparr>
      | Fill_Message f \<Rightarrow>
          s\<lparr>sim_agents := agents_map (agent_on_fill f) (sim_agents s),
            sim_metrics := record_fill
              \<lparr>fr_timestamp = current_time s, fr_price = fill_price f, fr_quantity = fill_quantity f,
               fr_side = 0, is_maker = True, mid_at_fill = current_mid s,
               mid_after_fill = Some (mid_after s), fr_maker_fee = 0, fr_taker_fee = 0\<rparr>
              (sim_metrics s)\<rparr>)"

definition levels_json :: "int list \<Rightarrow> int list \<Rightarrow> json" where
  "levels_json ps qs = JList (map (\<lambda>(p, q). JList [JInt p, JInt q]) (zip ps qs))"

definition book_json :: "real \<Rightarrow> book_update_msg \<Rightarrow> json" where
  "book_json t b = JObj [(''type'', JStr ''book''), (''timestamp'', JFloat t),
     (''bids'', levels_json (bid_prices b) (bid_quantities b)),
     (''asks'', levels_json (ask_prices b) (ask_quantities b))]"

definition broadcast :: "json \<Rightarrow> 'g simulator \<Rightarrow> 'g simulator" where
  "broadcast j s = (case sim_ws s of None \<Rightarrow> s | Some b \<Rightarrow> s\<lparr>sim_ws := Some (ws_push j b)\<rparr>)"

definition receive :: "'g simulator \<Rightarrow> 'g simulator" where
  "receive s =
     (case sim_tcp s of
        None \<Rightarrow> s
      | Some c \<Rightarrow>
          (case poll c of
             (Inl e, c') \<Rightarrow> with_tcp c' s
           | (Inr ms, c') \<Rightarrow>
               (let s1 = foldl (\<lambda>s m. handle_message (snd m) s) (with_tcp c' s) ms
                in case last_book_update s1 of
                     None \<Rightarrow> s1
                   | Some b \<Rightarrow> broadcast (book_json (current_time s1) b) s1)))"

definition submit_orders :: "agent_order list \<Rightarrow> 'g simulator \<Rightarrow> 'g simulator" where
  "submit_orders os s =
     (if sim_tcp s = None then s else receive (foldl (\<lambda>s o1. submit_order o1 s) s os))"

section \<open>Messages from the frontend\<close>

text \<open>\<open>self.human\<close> is the object stored under \<open>"HUMAN"\<close>.\<close>

definition with_human :: "(human_agent \<Rightarrow> human_agent) \<Rightarrow> 'g simulator \<Rightarrow> 'g simulator result" where
  "with_human f s =
     (case dict_get (sim_agents s) ''HUMAN'' of
        Some (Human_Agent h) \<Rightarrow> Inr (s\<lparr>sim_agents := dict_set ''HUMAN'' (Human_Agent (f h)) (sim_agents s)\<rparr>)
      | _ \<Rightarrow> Inl AttributeError)"

definition human_command :: "json \<Rightarrow> int \<Rightarrow> int \<Rightarrow> 'g simulator \<Rightarrow> 'g simulator result" where
  "human_command action qty offset s =
     (if action = JStr ''market_buy'' then with_human (place_market_order 0 qty) s
      else if action = JStr ''market_sell'' then with_human (place_market_order 1 qty) s
      else if action = JStr ''limit_buy'' then with_human (place_limit_order 0 offset qty) s
      else if action = JStr ''limit_sell'' then with_human (place_limit_order 1 offset qty) s
      else if action = JStr ''cancel_all'' then with_human cancel_all_quotes s
      else Inr s)"

text \<open>
  The import that follows the command names \<open>simulation.market.simulator_types\<close>, a module that
  \<open>simulation/market/\<close> does not contain: it raises before the event is pushed.
\<close>

definition import_simulator_types :: "unit result" where
  "import_simulator_types = Inl ImportError"

definition human_event :: "'g simulator \<Rightarrow> unit result \<times> 'g simulator" where
  "human_event s =
     (case import_simulator_types of
        Inl e \<Rightarrow> (Inl e, s)
      | Inr u \<Rightarrow> (Inr (), s\<lparr>event_queue := eq_push (event_queue s)
          \<lparr>timestamp = current_time s, event_type = AGENT_ACTION, event_agent = Some ''HUMAN''\<rparr>\<rparr>))"

definition human_action :: "json \<Rightarrow> 'g simulator \<Rightarrow> unit result \<times> 'g simulator" where
  "human_action data s =
     (case json_get ''action'' JNull data of
        Inl e \<Rightarrow> (Inl e, s)
      | Inr action \<Rightarrow>
          (case (case json_get ''qty'' (JInt 100) data of Inl e \<Rightarrow> Inl e | Inr j \<Rightarrow> int_of_json j) of
             Inl e \<Rightarrow> (Inl e, s)
           | Inr qty \<Rightarrow>
               (case (case json_get ''offset'' (JInt 0) data of Inl e \<Rightarrow> Inl e | Inr j \<Rightarrow> int_of_json j) of
                  Inl e \<Rightarrow> (Inl e, s)
                | Inr offset \<Rightarrow>
                    (case human_command action qty offset s of
                       Inl e \<Rightarrow> (Inl e, s)
                     | Inr s1 \<Rightarrow> human_event s1))))"

fun crash_price :: "real \<Rightarrow> 'g price_process \<Rightarrow> 'g price_process" where
  "crash_price d (GBM_Process p) =
     GBM_Process (p\<lparr>gbm_current_price := fsub (gbm_current_price p) d\<rparr>)"
| "crash_price d (RS_Process p) =
     RS_Process (p\<lparr>rs_theta := fsub (rs_theta p) d, rs_current_price := fsub (rs_current_price p) d\<rparr>)"
| "crash_price d (OU_Process p) =
     OU_Process (p\<lparr>ou_theta := fsub (ou_theta p) d, ou_current_price := fsub (ou_current_price p) d\<rparr>)"

fun spike_volatility :: "'g price_process \<Rightarrow> 'g price_process" where
  "spike_volatility (RS_Process p) = RS_Process (p\<lparr>current_regime := VOLATILE\<rparr>)"
| "spike_volatility (GBM_Process p) = GBM_Process (p\<lparr>gbm_sigma := fmul (gbm_sigma p) 3\<rparr>)"
| "spike_volatility (OU_Process p) = OU_Process (p\<lparr>ou_sigma := fmul (ou_sigma p) 3\<rparr>)"

definition scenario :: "json \<Rightarrow> 'g simulator \<Rightarrow> unit result \<times> 'g simulator" where
  "scenario data s =
     (case json_get ''name'' JNull data of
        Inl e \<Rightarrow> (Inl e, s)
      | Inr name \<Rightarrow>
          (if name = JStr ''flash_crash'' then
             (Inr (), s\<lparr>current_mid := current_mid s - 100, sim_price := crash_price 100 (sim_price s)\<rparr>)
           else if name = JStr ''whale_buy'' then
             (case sim_tcp s of
                None \<Rightarrow> (Inr (), s)
              | Some c \<Rightarrow> (case send_new_order c 999999 0 1 0 5000 0 of (r, c') \<Rightarrow> (r, with_tcp c' s)))
           else if name = JStr ''vol_spike'' then
             (Inr (), s\<lparr>sim_price := spike_volatility (sim_price s)\<rparr>)
           else (Inr (), s)))"

text \<open>One message, with the exception its handler swallowed, if any.\<close>

definition ws_message :: "json result \<Rightarrow> 'g simulator \<Rightarrow> unit result \<times> 'g simulator" where
  "ws_message raw s =
     (case raw of
        Inl e \<Rightarrow> (Inl e, s)
      | Inr data \<Rightarrow>
          (case json_get ''type'' JNull data of
             Inl e \<Rightarrow> (Inl e, s)
           | Inr ty \<Rightarrow>
               (if ty = JStr ''human_action'' then human_action data s
                else if ty = JStr ''scenario'' then scenario data s
                else (Inr (), s))))"

definition process_incoming_ws_messages :: "'g simulator \<Rightarrow> 'g simulator" where
  "process_incoming_ws_messages s =
     (case sim_ws s of
        None \<Rightarrow> s
      | Some b \<Rightarrow>
          (case poll_incoming b of (msgs, b') \<Rightarrow>
             foldl (\<lambda>s m. snd (ws_message m s)) (s\<lparr>sim_ws := Some b'\<rparr>) msgs))"

section \<open>Scheduling\<close>

definition push_event :: "real \<Rightarrow> event_type \<Rightarrow> string option \<Rightarrow> 'g simulator \<Rightarrow> 'g simulator" where
  "push_event t ty aid s =
     s\<lparr>event_queue := eq_push (event_queue s) \<lparr>timestamp = t, event_type = ty, event_agent = aid\<rparr>\<rparr>"

text \<open>An action of an agent at \<open>t\<close> plus a latency drawn from its model.\<close>

definition schedule_action :: "'g numpy \<Rightarrow> real \<Rightarrow> string \<Rightarrow> 'g simulator \<Rightarrow> 'g simulator result" where
  "schedule_action np t aid s =
     (case dict_get (agent_latencies s) aid of
        None \<Rightarrow> Inl KeyError
      | Some l \<Rightarrow>
          (case latency_seconds np l of
             Inl e \<Rightarrow> Inl e
           | Inr (d, l') \<Rightarrow>
               Inr (push_event (fadd t d) AGENT_ACTION (Some aid)
                 (s\<lparr>agent_latencies := dict_set aid l' (agent_latencies s)\<rparr>))))"

fun schedule_actions :: "'g numpy \<Rightarrow> real \<Rightarrow> string list \<Rightarrow> 'g simulator \<Rightarrow> 'g simulator result" where
  "schedule_actions np t [] s = Inr s"
| "schedule_actions np t (aid # aids) s =
     (case schedule_action np t aid s of Inl e \<Rightarrow> Inl e | Inr s' \<Rightarrow> schedule_actions np t aids s')"

definition schedule_step :: "'g numpy \<Rightarrow> real \<Rightarrow> nat \<Rightarrow> 'g simulator \<Rightarrow> 'g simulator result" where
  "schedule_step np dt step s =
     (let t = fmul (fint (int step)) dt
      in case schedule_actions np t (dict_keys (sim_agents s)) (push_event t MIDPRICE_MOVE None s) of
           Inl e \<Rightarrow> Inl e
         | Inr s' \<Rightarrow>
             Inr (if step mod 100 = 0
                  then push_event (fadd t (fmul dt (flit (5 / 10)))) METRICS_SAMPLE None s' else s'))"

fun schedule_steps :: "'g numpy \<Rightarrow> real \<Rightarrow> nat list \<Rightarrow> 'g simulator \<Rightarrow> 'g simulator result" where
  "schedule_steps np dt [] s = Inr s"
| "schedule_steps np dt (i # is) s =
     (case schedule_step np dt i s of Inl e \<Rightarrow> Inl e | Inr s' \<Rightarrow> schedule_steps np dt is s')"

definition sim_dt :: "'g simulator \<Rightarrow> real result" where
  "sim_dt s = (case cfg_at (cfg_simulation (sim_cfg s)) of
     Inl e \<Rightarrow> Inl e | Inr sc \<Rightarrow> Inr (cfg_get (sc_dt sc) (flit (1 / 1000))))"

definition schedule_initial_events :: "'g numpy \<Rightarrow> 'g simulator \<Rightarrow> 'g simulator result" where
  "schedule_initial_events np s =
     (case sim_dt s of
        Inl e \<Rightarrow> Inl e
      | Inr dt \<Rightarrow> schedule_steps np dt [0..<nat (total_steps s)] s)"

section \<open>Events\<close>

text \<open>The loop over the extra events the Hawkes process asks for.\<close>

fun extra_actions :: "'g numpy \<Rightarrow> real \<Rightarrow> nat \<Rightarrow> 'g simulator \<Rightarrow> 'g simulator result" where
  "extra_actions np t 0 s = Inr s"
| "extra_actions np t (Suc n) s =
     (if dict_get (sim_agents s) ''NOISE_0'' = None then extra_actions np t n s
      else (case schedule_action np t ''NOISE_0'' s of
              Inl e \<Rightarrow> Inl e | Inr s' \<Rightarrow> extra_actions np t n s'))"

definition hawkes_flow :: "'g numpy \<Rightarrow> real \<Rightarrow> 'g simulator \<Rightarrow> 'g simulator result" where
  "hawkes_flow np t s =
     (case sim_hawkes s of
        None \<Rightarrow> Inr s
      | Some h \<Rightarrow>
          (case sim_dt s of
             Inl e \<Rightarrow> Inl e
           | Inr dt \<Rightarrow>
               (case hawkes_step np dt h of
                  Inl e \<Rightarrow> Inl e
                | Inr (n, h') \<Rightarrow> extra_actions np t n (s\<lparr>sim_hawkes := Some h'\<rparr>))))"

definition midprice_move :: "'g numpy \<Rightarrow> real \<Rightarrow> 'g simulator \<Rightarrow> 'g simulator result" where
  "midprice_move np t s =
     (case price_step np (sim_price s) of
        Inl e \<Rightarrow> Inl e
      | Inr (mid, p) \<Rightarrow>
          hawkes_flow np t
            (s\<lparr>sim_price := p, current_mid := mid, step_count := step_count s + 1,
               sim_agents := agents_map (agent_set_true_price mid) (sim_agents s)\<rparr>))"

definition agent_action :: "'g numpy \<Rightarrow> string option \<Rightarrow> 'g simulator \<Rightarrow> 'g simulator result" where
  "agent_action np who s =
     (case (last_book_update s, who) of
        (Some u, Some aid) \<Rightarrow>
          (case dict_get (sim_agents s) aid of
             None \<Rightarrow> Inr s
           | Some a \<Rightarrow>
               (case agent_on_book_update np u (step_count s) a of
                  Inl e \<Rightarrow> Inl e
                | Inr (os, a1) \<Rightarrow>
                    (let ids = agent_pending_cancels a1;
                         a2 = (if ids \<noteq> [] then agent_clear_cancels a1 else a1);
                         s1 = s\<lparr>sim_agents := dict_set aid a2 (sim_agents s)\<rparr>
                     in Inr (submit_orders os (submit_cancels ids s1)))))
      | _ \<Rightarrow> Inr s)"

definition metrics_json :: "real \<Rightarrow> int \<Rightarrow> int \<Rightarrow> json" where
  "metrics_json pnl q mid = JObj [(''type'', JStr ''metrics''), (''pnl'', JFloat pnl),
     (''inventory'', JInt q), (''mid'', JInt mid)]"

definition metrics_sample :: "'g simulator \<Rightarrow> 'g simulator" where
  "metrics_sample s =
     (case dict_get (sim_agents s) ''MM'' of
        None \<Rightarrow> s
      | Some mm \<Rightarrow>
          (let st = stats (agent_base mm)
           in broadcast (metrics_json (total_pnl st) (inventory st) (current_mid s))
                (s\<lparr>sim_metrics := record_state (step_count s) (total_pnl st) (inventory st)
                     (current_mid s) (sim_metrics s)\<rparr>)))"

definition process_event :: "'g numpy \<Rightarrow> event \<Rightarrow> 'g simulator \<Rightarrow> 'g simulator result" where
  "process_event np e s =
     (case event_type e of
        MIDPRICE_MOVE \<Rightarrow> midprice_move np (timestamp e) s
      | AGENT_ACTION \<Rightarrow> agent_action np (event_agent e) s
      | METRICS_SAMPLE \<Rightarrow> Inr (metrics_sample s)
      | _ \<Rightarrow> Inr s)"

section \<open>The queue under the operations\<close>

lemma submit_frame [simp]:
  "event_queue (submit_cancel i s) = event_queue s" "event_queue (submit_order o1 s) = event_queue s"
  "step_count (submit_cancel i s) = step_count s" "step_count (submit_order o1 s) = step_count s"
  "current_time (submit_cancel i s) = current_time s" "current_time (submit_order o1 s) = current_time s"
  "sim_running (submit_cancel i s) = sim_running s" "sim_running (submit_order o1 s) = sim_running s"
  "sim_agents (submit_cancel i s) = sim_agents s" "sim_agents (submit_order o1 s) = sim_agents s"
  by (simp_all add: submit_cancel_def submit_order_def with_tcp_def split: option.split sum.split prod.split)

lemma foldl_keep: "(\<And>s x. P (f s x) = P s) \<Longrightarrow> P (foldl f s xs) = P s"
  by (induction xs arbitrary: s) simp_all

lemma handle_message_frame [simp]:
  "event_queue (handle_message m s) = event_queue s" "step_count (handle_message m s) = step_count s"
  "current_time (handle_message m s) = current_time s" "sim_running (handle_message m s) = sim_running s"
  by (simp_all add: handle_message_def split: message.split)

lemma broadcast_frame [simp]:
  "event_queue (broadcast j s) = event_queue s" "step_count (broadcast j s) = step_count s"
  "current_time (broadcast j s) = current_time s" "sim_running (broadcast j s) = sim_running s"
  "sim_agents (broadcast j s) = sim_agents s" "sim_metrics (broadcast j s) = sim_metrics s"
  by (simp_all add: broadcast_def split: option.split)

lemma handle_messages_frame [simp]:
  "event_queue (foldl (\<lambda>s m. handle_message (snd m) s) s ms) = event_queue s"
  "step_count (foldl (\<lambda>s m. handle_message (snd m) s) s ms) = step_count s"
  "current_time (foldl (\<lambda>s m. handle_message (snd m) s) s ms) = current_time s"
  "sim_running (foldl (\<lambda>s m. handle_message (snd m) s) s ms) = sim_running s"
  by (induction ms arbitrary: s) simp_all

lemma receive_frame [simp]:
  "event_queue (receive s) = event_queue s" "step_count (receive s) = step_count s"
  "current_time (receive s) = current_time s" "sim_running (receive s) = sim_running s"
  by (simp_all add: receive_def with_tcp_def Let_def split: option.split sum.split prod.split)

lemma submits_frame [simp]:
  "event_queue (submit_cancels ids s) = event_queue s" "step_count (submit_cancels ids s) = step_count s"
  "sim_running (submit_cancels ids s) = sim_running s" "sim_agents (submit_cancels ids s) = sim_agents s"
  "event_queue (submit_orders os s) = event_queue s" "step_count (submit_orders os s) = step_count s"
  "sim_running (submit_orders os s) = sim_running s"
  by (simp_all add: submit_cancels_def submit_orders_def foldl_keep [where P = event_queue]
      foldl_keep [where P = step_count] foldl_keep [where P = sim_running] foldl_keep [where P = sim_agents])

text \<open>
  What an operation at time \<open>t\<close> may add to the queue: actions of agents, at times that are
  floats and not before \<open>t\<close>.
\<close>

definition is_action :: "real \<Rightarrow> event \<Rightarrow> bool" where
  "is_action t e \<longleftrightarrow> event_type e = AGENT_ACTION \<and> is_float (timestamp e) \<and>
     (is_float t \<longrightarrow> t \<le> timestamp e)"

definition queued :: "real \<Rightarrow> event_queue \<Rightarrow> event_queue \<Rightarrow> bool" where
  "queued t q q' \<longleftrightarrow> (\<exists>es. q' = foldl eq_push q es \<and> (\<forall>e \<in> set es. is_action t e))"

lemma queued_refl [simp]: "queued t q q"
  unfolding queued_def by (rule exI [of _ "[]"]) simp

lemma queued_trans: "queued t q1 q2 \<Longrightarrow> queued t q2 q3 \<Longrightarrow> queued t q1 q3"
proof -
  assume "queued t q1 q2" "queued t q2 q3"
  then obtain es fs where
    "q2 = foldl eq_push q1 es" "\<forall>e \<in> set es. is_action t e"
    "q3 = foldl eq_push q2 fs" "\<forall>e \<in> set fs. is_action t e"
    unfolding queued_def by blast
  then show ?thesis unfolding queued_def by (intro exI [of _ "es @ fs"]) auto
qed

lemma schedule_action_queued:
  assumes "schedule_action np t aid s = Inr s'"
  shows "queued t (event_queue s) (event_queue s')" "step_count s' = step_count s"
    "sim_agents s' = sim_agents s" "sim_running s' = sim_running s" "sim_metrics s' = sim_metrics s"
proof -
  obtain l d l' where l: "latency_seconds np l = Inr (d, l')"
    and s': "s' = push_event (fadd t d) AGENT_ACTION (Some aid) (s\<lparr>agent_latencies := dict_set aid l' (agent_latencies s)\<rparr>)"
    using assms by (auto simp: schedule_action_def split: option.split_asm sum.split_asm)
  have "is_float t \<Longrightarrow> t \<le> fadd t d" using latency_seconds_nonneg [OF l] by (intro fadd_grow) auto
  then show "queued t (event_queue s) (event_queue s')"
    unfolding queued_def s' push_event_def is_action_def
    by (intro exI [of _ "[\<lparr>timestamp = fadd t d, event_type = AGENT_ACTION, event_agent = Some aid\<rparr>]"]) simp
  show "step_count s' = step_count s" "sim_agents s' = sim_agents s" "sim_running s' = sim_running s"
    "sim_metrics s' = sim_metrics s" by (simp_all add: s' push_event_def)
qed

lemma extra_actions_queued:
  "extra_actions np t n s = Inr s' \<Longrightarrow>
     queued t (event_queue s) (event_queue s') \<and> step_count s' = step_count s \<and>
     sim_agents s' = sim_agents s \<and> sim_running s' = sim_running s \<and> sim_metrics s' = sim_metrics s"
proof (induction n arbitrary: s)
  case (Suc n)
  show ?case
  proof (cases "dict_get (sim_agents s) ''NOISE_0'' = None")
    case False
    then obtain s1 where "schedule_action np t ''NOISE_0'' s = Inr s1" "extra_actions np t n s1 = Inr s'"
      using Suc.prems by (auto split: sum.split_asm)
    then show ?thesis using Suc.IH [of s1] schedule_action_queued queued_trans by metis
  qed (use Suc in simp)
qed simp

lemma process_event_queued:
  assumes "process_event np e s = Inr s'"
  shows "queued (timestamp e) (event_queue s) (event_queue s')"
    "event_type e \<noteq> MIDPRICE_MOVE \<Longrightarrow> event_queue s' = event_queue s"
    "step_count s' = step_count s + (if event_type e = MIDPRICE_MOVE then 1 else 0)"
    "sim_running s' = sim_running s"
proof -
  have other: "event_queue s' = event_queue s \<and> step_count s' = step_count s \<and> sim_running s' = sim_running s" if "event_type e \<noteq> MIDPRICE_MOVE"
    using assms that
    by (auto simp: process_event_def agent_action_def metrics_sample_def Let_def
        split: event_type.split_asm option.split_asm sum.split_asm prod.split_asm)
  have move: "queued (timestamp e) (event_queue s) (event_queue s') \<and> step_count s' = step_count s + 1 \<and>
    sim_running s' = sim_running s"
    if move: "event_type e = MIDPRICE_MOVE"
  proof -
    obtain mid p where "hawkes_flow np (timestamp e) (s\<lparr>sim_price := p, current_mid := mid,
        step_count := step_count s + 1, sim_agents := agents_map (agent_set_true_price mid) (sim_agents s)\<rparr>) = Inr s'"
      using assms move by (auto simp: process_event_def midprice_move_def split: sum.split_asm)
    then show ?thesis
      by (auto simp: hawkes_flow_def split: option.split_asm sum.split_asm dest!: extra_actions_queued)
  qed
  show "queued (timestamp e) (event_queue s) (event_queue s')"
    using other move by (cases "event_type e = MIDPRICE_MOVE") auto
  show "event_type e \<noteq> MIDPRICE_MOVE \<Longrightarrow> event_queue s' = event_queue s"
    "step_count s' = step_count s + (if event_type e = MIDPRICE_MOVE then 1 else 0)"
    "sim_running s' = sim_running s"
    using other move by auto
qed

section \<open>The loop\<close>

lemma with_human_frame:
  "with_human f s = Inr s' \<Longrightarrow> event_queue s' = event_queue s \<and> step_count s' = step_count s \<and>
     sim_running s' = sim_running s"
  by (auto simp: with_human_def split: option.split_asm agent.split_asm)

lemma human_command_frame:
  "human_command action qty offset s = Inr s' \<Longrightarrow> event_queue s' = event_queue s \<and>
     step_count s' = step_count s \<and> sim_running s' = sim_running s"
  by (auto simp: human_command_def dest: with_human_frame split: if_split_asm)

lemma human_action_frame:
  "snd (human_action data s) = s \<or> (\<exists>a q k. human_command a q k s = Inr (snd (human_action data s)))"
  unfolding human_action_def human_event_def import_simulator_types_def
  by (simp split: sum.split) blast

lemma scenario_frame:
  "event_queue (snd (scenario data s)) = event_queue s \<and> step_count (snd (scenario data s)) = step_count s \<and>
     sim_running (snd (scenario data s)) = sim_running s"
  by (simp add: scenario_def with_tcp_def split: sum.split option.split prod.split)

lemma ws_message_cases:
  "snd (ws_message m s) = s \<or> (\<exists>data. snd (ws_message m s) = snd (human_action data s)) \<or>
     (\<exists>data. snd (ws_message m s) = snd (scenario data s))"
  unfolding ws_message_def by (simp split: sum.split) blast

lemma ws_message_frame:
  "event_queue (snd (ws_message m s)) = event_queue s \<and> step_count (snd (ws_message m s)) = step_count s \<and>
     sim_running (snd (ws_message m s)) = sim_running s"
  using ws_message_cases [of m s] human_action_frame [of _ s] scenario_frame [of _ s] human_command_frame
  by metis

lemma incoming_frame [simp]:
  "event_queue (process_incoming_ws_messages s) = event_queue s"
  "step_count (process_incoming_ws_messages s) = step_count s"
  "sim_running (process_incoming_ws_messages s) = sim_running s"
proof -
  have "event_queue (foldl (\<lambda>s m. snd (ws_message m s)) s ms) = event_queue s \<and>
    step_count (foldl (\<lambda>s m. snd (ws_message m s)) s ms) = step_count s \<and>
    sim_running (foldl (\<lambda>s m. snd (ws_message m s)) s ms) = sim_running s" for s :: "'a simulator" and ms
    by (induction ms arbitrary: s) (simp_all add: ws_message_frame)
  then show "event_queue (process_incoming_ws_messages s) = event_queue s"
    "step_count (process_incoming_ws_messages s) = step_count s"
    "sim_running (process_incoming_ws_messages s) = sim_running s" for s :: "'a simulator"
    by (simp_all add: process_incoming_ws_messages_def split: option.split prod.split)
qed

definition sim_stop :: "'g simulator \<Rightarrow> 'g simulator" where
  "sim_stop s = s\<lparr>sim_running := False\<rparr>"

text \<open>The price moves of a queue.\<close>

definition moves :: "event multiset \<Rightarrow> nat" where
  "moves es = size (filter_mset (\<lambda>e. event_type e = MIDPRICE_MOVE) es)"

lemma queued_moves: "queued t q q' \<Longrightarrow> moves (mset q') = moves (mset q)"
proof -
  assume "queued t q q'"
  then obtain es where q': "q' = foldl eq_push q es" and es: "\<forall>e \<in> set es. event_type e \<noteq> MIDPRICE_MOVE"
    by (auto simp: queued_def is_action_def)
  have "filter_mset (\<lambda>e. event_type e = MIDPRICE_MOVE) (mset es) = {#}"
    using es mset_filter [of "\<lambda>e. event_type e = MIDPRICE_MOVE" es] by (simp add: filter_empty_conv)
  then show ?thesis by (simp add: q' eq_pushes_mset moves_def)
qed

text \<open>
  The main loop of \<open>run\<close>: the events processed, in order (the code counts them), and the final
  state or the exception that escaped. \<open>stops n\<close> is whether \<open>stop\<close> was called, by the signal
  handler, before the \<open>n\<close>-th test of the loop's condition.
\<close>

function run_loop :: "'g numpy \<Rightarrow> (nat \<Rightarrow> bool) \<Rightarrow> nat \<Rightarrow> 'g simulator \<Rightarrow> event list \<times> 'g simulator result" where
  "run_loop np stops n s =
     (let s0 = (if stops n then sim_stop s else s)
      in if \<not> (eq_bool (event_queue s0) \<and> sim_running s0) then ([], Inr s0)
         else
           (let s1 = process_incoming_ws_messages s0
            in case eq_pop (event_queue s1) of
                 Inl err \<Rightarrow> ([], Inl err)
               | Inr (e, q) \<Rightarrow>
                   (case process_event np e (s1\<lparr>event_queue := q, current_time := timestamp e\<rparr>) of
                      Inl err \<Rightarrow> ([e], Inl err)
                    | Inr s2 \<Rightarrow> (case run_loop np stops (Suc n) s2 of (es, r) \<Rightarrow> (e # es, r)))))"
  by pat_completeness auto
termination
proof (relation "measures [\<lambda>(np, stops, n, s). moves (mset (event_queue s)),
    \<lambda>(np, stops, n, s). length (event_queue s)]", simp, goal_cases)
  case (1 np stops n s s0 s1 pr e q s2)
  have s1: "event_queue s1 = event_queue s" using 1 by (simp add: sim_stop_def)
  with 1 have pop: "eq_pop (event_queue s) = Inr (e, q)" by simp
  let ?s = "s1\<lparr>event_queue := q, current_time := timestamp e\<rparr>"
  have ev: "process_event np e ?s = Inr s2" using 1 by simp
  have m: "moves (mset (event_queue s)) = moves (mset q) + (if event_type e = MIDPRICE_MOVE then 1 else 0)"
    by (simp add: eq_pop_mset [OF pop] moves_def)
  have q: "moves (mset (event_queue s2)) = moves (mset q)"
    using queued_moves [OF process_event_queued(1) [OF ev]] by simp
  have l: "event_type e \<noteq> MIDPRICE_MOVE \<Longrightarrow> length (event_queue s2) < length (event_queue s)"
    using process_event_queued(2) [OF ev] eq_pop_length [OF pop] by simp
  show ?case using m q l by (cases "event_type e = MIDPRICE_MOVE") auto
qed

declare run_loop.simps [simp del]

section \<open>The run\<close>

definition initial_book :: "int \<Rightarrow> book_update_msg" where
  "initial_book mid = \<lparr>best_bid = mid - 5, best_ask = mid + 5, num_bid_levels = 0, num_ask_levels = 0,
     bid_prices = [], bid_quantities = [], ask_prices = [], ask_quantities = []\<rparr>"

definition create_hawkes :: "'g numpy \<Rightarrow> 'g simulator \<Rightarrow> 'g simulator result" where
  "create_hawkes np s =
     (let c = cfg_flow (sim_cfg s)
      in if fc_model c = Some ''hawkes''
         then (case hawkes_init np (cfg_get (fc_mu c) 1) (cfg_get (fc_alpha c) (flit (6 / 10)))
                      (cfg_get (fc_beta c) (flit (15 / 10))) 42 of
                 Inl e \<Rightarrow> Inl e
               | Inr h \<Rightarrow> Inr (s\<lparr>sim_hawkes := Some h\<rparr>))
         else Inr s)"

text \<open>Connecting: \<open>outcome\<close> is what the operating system gives; a failure means a dry run.\<close>

definition connect_engine :: "socket result \<Rightarrow> 'g simulator \<Rightarrow> 'g simulator" where
  "connect_engine outcome s =
     (case tcp_connect (tcp_init (cfg_get (cfg_host (sim_cfg s)) ''localhost'')
               (cfg_get (cfg_port (sim_cfg s)) 9876)) outcome of
        (Inl e, c) \<Rightarrow> s\<lparr>sim_tcp := None\<rparr>
      | (Inr u, c) \<Rightarrow> s\<lparr>sim_tcp := Some c\<rparr>)"

text \<open>Everything before the loop.\<close>

definition run_setup :: "'g numpy \<Rightarrow> int \<Rightarrow> socket result \<Rightarrow> 'g simulator \<Rightarrow> 'g simulator result" where
  "run_setup np counter outcome s =
     (case create_agents np counter s of
        Inl e \<Rightarrow> Inl e
      | Inr (s1, counter') \<Rightarrow>
          (case create_hawkes np s1 of
             Inl e \<Rightarrow> Inl e
           | Inr s2 \<Rightarrow>
               (let s3 = connect_engine outcome s2;
                    s4 = s3\<lparr>last_book_update := Some (initial_book (current_mid s3))\<rparr>
                in case schedule_initial_events np s4 of
                     Inl e \<Rightarrow> Inl e
                   | Inr s5 \<Rightarrow> Inr (s5\<lparr>sim_running := True\<rparr>))))"

definition sim_disconnect :: "'g simulator \<Rightarrow> 'g simulator" where
  "sim_disconnect s = s\<lparr>sim_tcp := map_option tcp_disconnect (sim_tcp s)\<rparr>"

definition run ::
  "'g numpy \<Rightarrow> int \<Rightarrow> socket result \<Rightarrow> (nat \<Rightarrow> bool) \<Rightarrow> 'g simulator \<Rightarrow> event list \<times> 'g simulator result" where
  "run np counter outcome stops s =
     (case run_setup np counter outcome s of
        Inl e \<Rightarrow> ([], Inl e)
      | Inr s1 \<Rightarrow>
          (case run_loop np stops 0 s1 of
             (es, Inl e) \<Rightarrow> (es, Inl e)
           | (es, Inr s2) \<Rightarrow> (es, Inr (sim_disconnect s2))))"

text \<open>
  \<open>main\<close>: the simulator on a configuration, with the bridge when \<open>--ws\<close> was given and the
  bridge started (\<open>None\<close> otherwise), run to the end.
\<close>

definition sim_main ::
  "'g numpy \<Rightarrow> sim_config \<Rightarrow> ws_bridge option \<Rightarrow> int \<Rightarrow> socket result \<Rightarrow> (nat \<Rightarrow> bool) \<Rightarrow>
     event list \<times> 'g simulator result" where
  "sim_main np cfg bridge counter outcome stops =
     (case sim_init np cfg of
        Inl e \<Rightarrow> ([], Inl e)
      | Inr s \<Rightarrow> run np counter outcome stops (set_ws_bridge bridge s))"

end
