(* ===== verification/Run_Order.thy ===== *)
theory Run_Order
  imports Simulator
begin

text \<open>
  The loop of \<open>run\<close> as a whole: the order in which events are processed, and what a run that
  is not interrupted has done at its end.
\<close>

section \<open>One iteration\<close>

lemma run_loop_cases:
  assumes "run_loop np stops n s = (es, r)"
  obtains (finished) "es = []" "r = Inr (if stops n then sim_stop s else s)"
      "event_queue s = [] \<or> \<not> sim_running s \<or> stops n"
  | (failed) e q s1 err where "eq_pop (event_queue s) = Inr (e, q)" "process_event np e s1 = Inl err"
      "es = [e]" "r = Inl err" "sim_running s" "\<not> stops n"
      "s1 = (process_incoming_ws_messages s)\<lparr>event_queue := q, current_time := timestamp e\<rparr>"
  | (stepped) e q s1 s2 es' where "eq_pop (event_queue s) = Inr (e, q)" "event_queue s1 = q"
      "current_time s1 = timestamp e" "step_count s1 = step_count s" "sim_running s1" "sim_running s" "\<not> stops n"
      "process_event np e s1 = Inr s2" "run_loop np stops (Suc n) s2 = (es', r)" "es = e # es'"
      "s1 = (process_incoming_ws_messages s)\<lparr>event_queue := q, current_time := timestamp e\<rparr>"
proof (cases "event_queue s = [] \<or> \<not> sim_running s \<or> stops n")
  case True
  then have "run_loop np stops n s = ([], Inr (if stops n then sim_stop s else s))"
    by (subst run_loop.simps) (auto simp: sim_stop_def eq_bool_def Let_def)
  then show thesis using assms True finished by simp
next
  case False
  have "\<exists>x. eq_pop (event_queue s) = Inr x"
    using False heappop_cases [of "event_queue s" timestamp] by (auto simp: eq_pop_def)
  then obtain e q where pop: "eq_pop (event_queue s) = Inr (e, q)" by auto
  let ?s1 = "(process_incoming_ws_messages s)\<lparr>event_queue := q, current_time := timestamp e\<rparr>"
  have inc: "event_queue (process_incoming_ws_messages s) = event_queue s" by simp
  have go: "\<not> stops n" "eq_bool (event_queue s)" "sim_running s" using False by (simp_all add: eq_bool_def)
  have unf: "run_loop np stops n s = (case process_event np e ?s1 of
      Inl err \<Rightarrow> ([e], Inl err)
    | Inr s2 \<Rightarrow> (case run_loop np stops (Suc n) s2 of (es, r) \<Rightarrow> (e # es, r)))"
    by (simp only: run_loop.simps [of np stops n s] Let_def go pop inc if_False simp_thms sum.case prod.case)
  show thesis
  proof (cases "process_event np e ?s1")
    case (Inl err)
    have "(es, r) = ([e], Inl err)" using assms unf unfolding Inl by simp
    then show thesis using failed [OF pop Inl] False by blast
  next
    case (Inr s2)
    obtain es' r' where rl: "run_loop np stops (Suc n) s2 = (es', r')" by fastforce
    have "(es, r) = (e # es', r')" using assms unf unfolding Inr sum.case rl by simp
    then show thesis
      using stepped [OF pop _ _ _ _ _ _ Inr, of es'] rl False by simp
  qed
qed

section \<open>Events are processed in the order of time\<close>

definition timed :: "event_queue \<Rightarrow> bool" where
  "timed q \<longleftrightarrow> eq_inv q \<and> (\<forall>e \<in> set q. is_float (timestamp e))"

lemma timed_pop:
  assumes "timed q" "eq_pop q = Inr (e, q')"
  shows "timed q'" "is_float (timestamp e)" "eq.ahead (timestamp e) q'"
proof -
  have q: "eq_inv q" using assms(1) by (simp add: timed_def)
  have "set q = insert e (set q')" using arg_cong [OF eq.elems_pop [OF q assms(2)], of set_mset] by simp
  then show "timed q'" "is_float (timestamp e)" "eq.ahead (timestamp e) q'"
    using assms eq.invar_pop [OF q assms(2)] eq.ahead_pop [OF q assms(2)] by (simp_all add: timed_def)
qed

lemma timed_queued:
  assumes "queued t q q'" "timed q"
  shows "timed q'" "is_float t \<Longrightarrow> eq.ahead t q \<Longrightarrow> eq.ahead t q'"
proof -
  obtain es where es: "q' = foldl eq_push q es" "\<forall>e \<in> set es. is_action t e"
    using assms(1) by (auto simp: queued_def)
  have q: "eq_inv q" using assms(2) by (simp add: timed_def)
  have "set q' = set q \<union> set es"
    using arg_cong [OF eq_pushes_mset [of q es], of set_mset] es(1) by simp
  then show "timed q'"
    using es assms(2) eq.push_all [OF q, of es] by (auto simp: timed_def is_action_def)
  show "is_float t \<Longrightarrow> eq.ahead t q \<Longrightarrow> eq.ahead t q'"
    using es eq.ahead_push_all [OF q, of t es] by (simp add: is_action_def)
qed

lemma run_loop_sorted:
  "run_loop np stops n s = (es, r) \<Longrightarrow> timed (event_queue s) \<Longrightarrow>
     sorted (map timestamp es) \<and> (\<forall>t. eq.ahead t (event_queue s) \<longrightarrow> (\<forall>e \<in> set es. t \<le> timestamp e))"
proof (induction es arbitrary: n s)
  case (Cons e0 es)
  have q: "eq_inv (event_queue s)" using Cons.prems(2) by (simp add: timed_def)
  from Cons.prems(1) show ?case
  proof (cases rule: run_loop_cases)
    case (failed e q s1 err)
    then show ?thesis using eq.pop_ahead [OF q] by auto
  next
    case (stepped e q s1 s2 es')
    note p = timed_pop [OF Cons.prems(2) stepped(1)]
    have qu: "queued (timestamp e) q (event_queue s2)"
      using process_event_queued(1) [OF stepped(8)] stepped(2) by simp
    have IH: "sorted (map timestamp es)" "\<forall>x \<in> set es. timestamp e \<le> timestamp x"
      using Cons.IH [of "Suc n" s2] stepped(9,10) timed_queued [OF qu p(1)] p(2,3) by auto
    then have "\<forall>x \<in> set es. t \<le> timestamp x" if "t \<le> timestamp e" for t
      using that by (meson order_trans)
    then show ?thesis using IH stepped(10) eq.pop_ahead [OF q _ stepped(1)] by auto
  qed simp
qed simp

section \<open>An uninterrupted run empties the queue\<close>

lemma run_loop_complete:
  assumes never: "\<And>n. \<not> stops n"
  shows "run_loop np stops n s = (es, Inr s') \<Longrightarrow> sim_running s \<Longrightarrow>
     event_queue s' = [] \<and> step_count s' = step_count s + int (moves (mset (event_queue s))) \<and>
     moves (mset es) = moves (mset (event_queue s)) \<and> mset (event_queue s) \<subseteq># mset es"
proof (induction es arbitrary: n s)
  case Nil
  from Nil.prems(1) show ?case
  proof (cases rule: run_loop_cases)
    case finished
    then show ?thesis using never Nil.prems(2) by (simp add: moves_def)
  qed simp_all
next
  case (Cons e0 es)
  from Cons.prems(1) show ?case
  proof (cases rule: run_loop_cases)
    case (stepped e q s1 s2 es')
    have IH: "event_queue s' = []" "step_count s' = step_count s2 + int (moves (mset (event_queue s2)))"
      "moves (mset es) = moves (mset (event_queue s2))" "mset (event_queue s2) \<subseteq># mset es"
      using Cons.IH [of "Suc n" s2] stepped process_event_queued(4) [OF stepped(8)] by auto
    have q: "queued (timestamp e) q (event_queue s2)"
      using process_event_queued(1) [OF stepped(8)] stepped(2) by simp
    then obtain ns where "event_queue s2 = foldl eq_push q ns" by (auto simp: queued_def)
    then have "mset q \<subseteq># mset es" using IH(4) eq_pushes_mset [of q ns] by (metis mset_subset_eq_add_left subset_mset.order_trans)
    moreover have "mset (event_queue s) = mset q + {#e#}" by (rule eq_pop_mset) fact
    ultimately show ?thesis
      using IH(1-3) queued_moves [OF q] process_event_queued(3) [OF stepped(8)] stepped(4,10)
      by (auto simp: moves_def)
  qed simp_all
qed

section \<open>What is scheduled\<close>

text \<open>
  The events of one step of the schedule: a price move at \<open>t\<close>, an action of every agent not
  before \<open>t\<close>, and a sample every hundred steps.
\<close>

lemma schedule_actions_queued:
  "schedule_actions np t aids s = Inr s' \<Longrightarrow>
     \<exists>es. event_queue s' = foldl eq_push (event_queue s) es \<and> (\<forall>e \<in> set es. is_action t e) \<and>
       map event_agent es = map Some aids"
proof (induction aids arbitrary: s)
  case (Cons aid aids)
  obtain s1 where s1: "schedule_action np t aid s = Inr s1" "schedule_actions np t aids s1 = Inr s'"
    using Cons.prems by (auto split: sum.split_asm)
  obtain e where e: "event_queue s1 = eq_push (event_queue s) e" "is_action t e" "event_agent e = Some aid"
  proof -
    obtain l d l' where l: "latency_seconds np l = Inr (d, l')"
      and "s1 = push_event (fadd t d) AGENT_ACTION (Some aid) (s\<lparr>agent_latencies := dict_set aid l' (agent_latencies s)\<rparr>)"
      using s1(1) by (auto simp: schedule_action_def split: option.split_asm sum.split_asm)
    then show thesis
      using that [of "\<lparr>timestamp = fadd t d, event_type = AGENT_ACTION, event_agent = Some aid\<rparr>"]
        fadd_grow [of t d] latency_seconds_nonneg [OF l] by (simp add: push_event_def is_action_def)
  qed
  obtain es where "event_queue s' = foldl eq_push (event_queue s1) es" "\<forall>e \<in> set es. is_action t e"
    "map event_agent es = map Some aids" using Cons.IH [OF s1(2)] by blast
  then show ?case using e by (intro exI [of _ "e # es"]) simp
qed simp

lemma schedule_actions_agents: "schedule_actions np t aids s = Inr s' \<Longrightarrow>
    sim_agents s' = sim_agents s \<and> step_count s' = step_count s \<and> sim_metrics s' = sim_metrics s"
proof (induction aids arbitrary: s)
  case (Cons aid aids)
  then obtain s1 where "schedule_action np t aid s = Inr s1" "schedule_actions np t aids s1 = Inr s'"
    by (auto split: sum.split_asm)
  then show ?case using Cons.IH [of s1] schedule_action_queued(2,3,5) [of np t aid s s1] by simp
qed simp

definition step_sample :: "real \<Rightarrow> nat \<Rightarrow> event list" where
  "step_sample dt i = (if i mod 100 = 0
     then [\<lparr>timestamp = fadd (fmul (fint (int i)) dt) (fmul dt (flit (5 / 10))),
            event_type = METRICS_SAMPLE, event_agent = None\<rparr>] else [])"

definition step_events :: "string list \<Rightarrow> real \<Rightarrow> nat \<Rightarrow> event list \<Rightarrow> bool" where
  "step_events aids dt i es \<longleftrightarrow>
     (\<exists>acts.
        es = \<lparr>timestamp = fmul (fint (int i)) dt, event_type = MIDPRICE_MOVE, event_agent = None\<rparr>
          # acts @ step_sample dt i \<and>
        (\<forall>e \<in> set acts. is_action (fmul (fint (int i)) dt) e) \<and> map event_agent acts = map Some aids)"

lemma schedule_step_events:
  assumes "schedule_step np dt i s = Inr s'"
  shows "\<exists>es. event_queue s' = foldl eq_push (event_queue s) es \<and>
    step_events (dict_keys (sim_agents s)) dt i es" "sim_agents s' = sim_agents s"
    "step_count s' = step_count s" "sim_metrics s' = sim_metrics s"
proof -
  let ?t = "fmul (fint (int i)) dt"
  obtain s1 where s1: "schedule_actions np ?t (dict_keys (sim_agents s)) (push_event ?t MIDPRICE_MOVE None s) = Inr s1"
    and s': "s' = (if i mod 100 = 0 then push_event (fadd ?t (fmul dt (flit (5 / 10)))) METRICS_SAMPLE None s1 else s1)"
    using assms by (auto simp: schedule_step_def Let_def split: sum.split_asm)
  obtain acts where acts: "event_queue s1 = foldl eq_push (event_queue (push_event ?t MIDPRICE_MOVE None s)) acts"
    "\<forall>e \<in> set acts. is_action ?t e" "map event_agent acts = map Some (dict_keys (sim_agents s))"
    using schedule_actions_queued [OF s1] by blast
  let ?es = "\<lparr>timestamp = ?t, event_type = MIDPRICE_MOVE, event_agent = None\<rparr> # acts @ step_sample dt i"
  have "event_queue s' = foldl eq_push (event_queue s) ?es"
    using acts(1) by (simp add: s' push_event_def step_sample_def)
  moreover have "step_events (dict_keys (sim_agents s)) dt i ?es"
    using acts(2,3) unfolding step_events_def by blast
  ultimately show "\<exists>es. event_queue s' = foldl eq_push (event_queue s) es \<and>
    step_events (dict_keys (sim_agents s)) dt i es" by blast
  show "sim_agents s' = sim_agents s" "step_count s' = step_count s" "sim_metrics s' = sim_metrics s"
    using schedule_actions_agents [OF s1] by (simp_all add: s' push_event_def)
qed

lemma schedule_steps_events:
  "schedule_steps np dt is s = Inr s' \<Longrightarrow>
     \<exists>ess. event_queue s' = foldl eq_push (event_queue s) (concat ess) \<and>
       list_all2 (step_events (dict_keys (sim_agents s)) dt) is ess \<and>
       sim_agents s' = sim_agents s \<and> step_count s' = step_count s \<and> sim_metrics s' = sim_metrics s"
proof (induction "is" arbitrary: s)
  case (Cons i "is")
  obtain s1 where s1: "schedule_step np dt i s = Inr s1" "schedule_steps np dt is s1 = Inr s'"
    using Cons.prems by (auto split: sum.split_asm)
  note f = schedule_step_events [OF s1(1)]
  obtain es where es: "event_queue s1 = foldl eq_push (event_queue s) es"
    "step_events (dict_keys (sim_agents s)) dt i es" using f(1) by blast
  obtain ess where "event_queue s' = foldl eq_push (event_queue s1) (concat ess)"
    "list_all2 (step_events (dict_keys (sim_agents s)) dt) is ess"
    "sim_agents s' = sim_agents s" "step_count s' = step_count s" "sim_metrics s' = sim_metrics s"
    using Cons.IH [OF s1(2)] f(2-4) by auto
  then show ?case using es by (intro exI [of _ "es # ess"]) simp
qed simp

lemma step_events_moves: "step_events aids dt i es \<Longrightarrow> moves (mset es) = 1"
proof -
  assume "step_events aids dt i es"
  then obtain acts m where es: "es = m # acts @ step_sample dt i" "event_type m = MIDPRICE_MOVE"
    "\<forall>e \<in> set acts. event_type e = AGENT_ACTION"
    by (auto simp: step_events_def is_action_def)
  have "filter (\<lambda>e. event_type e = MIDPRICE_MOVE) acts = []" using es(3) by (simp add: filter_empty_conv)
  then have "filter_mset (\<lambda>e. event_type e = MIDPRICE_MOVE) (mset acts) = {#}"
    using mset_filter [of "\<lambda>e. event_type e = MIDPRICE_MOVE" acts] by simp
  then show ?thesis using es(1,2) by (simp add: moves_def step_sample_def)
qed

lemma step_events_float: "step_events aids dt i es \<Longrightarrow> e \<in> set es \<Longrightarrow> is_float (timestamp e)"
  by (auto simp: step_events_def step_sample_def is_action_def split: if_split_asm)

lemma step_events_length:
  assumes "step_events aids dt i es"
  shows "length es = 1 + length aids + (if i mod 100 = 0 then 1 else 0)"
proof -
  obtain acts m where "es = m # acts @ step_sample dt i" "map event_agent acts = map Some aids"
    using assms by (auto simp: step_events_def)
  moreover from this(2) have "length acts = length aids" by (metis length_map)
  ultimately show ?thesis by (simp add: step_sample_def)
qed

lemma moves_concat:
  "list_all2 (step_events aids dt) is ess \<Longrightarrow> moves (mset (concat ess)) = length is"
  by (induction rule: list_all2_induct) (auto simp: moves_def dest!: step_events_moves)

end
