(* ===== verification/Arena_Invariant.thy ===== *)
theory Arena_Invariant
  imports Run_Order
begin

text \<open>
  The invariant of the simulator's state: every agent satisfies its own invariant, the agents
  own disjoint blocks of order identifiers, and the counters of the metrics agree with the
  records. Every operation of the simulator keeps it. It is what makes a fill move inventory
  between the two agents that traded and nowhere else.
\<close>

section \<open>The agents of the arena\<close>

definition blocks :: "(string, 'g agent) dict \<Rightarrow> int list" where
  "blocks d = map (\<lambda>(k, a). id_offset (agent_base a)) d"

lemma blocks_simps [simp]:
  "blocks [] = []" "blocks ((k, a) # d) = id_offset (agent_base a) # blocks d"
  by (simp_all add: blocks_def)

definition agent_ok :: "'g agent \<Rightarrow> bool" where
  "agent_ok a \<longleftrightarrow> base_ok (agent_base a) \<and> agent_inv a"

definition agents_ok :: "(string, 'g agent) dict \<Rightarrow> bool" where
  "agents_ok d \<longleftrightarrow> dict_ok d \<and> (\<forall>(k, a) \<in> set d. agent_ok a) \<and> distinct (blocks d) \<and>
     (\<forall>b \<in> set (blocks d). 1000000 dvd b)"

definition sim_ok :: "'g simulator \<Rightarrow> bool" where
  "sim_ok s \<longleftrightarrow> agents_ok (sim_agents s) \<and> metrics_ok (sim_metrics s)"

lemma agents_ok_get: "agents_ok d \<Longrightarrow> dict_get d k = Some a \<Longrightarrow> agent_ok a"
  using dict_get_Some_in [of d k a] by (auto simp: agents_ok_def)

lemma blocks_set:
  "dict_get d k = Some a \<Longrightarrow> id_offset (agent_base a') = id_offset (agent_base a) \<Longrightarrow>
     blocks (dict_set k a' d) = blocks d"
  by (induction d) (auto simp: blocks_def dict_get_def split: if_split_asm)

lemma agents_ok_set:
  assumes "agents_ok d" "dict_get d k = Some a" "agent_ok a'"
    "id_offset (agent_base a') = id_offset (agent_base a)"
  shows "agents_ok (dict_set k a' d)"
  using assms set_dict_set_subset [of k a' d] blocks_set [OF assms(2,4)] by (auto simp: agents_ok_def)

lemma agents_map_ok:
  assumes "agents_ok d" "\<And>a. agent_ok a \<Longrightarrow> agent_ok (f a)"
    "\<And>a. id_offset (agent_base (f a)) = id_offset (agent_base a)"
  shows "agents_ok (agents_map f d)"
proof -
  have "blocks (agents_map f d) = blocks d" using assms(3) by (simp add: blocks_def agents_map_def case_prod_beta)
  moreover have "map fst (agents_map f d) = map fst d" by (simp add: agents_map_def case_prod_beta)
  moreover have "\<forall>(k, a) \<in> set (agents_map f d). agent_ok a"
    using assms(1,2) by (auto simp: agents_map_def agents_ok_def)
  ultimately show ?thesis using assms(1) unfolding agents_ok_def dict_ok_def by auto
qed

lemma agent_ok_on_fill: "agent_ok a \<Longrightarrow> agent_ok (agent_on_fill f a)"
  by (simp add: agent_ok_def agent_base_on_fill base_ok_on_fill agent.fill_inv)

lemma agent_offset_on_fill: "id_offset (agent_base (agent_on_fill f a)) = id_offset (agent_base a)"
  by (simp add: agent_base_on_fill agent.on_fill_ids)

lemma agent_ok_update:
  "agent_on_book_update np u n a = Inr (os, a') \<Longrightarrow> agent_ok a \<Longrightarrow>
     agent_ok a' \<and> id_offset (agent_base a') = id_offset (agent_base a)"
  unfolding agent_ok_def using agent.update_ok agent.update_ledger by blast

section \<open>The operations keep it\<close>

lemma metrics_submit:
  "metrics_ok (sim_metrics s) \<Longrightarrow> metrics_ok (sim_metrics (submit_cancel i s))"
  "metrics_ok (sim_metrics s) \<Longrightarrow> metrics_ok (sim_metrics (submit_order o1 s))"
  by (simp_all add: submit_cancel_def submit_order_def with_tcp_def QuoteRecord_def
      split: option.split sum.split prod.split)

lemma foldl_inv: "P s \<Longrightarrow> (\<And>s x. P s \<Longrightarrow> P (f s x)) \<Longrightarrow> P (foldl f s xs)"
  by (induction xs arbitrary: s) simp_all

lemma sim_ok_handle_message: "sim_ok s \<Longrightarrow> sim_ok (handle_message m s)"
  by (cases m) (auto simp: sim_ok_def handle_message_def intro!: agents_map_ok
      agent_ok_on_fill agent_offset_on_fill)

lemma sim_ok_receive:
  assumes "sim_ok s"
  shows "sim_ok (receive s)"
proof -
  have "sim_ok (foldl (\<lambda>s m. handle_message (snd m) s) (with_tcp c s) ms)" for c and ms :: messages
    by (rule foldl_inv [where P = sim_ok])
      (use assms in \<open>simp add: sim_ok_def with_tcp_def\<close>, rule sim_ok_handle_message)
  then show ?thesis
    using assms by (simp add: receive_def Let_def sim_ok_def with_tcp_def split: option.split sum.split prod.split)
qed

lemma sim_ok_submits:
  assumes "sim_ok s"
  shows "sim_ok (submit_cancels ids s)" "sim_ok (submit_orders os s)"
proof -
  show "sim_ok (submit_cancels ids s)"
    unfolding submit_cancels_def
    by (rule foldl_inv [where P = sim_ok, OF assms]) (simp add: sim_ok_def metrics_submit)
  have "sim_ok (foldl (\<lambda>s o1. submit_order o1 s) s os)"
    by (rule foldl_inv [where P = sim_ok, OF assms]) (simp add: sim_ok_def metrics_submit)
  then show "sim_ok (submit_orders os s)"
    using assms by (simp add: submit_orders_def sim_ok_receive)
qed

lemma agent_action_cases:
  assumes "agent_action np who s = Inr s'"
  obtains (idle) "s' = s"
  | (acted) u aid a os a1 where "last_book_update s = Some u" "who = Some aid"
      "dict_get (sim_agents s) aid = Some a" "agent_on_book_update np u (step_count s) a = Inr (os, a1)"
      "s' = submit_orders os (submit_cancels (agent_pending_cancels a1)
        (s\<lparr>sim_agents := dict_set aid (if agent_pending_cancels a1 \<noteq> [] then agent_clear_cancels a1 else a1)
             (sim_agents s)\<rparr>))"
proof (cases "\<exists>u aid a. last_book_update s = Some u \<and> who = Some aid \<and> dict_get (sim_agents s) aid = Some a")
  case False
  then have "s' = s" using assms by (simp add: agent_action_def split: option.split_asm)
  then show thesis by (rule idle)
next
  case True
  then obtain u aid a where 1: "last_book_update s = Some u" "who = Some aid"
    "dict_get (sim_agents s) aid = Some a" by blast
  note unf = assms [unfolded agent_action_def 1 prod.case option.case]
  show thesis
  proof (cases "agent_on_book_update np u (step_count s) a")
    case (Inr r)
    obtain os a1 where "r = (os, a1)" by (cases r)
    with Inr have 2: "agent_on_book_update np u (step_count s) a = Inr (os, a1)" by simp
    show thesis using acted [OF 1 2] unf [unfolded 2 sum.case prod.case Let_def] by simp
  qed (use unf in simp)
qed

lemma sim_ok_agent_action:
  assumes "agent_action np who s = Inr s'" "sim_ok s"
  shows "sim_ok s'"
  using assms(1)
proof (cases rule: agent_action_cases)
  case (acted u aid a os a1)
  have "agent_ok a" using agents_ok_get acted(3) assms(2) by (auto simp: sim_ok_def)
  then have "agent_ok a1" "id_offset (agent_base a1) = id_offset (agent_base a)"
    using agent_ok_update [OF acted(4)] by auto
  then have "agents_ok (dict_set aid (if agent_pending_cancels a1 \<noteq> [] then agent_clear_cancels a1 else a1)
           (sim_agents s))"
    using assms(2) acted(3) by (intro agents_ok_set [of _ _ a]) (auto simp: sim_ok_def agent_ok_def)
  then show ?thesis unfolding acted(5) using assms(2) by (intro sim_ok_submits) (simp add: sim_ok_def)
qed (use assms(2) in simp)

lemma sim_ok_hawkes_flow: "hawkes_flow np t s = Inr s' \<Longrightarrow> sim_ok s \<Longrightarrow> sim_ok s'"
  by (auto simp: hawkes_flow_def sim_ok_def split: option.split_asm sum.split_asm dest!: extra_actions_queued)

lemma sim_ok_midprice_move:
  assumes "midprice_move np t s = Inr s'" "sim_ok s"
  shows "sim_ok s'"
proof -
  obtain mid p where h: "hawkes_flow np t (s\<lparr>sim_price := p, current_mid := mid,
      step_count := step_count s + 1, sim_agents := agents_map (agent_set_true_price mid) (sim_agents s)\<rparr>) = Inr s'"
    using assms(1) by (auto simp: midprice_move_def split: sum.split_asm)
  have "agents_ok (agents_map (agent_set_true_price mid) (sim_agents s))"
    using assms(2) by (intro agents_map_ok) (auto simp: sim_ok_def agent_ok_def)
  then show ?thesis using sim_ok_hawkes_flow [OF h] assms(2) by (simp add: sim_ok_def)
qed

lemma sim_ok_process_event: "process_event np e s = Inr s' \<Longrightarrow> sim_ok s \<Longrightarrow> sim_ok s'"
  unfolding process_event_def
  by (auto split: event_type.split_asm intro: sim_ok_midprice_move sim_ok_agent_action)
    (auto simp: metrics_sample_def sim_ok_def Let_def split: option.split)

text \<open>The commands of the frontend act on the human agent only.\<close>

definition human_step :: "(human_agent \<Rightarrow> human_agent) \<Rightarrow> bool" where
  "human_step f \<longleftrightarrow> (\<forall>h. base_ok h \<and> human_ok h \<longrightarrow> base_ok (f h) \<and> human_ok (f h) \<and> id_offset (f h) = id_offset h)"

lemma human_step_queue: "human_step (human_queue side ty price qty)"
proof -
  have "base_ok (human_queue side ty price qty h)" if "base_ok h" for h
    using that by (auto simp: base_ok_def ids_ok_def ledger_ok_def human_queue_def next_order_id_def)
  moreover have "id_offset (human_queue side ty price qty h) = id_offset h" for h
    by (simp add: human_queue_def next_order_id_def)
  ultimately show ?thesis using human_queue_ok by (auto simp: human_step_def base_ok_def)
qed

lemma human_step_limit: "human_step (place_limit_order side offset qty)"
  using human_step_queue by (auto simp: human_step_def place_limit_order_def Let_def split: option.split)

lemma human_step_market: "human_step (place_market_order side qty)"
  using human_step_queue by (auto simp: human_step_def place_market_order_def)

lemma human_step_cancel: "human_step cancel_all_quotes"
  by (auto simp: human_step_def cancel_all_quotes_def cancel_all_def base_ok_def ids_ok_def ledger_ok_def human_ok_def)

lemma sim_ok_with_human:
  assumes "with_human f s = Inr s'" "human_step f" "sim_ok s"
  shows "sim_ok s'"
proof -
  obtain h where h: "dict_get (sim_agents s) ''HUMAN'' = Some (Human_Agent h)"
    and s': "s' = s\<lparr>sim_agents := dict_set ''HUMAN'' (Human_Agent (f h)) (sim_agents s)\<rparr>"
    using assms(1) by (auto simp: with_human_def split: option.split_asm agent.split_asm)
  have "agent_ok (Human_Agent h :: 'a agent)" using agents_ok_get [OF _ h] assms(3) by (simp add: sim_ok_def)
  then have "agents_ok (dict_set ''HUMAN'' (Human_Agent (f h)) (sim_agents s))"
    using assms(2,3) h by (intro agents_ok_set [OF _ h]) (auto simp: sim_ok_def agent_ok_def human_step_def)
  then show ?thesis using assms(3) by (simp add: s' sim_ok_def)
qed

lemma sim_ok_ws_message: "sim_ok s \<Longrightarrow> sim_ok (snd (ws_message m s))"
proof -
  assume s: "sim_ok s"
  have "sim_ok s'" if "human_command a q k s = Inr s'" for a q k s'
    using that s sim_ok_with_human [OF _ human_step_limit] sim_ok_with_human [OF _ human_step_market]
      sim_ok_with_human [OF _ human_step_cancel]
    by (simp add: human_command_def split: if_split_asm)
  moreover have "sim_ok (snd (scenario data s))" for data
    using s by (simp add: scenario_def with_tcp_def sim_ok_def split: sum.split option.split prod.split)
  ultimately show ?thesis
    using s ws_message_cases [of m s] human_action_frame [of _ s] by metis
qed

lemma sim_ok_incoming: "sim_ok s \<Longrightarrow> sim_ok (process_incoming_ws_messages s)"
  unfolding process_incoming_ws_messages_def
  by (auto split: option.split prod.split intro!: foldl_inv [where P = sim_ok] sim_ok_ws_message)
    (simp add: sim_ok_def)

lemma run_loop_ok: "run_loop np stops n s = (es, Inr s') \<Longrightarrow> sim_ok s \<Longrightarrow> sim_ok s'"
proof (induction es arbitrary: n s)
  case Nil
  from Nil.prems(1) show ?case
  proof (cases rule: run_loop_cases)
    case finished
    then show ?thesis using Nil.prems(2) by (auto simp: sim_ok_def sim_stop_def)
  qed simp_all
next
  case (Cons e0 es)
  from Cons.prems(1) show ?case
  proof (cases rule: run_loop_cases)
    case (stepped e q s1 s2 es')
    have "sim_ok s1" using sim_ok_incoming [OF Cons.prems(2)] stepped(11) by (simp add: sim_ok_def)
    then show ?thesis using Cons.IH stepped(8-10) sim_ok_process_event by blast
  qed simp_all
qed

section \<open>The agents created by a run\<close>

text \<open>All identifiers given out so far lie below the block of the next agent.\<close>

definition arena_upto :: "int \<Rightarrow> (string, 'g agent) dict \<Rightarrow> bool" where
  "arena_upto c d \<longleftrightarrow> agents_ok d \<and> (\<forall>b \<in> set (blocks d). b < c * 1000000)"

lemma blocks_set_subset: "set (blocks (dict_set k a d)) \<subseteq> insert (id_offset (agent_base a)) (set (blocks d))"
  by (induction k a d rule: dict_set.induct) auto

lemma blocks_set_distinct:
  "distinct (blocks d) \<Longrightarrow> id_offset (agent_base a) \<notin> set (blocks d) \<Longrightarrow> distinct (blocks (dict_set k a d))"
proof (induction k a d rule: dict_set.induct)
  case (2 k a k' a' d)
  then show ?case using blocks_set_subset [of k a d] by auto
qed simp

text \<open>A constructor that gives its agent the next block.\<close>

definition newborn :: "int \<Rightarrow> base_agent \<Rightarrow> bool" where
  "newborn c b \<longleftrightarrow> base_ok b \<and> id_offset b = c * 1000000"

lemma newborn_base: "newborn c (fst (base_init aid tick c))"
  using base_ok_init [of aid tick c] by (simp add: newborn_def base_init_def)

lemma arena_add:
  assumes "arena_upto c (sim_agents s)" "newborn c (agent_base a)" "agent_inv a"
  shows "arena_upto (c + 1) (sim_agents (add_agent k a l s))"
proof -
  have "id_offset (agent_base a) \<notin> set (blocks (sim_agents s))"
    using assms(1,2) by (auto simp: arena_upto_def newborn_def)
  then have "agents_ok (dict_set k a (sim_agents s))"
    using assms blocks_set_distinct [of "sim_agents s" a k] blocks_set_subset [of k a "sim_agents s"]
      set_dict_set_subset [of k a "sim_agents s"]
    by (auto simp: arena_upto_def agents_ok_def newborn_def agent_ok_def)
  moreover have "\<forall>b \<in> set (blocks (dict_set k a (sim_agents s))). b < (c + 1) * 1000000"
    using assms(1,2) blocks_set_subset [of k a "sim_agents s"]
    by (fastforce simp: arena_upto_def newborn_def)
  ultimately show ?thesis by (simp add: arena_upto_def add_agent_def)
qed

lemma newborn_inits:
  "create_mm np cfg c = (a1, c1) \<Longrightarrow> newborn c (base_agent.truncate a1) \<and> c1 = c + 1"
  "create_noise np cfg i c = (a2, c2) \<Longrightarrow> newborn c (base_agent.truncate a2) \<and> c2 = c + 1"
  "create_informed np cfg c = (a3, c3) \<Longrightarrow> newborn c (base_agent.truncate a3) \<and> c3 = c + 1"
  "create_momentum np cfg c = Inr (a4, c4) \<Longrightarrow> newborn c (base_agent.truncate a4) \<and> c4 = c + 1"
  "create_arb np cfg c = (a5, c5) \<Longrightarrow> newborn c (base_agent.truncate a5) \<and> c5 = c + 1"
  "human_init aid c = (a6, c6) \<Longrightarrow> newborn c (base_agent.truncate a6) \<and> c6 = c + 1 \<and> human_ok a6"
  using newborn_base [of c]
  by (auto simp: create_mm_def mm_init_def create_noise_def noise_init_def create_informed_def informed_init_def
      create_momentum_def momentum_init_def create_arb_def latency_arb_init_def human_init_def human_ok_def
      base_init_def base_agent.defs market_maker.defs noise_trader.defs informed_trader.defs
      momentum_trader.defs latency_arb.defs human_agent.defs Let_def split: if_split_asm)

lemma arena_noises:
  "create_noises np is (s, c) = (s', c') \<Longrightarrow> arena_upto c (sim_agents s) \<Longrightarrow>
     arena_upto c' (sim_agents s') \<and> sim_metrics s' = sim_metrics s"
proof (induction "is" arbitrary: s c)
  case (Cons i "is")
  obtain a c1 where a: "create_noise np (sim_cfg s) i c = (a, c1)" by fastforce
  let ?s = "add_agent (noise_id i) (Noise_Agent a) (Model_Latency (retail_latency np (42 + int i))) s"
  have "create_noises np is (?s, c1) = (s', c')" using Cons.prems(1) a by simp
  moreover have "arena_upto c1 (sim_agents ?s)"
    using arena_add [OF Cons.prems(2), of "Noise_Agent a"] newborn_inits(2) [OF a] by simp
  ultimately show ?case using Cons.IH [of ?s c1] by (simp add: add_agent_def)
qed simp

lemma create_agents_arena:
  assumes "create_agents np c s = Inr (s', c')" "arena_upto c (sim_agents s)"
  shows "arena_upto c' (sim_agents s') \<and> sim_metrics s' = sim_metrics s"
proof -
  obtain mm c1 where mm: "create_mm np (sim_cfg s) c = (mm, c1)" by fastforce
  let ?s1 = "add_agent ''MM'' (MM_Agent mm) (Model_Latency (market_maker_latency np 42)) s"
  obtain s2 c2 where s2: "create_noises np [0..<nat (cfg_get (cfg_num_noise (sim_cfg s)) 3)] (?s1, c1) = (s2, c2)"
    by fastforce
  obtain it c3 where it: "create_informed np (sim_cfg s) c2 = (it, c3)" by fastforce
  let ?s3 = "add_agent ''INFORMED'' (Informed_Agent it)
    (Model_Latency (latency_init np (Some (LatencyConfig 500 100)) 100)) s2"
  obtain mt c4 where mt: "create_momentum np (sim_cfg s) c3 = Inr (mt, c4)"
    using assms(1) mm s2 it by (auto simp: create_agents_def Let_def split: sum.split_asm)
  let ?s4 = "add_agent ''MOMENTUM'' (Momentum_Agent mt) (Model_Latency (retail_latency np 200)) ?s3"
  obtain la c5 where la: "create_arb np (sim_cfg s) c4 = (la, c5)" by fastforce
  let ?s5 = "add_agent ''LAT_ARB'' (Arb_Agent la) (Model_Latency (latency_arb_latency np 300)) ?s4"
  obtain hu c6 where hu: "human_init ''HUMAN'' c5 = (hu, c6)" by fastforce
  let ?s6 = "add_agent ''HUMAN'' (Human_Agent hu) Zero_Latency ?s5"
  have s': "s' = ?s6" "c' = c6" using assms(1) mm s2 it mt la hu by (simp_all add: create_agents_def Let_def)
  note new = newborn_inits(1) [OF mm] newborn_inits(3) [OF it] newborn_inits(4) [OF mt]
    newborn_inits(5) [OF la] newborn_inits(6) [OF hu]
  have "arena_upto c1 (sim_agents ?s1)" using arena_add [OF assms(2), of "MM_Agent mm"] new by simp
  then have 2: "arena_upto c2 (sim_agents s2)" "sim_metrics s2 = sim_metrics ?s1" using arena_noises [OF s2] by auto
  have "arena_upto c3 (sim_agents ?s3)" using arena_add [OF 2(1), of "Informed_Agent it"] new by simp
  then have "arena_upto c4 (sim_agents ?s4)" using arena_add [of c3 ?s3 "Momentum_Agent mt"] new by simp
  then have "arena_upto c5 (sim_agents ?s5)" using arena_add [of c4 ?s4 "Arb_Agent la"] new by simp
  then have "arena_upto c6 (sim_agents ?s6)" using arena_add [of c5 ?s5 "Human_Agent hu"] new by simp
  then show ?thesis using 2(2) by (simp add: s' add_agent_def)
qed

end
