(* ===== verification/Run_Total.thy ===== *)
theory Run_Total
  imports Arena_Invariant
begin

text \<open>
  A run on a well-formed configuration raises no exception: no draw is asked for an empty
  range, no agent divides by zero, no dictionary is read at a missing key. \<open>valid_config\<close> says
  which configurations these are; \<open>healthy\<close> is the invariant of the state that carries the
  argument through the loop.
\<close>

section \<open>Agents that never raise\<close>

fun agent_sane :: "'g agent \<Rightarrow> bool" where
  "agent_sane (MM_Agent a) \<longleftrightarrow> mm_total_steps a \<noteq> 0 \<and> mm_gamma a \<noteq> 0 \<and> mm_kappa a \<noteq> 0"
| "agent_sane (Noise_Agent a) \<longleftrightarrow> nt_min_qty a \<le> nt_max_qty a \<and> 1 \<le> nt_spread_range a"
| "agent_sane (Informed_Agent a) \<longleftrightarrow> it_min_qty a \<le> it_max_qty a"
| "agent_sane (Momentum_Agent a) \<longleftrightarrow> mt_min_qty a \<le> mt_max_qty a"
| "agent_sane (Arb_Agent a) \<longleftrightarrow> la_min_qty a \<le> la_max_qty a"
| "agent_sane (Human_Agent a) \<longleftrightarrow> True"

lemma noise_total:
  assumes np: "numpy_ok np" and a: "nt_min_qty a \<le> nt_max_qty a" "1 \<le> nt_spread_range a"
  shows "\<exists>os a'. noise_on_book_update np u n a = Inr (os, a') \<and> agent_sane (Noise_Agent a')"
proof -
  obtain r g1 where 1: "np_random np (nt_rng a) = (r, g1)" by fastforce
  obtain side g2 where 2: "np_integers np 0 2 g1 = Inr (side, g2)"
    using numpy_integers_total [OF np, of 0 2] by fastforce
  obtain qty g3 where 3: "np_integers np (nt_min_qty a) (nt_max_qty a + 1) g2 = Inr (qty, g3)"
    using numpy_integers_total [OF np, of "nt_min_qty a" "nt_max_qty a + 1"] a(1) by fastforce
  obtain r' g4 where 4: "np_random np g3 = (r', g4)" by fastforce
  obtain offset g5 where 5: "np_integers np 1 (nt_spread_range a + 1) g4 = Inr (offset, g5)"
    using numpy_integers_total [OF np, of 1 "nt_spread_range a + 1"] a(2) by fastforce
  show ?thesis using 1 2 3 4 5 a by (simp add: noise_on_book_update_def emit_defs Let_def)
qed

lemma informed_total:
  assumes np: "numpy_ok np" and a: "it_min_qty a \<le> it_max_qty a"
  shows "\<exists>os a'. informed_on_book_update np u n a = Inr (os, a') \<and> agent_sane (Informed_Agent a')"
proof -
  obtain r g1 where 1: "np_random np (it_rng a) = (r, g1)" by fastforce
  obtain qty g2 where 2: "np_integers np (it_min_qty a) (it_max_qty a + 1) g1 = Inr (qty, g2)"
    using numpy_integers_total [OF np, of "it_min_qty a" "it_max_qty a + 1"] a by fastforce
  show ?thesis using 1 2 a by (simp add: informed_on_book_update_def emit_defs Let_def)
qed

lemma momentum_total:
  assumes np: "numpy_ok np" and a: "mt_min_qty a \<le> mt_max_qty a"
  shows "\<exists>os a'. momentum_on_book_update np u n a = Inr (os, a') \<and> agent_sane (Momentum_Agent a')"
proof -
  obtain r g1 where 1: "np_random np (mt_rng a) = (r, g1)" by fastforce
  obtain qty g2 where 2: "np_integers np (mt_min_qty a) (mt_max_qty a + 1) g1 = Inr (qty, g2)"
    using numpy_integers_total [OF np, of "mt_min_qty a" "mt_max_qty a + 1"] a by fastforce
  show ?thesis using 1 2 a by (simp add: momentum_on_book_update_def emit_defs Let_def)
qed

lemma guarded_draw_sane:
  "guarded_draw np c p a = (b, a') \<Longrightarrow> la_min_qty a' = la_min_qty a \<and> la_max_qty a' = la_max_qty a"
  by (auto simp: guarded_draw_def split: if_split_asm prod.split_asm)

lemma arb_take_total:
  assumes np: "numpy_ok np" and a: "la_min_qty a \<le> la_max_qty a"
  shows "\<exists>os a'. arb_take np side room a = Inr (os, a') \<and> agent_sane (Arb_Agent a')"
proof -
  obtain v g where "np_integers np (la_min_qty a) (la_max_qty a + 1) (la_rng a) = Inr (v, g)"
    using numpy_integers_total [OF np, of "la_min_qty a" "la_max_qty a + 1"] a by fastforce
  then show ?thesis using a by (simp add: arb_take_def emit_defs Let_def)
qed

lemma arb_flatten_sane:
  "arb_flatten mid a = (os, a') \<Longrightarrow> la_min_qty a' = la_min_qty a \<and> la_max_qty a' = la_max_qty a"
  by (auto simp: arb_flatten_def emit_defs Let_def split: if_split_asm)

lemma latency_arb_total:
  assumes np: "numpy_ok np" and a: "la_min_qty a \<le> la_max_qty a"
  shows "\<exists>os a'. latency_arb_on_book_update np u n a = Inr (os, a') \<and> agent_sane (Arb_Agent a')"
proof -
  let ?inv = "inventory (stats a)"
  obtain b1 a1 where 1: "guarded_draw np (la_true_price a - best_ask u > la_threshold a
      \<and> ?inv < la_max_position a) (la_trade_prob a) a = (b1, a1)" by fastforce
  obtain b2 a2 where 2: "guarded_draw np (best_bid u - la_true_price a > la_threshold a
      \<and> ?inv > - la_max_position a) (la_trade_prob a) a1 = (b2, a2)" by fastforce
  obtain b3 a3 where 3: "guarded_draw np (\<bar>?inv\<bar> > la_max_position a div 2) (flit (3 / 10)) a2 = (b3, a3)"
    by fastforce
  note s = 1 [THEN guarded_draw_sane] 2 [THEN guarded_draw_sane] 3 [THEN guarded_draw_sane]
  obtain os a' where "arb_take np 0 (la_max_position a - ?inv) a1 = Inr (os, a')" "agent_sane (Arb_Agent a')"
    using arb_take_total [OF np, of a1] s a by force
  moreover obtain os2 a2' where "arb_take np 1 (la_max_position a + ?inv) a2 = Inr (os2, a2')"
    "agent_sane (Arb_Agent a2')" using arb_take_total [OF np, of a2] s a by force
  moreover obtain os3 a3' where f: "arb_flatten ((best_bid u + best_ask u) div 2) a3 = (os3, a3')" by fastforce
  moreover have "agent_sane (Arb_Agent a3')" using arb_flatten_sane [OF f] s a by simp
  ultimately show ?thesis
    using 1 2 3 s a by (simp add: latency_arb_on_book_update_def Let_def)
qed

lemma mm_more_cong:
  "base_agent.more a' = base_agent.more (a :: 'g market_maker) \<Longrightarrow>
     mm_total_steps a' = mm_total_steps a \<and> mm_gamma a' = mm_gamma a \<and> mm_kappa a' = mm_kappa a"
  by (cases a; cases a') simp

lemma mm_total:
  assumes a: "mm_total_steps a \<noteq> 0" "mm_gamma a \<noteq> 0" "mm_kappa a \<noteq> 0"
  shows "\<exists>os a'. mm_on_book_update np u n a = Inr (os, a') \<and> agent_sane (MM_Agent a')"
proof (cases "best_bid u \<le> 0 \<or> best_ask u \<le> 0")
  case True
  then show ?thesis using a by (simp add: mm_on_book_update_def)
next
  case False
  let ?b = "update_unrealized_pnl (py_int (mm_mid u)) a"
  let ?a2 = "(snd (cancel_all ?b))\<lparr>mm_pending_cancels := Some (dict_keys (active_orders ?b))\<rparr>"
  obtain sigma a3 where est: "estimate_sigma_sq np (mm_mid u) ?a2 = (sigma, a3)" by fastforce
  have a3: "mm_total_steps a3 \<noteq> 0" "mm_gamma a3 \<noteq> 0" "mm_kappa a3 \<noteq> 0"
    using estimate_sigma_sq_frame [OF est] a
    by (simp_all add: cancel_all_def update_unrealized_pnl_def Let_def)
  have "agent_sane (MM_Agent (a4\<lparr>mm_quote_history := h\<rparr>))"
    if "place_levels cb cs bid ask sp qty ls a3 = (os, a4)" for cb cs bid ask sp qty ls os a4 h
    using mm_more_cong [OF place_levels_more [OF that]] a3 by simp
  then show ?thesis
    using False est a3 by (auto simp: mm_on_book_update_def Let_def cancel_all_def split: prod.split)
qed

lemma agent_total:
  assumes "numpy_ok np" "agent_sane a"
  shows "\<exists>os a'. agent_on_book_update np u n a = Inr (os, a') \<and> agent_sane a'"
proof (cases a)
  case (MM_Agent x)
  then show ?thesis using mm_total [of x np u n] assms(2) by (auto simp: wrap_update_def)
next
  case (Noise_Agent x)
  then show ?thesis using noise_total [OF assms(1), of x u n] assms(2) by (auto simp: wrap_update_def)
next
  case (Informed_Agent x)
  then show ?thesis using informed_total [OF assms(1), of x u n] assms(2) by (auto simp: wrap_update_def)
next
  case (Momentum_Agent x)
  then show ?thesis using momentum_total [OF assms(1), of x u n] assms(2) by (auto simp: wrap_update_def)
next
  case (Arb_Agent x)
  then show ?thesis using latency_arb_total [OF assms(1), of x u n] assms(2) by (auto simp: wrap_update_def)
next
  case (Human_Agent x)
  then show ?thesis by (simp add: wrap_update_def human_on_book_update_def Let_def)
qed

lemma agent_sane_ops [simp]:
  "agent_sane (agent_on_fill f a) = agent_sane a"
  "agent_sane (agent_set_true_price p a) = agent_sane a"
  "agent_sane (agent_clear_cancels a) = agent_sane a"
  by (cases a; simp add: on_fill_def Let_def informed_set_true_price_def latency_arb_set_true_price_def
      split: option.split)+

section \<open>The state between events\<close>

fun price_sane :: "'g price_process \<Rightarrow> bool" where
  "price_sane (GBM_Process p) \<longleftrightarrow> 0 \<le> gbm_dt p"
| "price_sane (RS_Process p) \<longleftrightarrow> 0 \<le> rs_dt p \<and> regimes_ok p"
| "price_sane (OU_Process p) \<longleftrightarrow> 0 \<le> ou_dt p"

fun latency_sane :: "'g latency \<Rightarrow> bool" where
  "latency_sane Zero_Latency \<longleftrightarrow> True"
| "latency_sane (Model_Latency m) \<longleftrightarrow> latency_ok m"

definition hawkes_sane :: "'g simulator \<Rightarrow> bool" where
  "hawkes_sane s \<longleftrightarrow> (\<forall>h. sim_hawkes s = Some h \<longrightarrow> hawkes_ok h)"

definition latencies_sane :: "(string, 'g agent) dict \<Rightarrow> (string, 'g latency) dict \<Rightarrow> bool" where
  "latencies_sane d ls \<longleftrightarrow> fst ` set d \<subseteq> fst ` set ls \<and> (\<forall>(k, l) \<in> set ls. latency_sane l)"

definition healthy :: "'g simulator \<Rightarrow> bool" where
  "healthy s \<longleftrightarrow> (\<forall>(k, a) \<in> set (sim_agents s). agent_sane a) \<and>
     latencies_sane (sim_agents s) (agent_latencies s) \<and> price_sane (sim_price s) \<and> hawkes_sane s \<and>
     (\<exists>dt. sim_dt s = Inr dt \<and> 0 \<le> dt)"

lemma price_step_total:
  "numpy_ok np \<Longrightarrow> price_sane p \<Longrightarrow> \<exists>v p'. price_step np p = Inr (v, p') \<and> price_sane p'"
  using gbm_step_total ou_step_total rs_step_total by (cases p) fastforce+

lemma latency_seconds_total:
  "numpy_ok np \<Longrightarrow> latency_sane l \<Longrightarrow> \<exists>d l'. latency_seconds np l = Inr (d, l') \<and> latency_sane l'"
  using sample_seconds_total by (cases l) fastforce+

lemma schedule_action_total:
  assumes "numpy_ok np" "latencies_sane (sim_agents s) (agent_latencies s)" "aid \<in> fst ` set (sim_agents s)"
  shows "\<exists>s'. schedule_action np t aid s = Inr s' \<and> latencies_sane (sim_agents s') (agent_latencies s') \<and>
    sim_agents s' = sim_agents s \<and> sim_price s' = sim_price s \<and> sim_hawkes s' = sim_hawkes s \<and>
    sim_cfg s' = sim_cfg s"
proof -
  have "aid \<in> fst ` set (agent_latencies s)" using assms(2,3) by (auto simp: latencies_sane_def)
  then obtain l where l: "dict_get (agent_latencies s) aid = Some l"
    using dict_get_None_iff [of "agent_latencies s" aid] by (cases "dict_get (agent_latencies s) aid") auto
  have ls: "latency_sane l" using dict_get_Some_in [OF l] assms(2) by (auto simp: latencies_sane_def)
  obtain d l' where "latency_seconds np l = Inr (d, l')" "latency_sane l'"
    using latency_seconds_total [OF assms(1) ls] by blast
  then show ?thesis
    using l assms(2) set_keys_dict_set [of aid l' "agent_latencies s"]
      set_dict_set_subset [of aid l' "agent_latencies s"]
    by (auto simp: schedule_action_def push_event_def latencies_sane_def)
qed

lemma extra_actions_total:
  assumes "numpy_ok np"
  shows "latencies_sane (sim_agents s) (agent_latencies s) \<Longrightarrow>
    \<exists>s'. extra_actions np t n s = Inr s' \<and> latencies_sane (sim_agents s') (agent_latencies s') \<and>
    sim_agents s' = sim_agents s \<and> sim_price s' = sim_price s \<and> sim_hawkes s' = sim_hawkes s \<and>
    sim_cfg s' = sim_cfg s"
proof (induction n arbitrary: s)
  case (Suc n)
  show ?case
  proof (cases "dict_get (sim_agents s) ''NOISE_0'' = None")
    case False
    then have "''NOISE_0'' \<in> fst ` set (sim_agents s)" by (simp add: dict_get_None_iff)
    then obtain s1 where s1: "schedule_action np t ''NOISE_0'' s = Inr s1"
      "latencies_sane (sim_agents s1) (agent_latencies s1)" "sim_agents s1 = sim_agents s"
      "sim_price s1 = sim_price s" "sim_hawkes s1 = sim_hawkes s" "sim_cfg s1 = sim_cfg s"
      using schedule_action_total [OF assms Suc.prems] by blast
    show ?thesis using False s1 Suc.IH [OF s1(2)] by auto
  qed (use Suc in simp)
qed simp

lemma sim_dt_cfg: "sim_cfg s' = sim_cfg s \<Longrightarrow> sim_dt s' = sim_dt s"
  by (simp add: sim_dt_def)

lemma agents_map_keys: "fst ` set (agents_map f d) = fst ` set d"
  by (force simp: agents_map_def)

lemma agents_map_sane:
  "\<forall>(k, a) \<in> set d. agent_sane a \<Longrightarrow> (\<And>a. agent_sane (f a) = agent_sane a) \<Longrightarrow>
     \<forall>(k, a) \<in> set (agents_map f d). agent_sane a"
  by (auto simp: agents_map_def)

lemma midprice_move_total:
  assumes np: "numpy_ok np" and h: "healthy s"
  shows "\<exists>s'. midprice_move np t s = Inr s' \<and> healthy s'"
proof -
  have "price_sane (sim_price s)" using h by (simp add: healthy_def)
  then obtain mid p where p: "price_step np (sim_price s) = Inr (mid, p)" "price_sane p"
    using price_step_total [OF np] by blast
  let ?s = "s\<lparr>sim_price := p, current_mid := mid, step_count := step_count s + 1,
    sim_agents := agents_map (agent_set_true_price mid) (sim_agents s)\<rparr>"
  obtain dt where dt: "sim_dt s = Inr dt" "0 \<le> dt" using h by (auto simp: healthy_def)
  have hs: "healthy ?s"
    using h p(2) sim_dt_cfg [of ?s s] agents_map_sane [of "sim_agents s" "agent_set_true_price mid"]
    by (simp add: healthy_def latencies_sane_def hawkes_sane_def agents_map_keys)
  show ?thesis
  proof (cases "sim_hawkes s")
    case None
    then show ?thesis using p hs by (simp add: midprice_move_def hawkes_flow_def)
  next
    case (Some hk)
    then have "hawkes_ok hk" using h by (simp add: healthy_def hawkes_sane_def)
    then obtain n hk' where hk': "hawkes_step np dt hk = Inr (n, hk')" "hawkes_ok hk'"
      using hawkes_step_total [OF np _ dt(2)] hawkes_ok_step dt(2) by blast
    let ?s2 = "?s\<lparr>sim_hawkes := Some hk'\<rparr>"
    have h2: "healthy ?s2" using hs hk'(2) sim_dt_cfg [of ?s2 ?s] by (simp add: healthy_def hawkes_sane_def)
    then have "latencies_sane (sim_agents ?s2) (agent_latencies ?s2)" unfolding healthy_def by blast
    then obtain s' where s': "extra_actions np t n ?s2 = Inr s'"
      "latencies_sane (sim_agents s') (agent_latencies s')" "sim_agents s' = sim_agents ?s2"
      "sim_price s' = sim_price ?s2" "sim_hawkes s' = sim_hawkes ?s2" "sim_cfg s' = sim_cfg ?s2"
      using extra_actions_total [OF np, of ?s2 t n] by blast
    have "healthy s'" using h2 s' sim_dt_cfg [OF s'(6)] by (simp add: healthy_def hawkes_sane_def)
    moreover have "sim_dt ?s = Inr dt" using dt(1) sim_dt_cfg [of ?s s] by simp
    ultimately show ?thesis
      using p(1) Some hk'(1) s'(1) by (simp add: midprice_move_def hawkes_flow_def)
  qed
qed

text \<open>What submitting and receiving leave alone.\<close>

definition same_health :: "'g simulator \<Rightarrow> 'g simulator \<Rightarrow> bool" where
  "same_health s s' \<longleftrightarrow> fst ` set (sim_agents s') = fst ` set (sim_agents s) \<and>
     ((\<forall>(k, a) \<in> set (sim_agents s). agent_sane a) \<longrightarrow> (\<forall>(k, a) \<in> set (sim_agents s'). agent_sane a)) \<and>
     agent_latencies s' = agent_latencies s \<and> sim_price s' = sim_price s \<and>
     sim_hawkes s' = sim_hawkes s \<and> sim_cfg s' = sim_cfg s"

lemma same_health_refl [simp]: "same_health s s"
  by (simp add: same_health_def)

lemma same_health_trans: "same_health s s' \<Longrightarrow> same_health s' s'' \<Longrightarrow> same_health s s''"
  by (simp add: same_health_def)

lemma same_healthy: "same_health s s' \<Longrightarrow> healthy s \<Longrightarrow> healthy s'"
  using sim_dt_cfg [of s' s]
  by (simp add: same_health_def healthy_def latencies_sane_def hawkes_sane_def)

lemma same_health_foldl: "(\<And>s x. same_health s (f s x)) \<Longrightarrow> same_health s (foldl f s xs)"
proof (induction xs arbitrary: s)
  case (Cons x xs)
  then show ?case using same_health_trans [of s "f s x"] by simp
qed simp

lemma same_health_submit: "same_health s (submit_cancel i s)" "same_health s (submit_order o1 s)"
  by (simp_all add: same_health_def submit_cancel_def submit_order_def with_tcp_def
      split: option.split sum.split prod.split)

lemma same_health_message: "same_health s (handle_message m s)"
  by (cases m) (force simp: same_health_def handle_message_def agents_map_def)+

lemma same_health_broadcast: "same_health s (broadcast j s)"
  by (simp add: same_health_def broadcast_def split: option.split)

lemma same_health_receive: "same_health s (receive s)"
proof -
  have "same_health s (with_tcp c s)" for c by (simp add: same_health_def with_tcp_def)
  moreover have "same_health s' (foldl (\<lambda>s m. handle_message (snd m) s) s' ms)" for s' :: "'a simulator" and ms :: messages
    by (rule same_health_foldl) (rule same_health_message)
  ultimately have "same_health s (foldl (\<lambda>s m. handle_message (snd m) s) (with_tcp c s) ms)" for c and ms :: messages
    using same_health_trans by blast
  then show ?thesis
    by (simp add: receive_def Let_def same_health_trans [OF _ same_health_broadcast] \<open>\<And>c. same_health s (with_tcp c s)\<close> split: option.split sum.split prod.split)
qed

lemma same_health_submits: "same_health s (submit_cancels ids s)" "same_health s (submit_orders os s)"
proof -
  show "same_health s (submit_cancels ids s)"
    unfolding submit_cancels_def by (rule same_health_foldl) (rule same_health_submit)
  have "same_health s (foldl (\<lambda>s o1. submit_order o1 s) s os)"
    by (rule same_health_foldl) (rule same_health_submit)
  then show "same_health s (submit_orders os s)"
    by (simp add: submit_orders_def same_health_trans [OF _ same_health_receive])
qed

section \<open>Every event is handled\<close>

lemma healthy_set_agent:
  assumes "healthy s" "aid \<in> fst ` set (sim_agents s)" "agent_sane a"
  shows "healthy (s\<lparr>sim_agents := dict_set aid a (sim_agents s)\<rparr>)"
proof -
  let ?s = "s\<lparr>sim_agents := dict_set aid a (sim_agents s)\<rparr>"
  have "fst ` set (dict_set aid a (sim_agents s)) = fst ` set (sim_agents s)"
    using assms(2) by (auto simp: set_keys_dict_set)
  moreover have "\<forall>(k, x) \<in> set (dict_set aid a (sim_agents s)). agent_sane x"
    using assms(1,3) set_dict_set_subset [of aid a "sim_agents s"] unfolding healthy_def by fastforce
  ultimately show ?thesis
    using assms(1) sim_dt_cfg [of ?s s] by (simp add: healthy_def latencies_sane_def hawkes_sane_def)
qed

lemma agent_action_total:
  assumes np: "numpy_ok np" and h: "healthy s"
  shows "\<exists>s'. agent_action np who s = Inr s' \<and> healthy s'"
proof (cases "\<exists>u aid a. last_book_update s = Some u \<and> who = Some aid \<and> dict_get (sim_agents s) aid = Some a")
  case False
  then have "agent_action np who s = Inr s"
    by (cases "last_book_update s"; cases who)
      (auto simp: agent_action_def split: option.split)
  then show ?thesis using h by simp
next
  case True
  then obtain u aid a where 1: "last_book_update s = Some u" "who = Some aid"
    "dict_get (sim_agents s) aid = Some a" by blast
  have mem: "(aid, a) \<in> set (sim_agents s)" by (rule dict_get_Some_in) fact
  then have "agent_sane a" using h unfolding healthy_def by fastforce
  then obtain os a1 where 2: "agent_on_book_update np u (step_count s) a = Inr (os, a1)" "agent_sane a1"
    using agent_total [OF np] by blast
  let ?a2 = "if agent_pending_cancels a1 \<noteq> [] then agent_clear_cancels a1 else a1"
  have "healthy (s\<lparr>sim_agents := dict_set aid ?a2 (sim_agents s)\<rparr>)"
    using mem 2(2) by (intro healthy_set_agent [OF h]) (auto intro: rev_image_eqI)
  then have "healthy (submit_orders os (submit_cancels (agent_pending_cancels a1)
      (s\<lparr>sim_agents := dict_set aid ?a2 (sim_agents s)\<rparr>)))"
    using same_healthy same_health_submits by blast
  then show ?thesis using 1 2(1) by (simp add: agent_action_def Let_def)
qed

lemma process_event_total:
  assumes np: "numpy_ok np" and h: "healthy s"
  shows "\<exists>s'. process_event np e s = Inr s' \<and> healthy s'"
proof -
  have "same_health s (metrics_sample s)"
  proof (cases "dict_get (sim_agents s) ''MM''")
    case (Some mm)
    have "same_health s (s\<lparr>sim_metrics := m\<rparr>)" for m by (simp add: same_health_def)
    then show ?thesis using Some
      by (simp add: metrics_sample_def Let_def same_health_trans [OF _ same_health_broadcast])
  qed (simp add: metrics_sample_def)
  then have "healthy (metrics_sample s)" using h same_healthy by blast
  then show ?thesis
    using midprice_move_total [OF np h] agent_action_total [OF np h] h
    by (cases "event_type e") (simp_all add: process_event_def)
qed

lemma healthy_with_human: "with_human f s = Inr s' \<Longrightarrow> healthy s \<Longrightarrow> healthy s'"
proof -
  assume w: "with_human f s = Inr s'" and h: "healthy s"
  obtain x where x: "dict_get (sim_agents s) ''HUMAN'' = Some (Human_Agent x)"
    and s': "s' = s\<lparr>sim_agents := dict_set ''HUMAN'' (Human_Agent (f x)) (sim_agents s)\<rparr>"
    using w by (auto simp: with_human_def split: option.split_asm agent.split_asm)
  show ?thesis
    unfolding s' using dict_get_Some_in [OF x] by (intro healthy_set_agent [OF h]) (auto intro: rev_image_eqI)
qed

lemma price_sane_scenarios: "price_sane (crash_price d p) = price_sane p" "price_sane (spike_volatility p) = price_sane p"
  by (cases p; simp add: regimes_ok_def)+

lemma healthy_ws_message:
  assumes "healthy s"
  shows "healthy (snd (ws_message m s))"
proof -
  have "healthy s'" if "human_command a q k s = Inr s'" for a q k s'
    using that assms by (simp add: human_command_def healthy_with_human split: if_split_asm)
  moreover have "healthy (snd (scenario data s))" for data
  proof -
    have "healthy (s\<lparr>current_mid := v, sim_price := crash_price d (sim_price s)\<rparr>)"
      "healthy (s\<lparr>sim_price := spike_volatility (sim_price s)\<rparr>)" "healthy (with_tcp c s)" for v d c
      using assms by (simp_all add: healthy_def price_sane_scenarios hawkes_sane_def sim_dt_def with_tcp_def)
    then show ?thesis
      using assms by (simp add: scenario_def split: sum.split option.split prod.split)
  qed
  ultimately show ?thesis
    using assms ws_message_cases [of m s] human_action_frame [of _ s] by metis
qed

lemma healthy_incoming:
  assumes "healthy s"
  shows "healthy (process_incoming_ws_messages s)"
proof (cases "sim_ws s")
  case (Some b)
  have "healthy (s\<lparr>sim_ws := x\<rparr>)" for x
    using assms by (simp add: healthy_def hawkes_sane_def sim_dt_def)
  then show ?thesis
    using Some by (auto simp: process_incoming_ws_messages_def split: prod.split
        intro!: foldl_inv [where P = healthy] healthy_ws_message)
qed (simp add: process_incoming_ws_messages_def assms)

text \<open>The loop returns, whatever the signals: every iteration is total, and the measure runs out.\<close>

lemma run_loop_total:
  assumes np: "numpy_ok np"
  shows "run_loop np stops n s = (es, r) \<Longrightarrow> healthy s \<Longrightarrow> \<exists>s'. r = Inr s' \<and> healthy s'"
proof (induction es arbitrary: n s)
  case Nil
  from Nil.prems(1) show ?case
  proof (cases rule: run_loop_cases)
    case finished
    have "healthy (sim_stop s)"
      using Nil.prems(2) by (simp add: healthy_def hawkes_sane_def sim_dt_def sim_stop_def)
    then show ?thesis using finished Nil.prems(2) by simp
  qed simp_all
next
  case (Cons e0 es)
  have hp: "healthy ((process_incoming_ws_messages s)\<lparr>event_queue := q, current_time := t\<rparr>)" for q t
    using healthy_incoming [OF Cons.prems(2)] by (simp add: healthy_def hawkes_sane_def sim_dt_def)
  from Cons.prems(1) show ?case
  proof (cases rule: run_loop_cases)
    case (failed e q s1 err)
    then show ?thesis using process_event_total [OF np hp [of "timestamp e" q], of e] by simp
  next
    case (stepped e q s1 s2 es')
    have "healthy s2" using process_event_total [OF np, of s1 e] hp stepped(8,11) by auto
    then show ?thesis using Cons.IH stepped(9,10) by blast
  qed simp
qed

section \<open>Before the loop\<close>

definition populated :: "'g simulator \<Rightarrow> bool" where
  "populated s \<longleftrightarrow> (\<forall>(k, a) \<in> set (sim_agents s). agent_sane a) \<and>
     latencies_sane (sim_agents s) (agent_latencies s)"

lemma populated_add:
  assumes "populated s" "agent_sane a" "latency_sane l"
  shows "populated (add_agent k a l s)"
proof -
  have "\<forall>(k, x) \<in> set (dict_set k a (sim_agents s)). agent_sane x"
    using assms(1,2) set_dict_set_subset [of k a "sim_agents s"] unfolding populated_def by fastforce
  moreover have "\<forall>(k, x) \<in> set (dict_set k l (agent_latencies s)). latency_sane x"
    using assms(1,3) set_dict_set_subset [of k l "agent_latencies s"]
    unfolding populated_def latencies_sane_def by fastforce
  moreover have "fst ` set (dict_set k a (sim_agents s)) \<subseteq> fst ` set (dict_set k l (agent_latencies s))"
    using assms(1) unfolding populated_def latencies_sane_def set_keys_dict_set by blast
  ultimately show ?thesis by (simp add: populated_def latencies_sane_def add_agent_def)
qed

lemma latency_sane_profiles:
  "latency_sane (Model_Latency (market_maker_latency np k))" "latency_sane (Model_Latency (retail_latency np k))"
  "latency_sane (Model_Latency (latency_arb_latency np k))"
  "latency_sane (Model_Latency (latency_init np (Some (LatencyConfig 500 100)) k))"
  by (simp_all add: market_maker_latency_def retail_latency_def latency_arb_latency_def latency_init_def
      LatencyConfig_def latency_ok_def is_float_numeral)

text \<open>
  A configuration with the mandatory values present, a time step that is not negative,
  no zero divisor and no empty range. Absent values count with their defaults.
\<close>

definition valid_agents :: "sim_config \<Rightarrow> bool" where
  "valid_agents cfg \<longleftrightarrow>
     cfg_get (mc_gamma (cfg_mm cfg)) (flit (1 / 10)) \<noteq> 0 \<and>
     cfg_get (mc_kappa (cfg_mm cfg)) (flit (15 / 10)) \<noteq> 0 \<and>
     cfg_get (nc_min_qty (cfg_noise cfg)) 10 \<le> cfg_get (nc_max_qty (cfg_noise cfg)) 100 \<and>
     1 \<le> cfg_get (nc_spread_range (cfg_noise cfg)) 20 \<and>
     cfg_get (ic_min_qty (cfg_informed cfg)) 50 \<le> cfg_get (ic_max_qty (cfg_informed cfg)) 200 \<and>
     cfg_get (tc_fast_period (cfg_momentum cfg)) 10 \<noteq> - 1 \<and>
     cfg_get (tc_slow_period (cfg_momentum cfg)) 50 \<noteq> - 1 \<and>
     cfg_get (tc_min_qty (cfg_momentum cfg)) 20 \<le> cfg_get (tc_max_qty (cfg_momentum cfg)) 80"

definition valid_flow :: "sim_config \<Rightarrow> bool" where
  "valid_flow cfg \<longleftrightarrow> fc_model (cfg_flow cfg) \<noteq> Some ''hawkes'' \<or>
     (let mu = cfg_get (fc_mu (cfg_flow cfg)) 1;
          alpha = cfg_get (fc_alpha (cfg_flow cfg)) (flit (6 / 10));
          beta = cfg_get (fc_beta (cfg_flow cfg)) (flit (15 / 10))
      in is_float mu \<and> 0 \<le> mu \<and> 0 \<le> alpha \<and> 0 < beta \<and> fdiv alpha beta < 1)"

definition valid_config :: "sim_config \<Rightarrow> bool" where
  "valid_config cfg \<longleftrightarrow>
     (case cfg_price cfg of None \<Rightarrow> False | Some pp \<Rightarrow> pc_initial_price pp \<noteq> None) \<and>
     (case cfg_simulation cfg of None \<Rightarrow> False
      | Some sc \<Rightarrow> sc_steps sc \<noteq> None \<and> 0 \<le> cfg_get (sc_dt sc) (flit (1 / 1000))) \<and>
     valid_agents cfg \<and> valid_flow cfg"

lemma sane_inits:
  "valid_agents cfg \<Longrightarrow> create_mm np cfg c = (a1, c1) \<Longrightarrow> agent_sane (MM_Agent a1)"
  "valid_agents cfg \<Longrightarrow> create_noise np cfg i c = (a2, c2) \<Longrightarrow> agent_sane (Noise_Agent a2)"
  "valid_agents cfg \<Longrightarrow> create_informed np cfg c = (a3, c3) \<Longrightarrow> agent_sane (Informed_Agent a3)"
  "valid_agents cfg \<Longrightarrow> create_momentum np cfg c = Inr (a4, c4) \<Longrightarrow> agent_sane (Momentum_Agent a4)"
  "create_arb np cfg c = (a5, c5) \<Longrightarrow> agent_sane (Arb_Agent a5)"
  by (auto simp: create_mm_def mm_init_def create_noise_def noise_init_def create_informed_def informed_init_def
      create_momentum_def momentum_init_def create_arb_def latency_arb_init_def valid_agents_def
      base_init_def base_agent.defs market_maker.defs noise_trader.defs informed_trader.defs
      momentum_trader.defs latency_arb.defs Let_def split: if_split_asm)

lemma create_momentum_total: "valid_agents cfg \<Longrightarrow> \<exists>a c'. create_momentum np cfg c = Inr (a, c')"
  by (auto simp: create_momentum_def momentum_init_def valid_agents_def base_init_def Let_def)

text \<open>What creating agents leaves alone.\<close>

definition same_setup :: "'g simulator \<Rightarrow> 'g simulator \<Rightarrow> bool" where
  "same_setup s s' \<longleftrightarrow> sim_cfg s' = sim_cfg s \<and> event_queue s' = event_queue s \<and> sim_price s' = sim_price s \<and>
     sim_hawkes s' = sim_hawkes s \<and> sim_metrics s' = sim_metrics s \<and> step_count s' = step_count s \<and>
     total_steps s' = total_steps s"

lemma same_setup_add: "same_setup s (add_agent k a l s') = same_setup s s'"
  by (simp add: same_setup_def add_agent_def)

lemma create_noises_total:
  "create_noises np is (s, c) = (s', c') \<Longrightarrow> valid_agents (sim_cfg s) \<Longrightarrow> populated s \<Longrightarrow>
     populated s' \<and> same_setup s s'"
proof (induction "is" arbitrary: s c)
  case (Cons i "is")
  obtain a c1 where a: "create_noise np (sim_cfg s) i c = (a, c1)" by fastforce
  let ?s = "add_agent (noise_id i) (Noise_Agent a) (Model_Latency (retail_latency np (42 + int i))) s"
  have "create_noises np is (?s, c1) = (s', c')" using Cons.prems(1) a by simp
  moreover have "populated ?s" "valid_agents (sim_cfg ?s)"
    using populated_add [OF Cons.prems(3) sane_inits(2) [OF Cons.prems(2) a] latency_sane_profiles(2)]
      Cons.prems(2) by (simp_all add: add_agent_def)
  ultimately have "populated s' \<and> same_setup ?s s'" using Cons.IH by blast
  then show ?case by (simp add: same_setup_def add_agent_def)
qed (simp add: same_setup_def)

lemma create_agents_total:
  assumes v: "valid_agents (sim_cfg s)" and p: "populated s"
  shows "\<exists>s' c'. create_agents np c s = Inr (s', c') \<and> populated s' \<and> same_setup s s'"
proof -
  obtain mm c1 where mm: "create_mm np (sim_cfg s) c = (mm, c1)" by fastforce
  let ?s1 = "add_agent ''MM'' (MM_Agent mm) (Model_Latency (market_maker_latency np 42)) s"
  obtain s2 c2 where s2: "create_noises np [0..<nat (cfg_get (cfg_num_noise (sim_cfg s)) 3)] (?s1, c1) = (s2, c2)"
    by fastforce
  obtain it c3 where it: "create_informed np (sim_cfg s) c2 = (it, c3)" by fastforce
  obtain mt c4 where mt: "create_momentum np (sim_cfg s) c3 = Inr (mt, c4)"
    using create_momentum_total [OF v] by blast
  obtain la c5 where la: "create_arb np (sim_cfg s) c4 = (la, c5)" by fastforce
  obtain hu c6 where hu: "human_init ''HUMAN'' c5 = (hu, c6)" by fastforce
  note sane = sane_inits(1) [OF v mm] sane_inits(3) [OF v it] sane_inits(4) [OF v mt] sane_inits(5) [OF la]
  have "populated ?s1" using p sane(1) latency_sane_profiles(1) by (rule populated_add)
  then have s2': "populated s2" "same_setup ?s1 s2"
    using create_noises_total [OF s2] v by (simp_all add: add_agent_def)
  let ?s6 = "add_agent ''HUMAN'' (Human_Agent hu) Zero_Latency
    (add_agent ''LAT_ARB'' (Arb_Agent la) (Model_Latency (latency_arb_latency np 300))
    (add_agent ''MOMENTUM'' (Momentum_Agent mt) (Model_Latency (retail_latency np 200))
    (add_agent ''INFORMED'' (Informed_Agent it)
      (Model_Latency (latency_init np (Some (LatencyConfig 500 100)) 100)) s2)))"
  have "create_agents np c s = Inr (?s6, c6)"
    using mm s2 it mt la hu by (simp add: create_agents_def Let_def)
  moreover have "populated ?s6"
    by (intro populated_add s2'(1) sane(2-4) latency_sane_profiles) simp_all
  moreover have "same_setup s ?s6" using s2'(2) by (simp add: same_setup_def add_agent_def)
  ultimately show ?thesis by blast
qed

lemma create_hawkes_total:
  assumes "valid_flow (sim_cfg s)" "sim_hawkes s = None"
  shows "\<exists>s'. create_hawkes np s = Inr s' \<and> hawkes_sane s' \<and> s' = s\<lparr>sim_hawkes := sim_hawkes s'\<rparr>"
  using assms
  by (auto simp: create_hawkes_def valid_flow_def hawkes_init_def hawkes_sane_def hawkes_ok_def Let_def)

lemma schedule_actions_total:
  assumes "numpy_ok np"
  shows "set aids \<subseteq> fst ` set (sim_agents s) \<Longrightarrow> healthy s \<Longrightarrow>
    \<exists>s'. schedule_actions np t aids s = Inr s' \<and> healthy s' \<and> sim_agents s' = sim_agents s"
proof (induction aids arbitrary: s)
  case (Cons aid aids)
  have l: "latencies_sane (sim_agents s) (agent_latencies s)" using Cons.prems(2) unfolding healthy_def by blast
  obtain s1 where s1: "schedule_action np t aid s = Inr s1" "latencies_sane (sim_agents s1) (agent_latencies s1)"
    "sim_agents s1 = sim_agents s" "sim_price s1 = sim_price s" "sim_hawkes s1 = sim_hawkes s" "sim_cfg s1 = sim_cfg s"
    using schedule_action_total [OF assms l, of aid t] Cons.prems(1) by auto
  have "healthy s1" using Cons.prems(2) s1 sim_dt_cfg [OF s1(6)] by (simp add: healthy_def hawkes_sane_def)
  then obtain s' where "schedule_actions np t aids s1 = Inr s'" "healthy s'" "sim_agents s' = sim_agents s1"
    using Cons.IH [of s1] Cons.prems(1) s1(3) by auto
  then show ?case using s1(1,3) by auto
qed simp

lemma healthy_push_event: "healthy (push_event t ty aid s) = healthy s"
  by (simp add: healthy_def push_event_def hawkes_sane_def sim_dt_def)

lemma schedule_step_total:
  assumes "numpy_ok np" "healthy s"
  shows "\<exists>s'. schedule_step np dt i s = Inr s' \<and> healthy s'"
proof -
  let ?t = "fmul (fint (int i)) dt"
  let ?s = "push_event ?t MIDPRICE_MOVE None s"
  have "set (dict_keys (sim_agents s)) \<subseteq> fst ` set (sim_agents ?s)"
    by (simp add: dict_keys_def push_event_def)
  then obtain s1 where "schedule_actions np ?t (dict_keys (sim_agents s)) ?s = Inr s1" "healthy s1"
    using schedule_actions_total [OF assms(1)] assms(2) healthy_push_event by blast
  then show ?thesis by (auto simp: schedule_step_def Let_def healthy_push_event)
qed

lemma schedule_steps_total:
  assumes "numpy_ok np"
  shows "healthy s \<Longrightarrow> \<exists>s'. schedule_steps np dt is s = Inr s' \<and> healthy s'"
proof (induction "is" arbitrary: s)
  case (Cons i "is")
  obtain s1 where "schedule_step np dt i s = Inr s1" "healthy s1"
    using schedule_step_total [OF assms Cons.prems] by blast
  then show ?case using Cons.IH [of s1] by simp
qed simp

section \<open>The whole run\<close>

text \<open>The state after the constructor.\<close>

lemma sim_init_total:
  assumes "valid_config cfg"
  shows "\<exists>s. sim_init np cfg = Inr s"
  using assms by (auto simp: valid_config_def sim_init_def create_price_process_def cfg_at_def Let_def
      split: option.split_asm)

lemma sim_init_fields:
  assumes "sim_init np cfg = Inr s"
  shows "sim_cfg s = cfg" "event_queue s = []" "sim_agents s = []" "agent_latencies s = []"
    "sim_hawkes s = None" "price_sane (sim_price s)" "metrics_ok (sim_metrics s)" "step_count s = 0"
    "\<exists>sc. cfg_simulation cfg = Some sc \<and> sc_steps sc = Some (total_steps s)"
proof -
  have "0 \<le> flit (1 / 1000)" by (simp add: flit_nonneg)
  then have "price_sane p" if "create_price_process np cfg = Inr p" for p
    using that regimes_ok_init
    by (auto simp: create_price_process_def gbm_init_def ou_init_def Let_def rs_init_def
        split: sum.split_asm if_split_asm)
  then show "sim_cfg s = cfg" "event_queue s = []" "sim_agents s = []" "agent_latencies s = []"
    "sim_hawkes s = None" "price_sane (sim_price s)" "metrics_ok (sim_metrics s)" "step_count s = 0"
    "\<exists>sc. cfg_simulation cfg = Some sc \<and> sc_steps sc = Some (total_steps s)"
    using assms metrics_ok_init
    by (auto simp: sim_init_def eq_init_def cfg_at_def split: sum.split_asm option.split_asm)
qed

lemma run_setup_total:
  assumes np: "numpy_ok np" and v: "valid_config (sim_cfg s)"
    and s: "sim_agents s = []" "agent_latencies s = []" "sim_hawkes s = None" "price_sane (sim_price s)"
  shows "\<exists>s'. run_setup np c outcome s = Inr s' \<and> healthy s'"
proof -
  have "populated s" by (simp add: populated_def latencies_sane_def s)
  then obtain s1 c' where s1: "create_agents np c s = Inr (s1, c')" "populated s1" "same_setup s s1"
    using create_agents_total v unfolding valid_config_def by blast
  have "valid_flow (sim_cfg s1)" "sim_hawkes s1 = None"
    using v s1(3) s(3) by (simp_all add: valid_config_def same_setup_def)
  then obtain s2 where s2: "create_hawkes np s1 = Inr s2" "hawkes_sane s2" "s2 = s1\<lparr>sim_hawkes := sim_hawkes s2\<rparr>"
    using create_hawkes_total by blast
  let ?s3 = "connect_engine outcome s2"
  let ?s4 = "?s3\<lparr>last_book_update := Some (initial_book (current_mid ?s3))\<rparr>"
  obtain dt where dt: "sim_dt s = Inr dt" "0 \<le> dt"
    using v by (auto simp: valid_config_def sim_dt_def cfg_at_def split: option.split_asm)
  have cfg: "sim_cfg ?s4 = sim_cfg s" "sim_price ?s4 = sim_price s" "sim_agents ?s4 = sim_agents s1"
    "agent_latencies ?s4 = agent_latencies s1" "sim_hawkes ?s4 = sim_hawkes s2" "total_steps ?s4 = total_steps s"
    using s1(3) arg_cong [OF s2(3), of sim_cfg] arg_cong [OF s2(3), of sim_price]
      arg_cong [OF s2(3), of sim_agents] arg_cong [OF s2(3), of agent_latencies]
      arg_cong [OF s2(3), of total_steps]
    by (simp_all add: connect_engine_def same_setup_def split: prod.split sum.split)
  have "healthy ?s4"
    unfolding healthy_def hawkes_sane_def sim_dt_cfg [OF cfg(1)] cfg
    using s1(2) s2(2) s(4) dt by (auto simp: populated_def hawkes_sane_def)
  then obtain s5 where "schedule_steps np dt [0..<nat (total_steps ?s4)] ?s4 = Inr s5" "healthy s5"
    using schedule_steps_total [OF np] by blast
  moreover have "sim_dt ?s4 = Inr dt" using dt(1) sim_dt_cfg [OF cfg(1)] by simp
  moreover have "healthy (s5\<lparr>sim_running := True\<rparr>) = healthy s5"
    by (simp add: healthy_def hawkes_sane_def sim_dt_def)
  ultimately show ?thesis
    using s1(1) s2(1) by (auto simp: run_setup_def schedule_initial_events_def Let_def)
qed

text \<open>What the setup puts into the queue: one price move per step, all at times that are floats.\<close>

lemma create_agents_setup:
  assumes "create_agents np c s = Inr (s', c')"
  shows "same_setup s s'"
proof -
  have noises: "same_setup s s2" if "create_noises np is (s, c) = (s2, c2)" for "is" s s2 c c2
    using that
  proof (induction "is" arbitrary: s c)
    case (Cons i "is")
    then show ?case
      by (auto simp: same_setup_def split: prod.split_asm) (auto simp: add_agent_def dest!: Cons.IH)
  qed (simp add: same_setup_def)
  show ?thesis
    using assms by (auto simp: create_agents_def Let_def same_setup_add split: prod.split_asm sum.split_asm
        dest!: noises) (simp_all add: same_setup_def add_agent_def)
qed

lemma step_events_count:
  "list_all2 (step_events aids dt) is ess \<Longrightarrow>
     length (concat ess) = length is * (1 + length aids) + length (filter (\<lambda>i. i mod 100 = 0) is)"
  by (induction rule: list_all2_induct) (auto dest!: step_events_length)

lemma sample_count: "length (filter (\<lambda>i. i mod 100 = 0) [0..<n]) = (n + 99) div 100"
proof (induction n)
  case (Suc n)
  have "(Suc n + 99) div 100 = (n + 99) div 100 + (if n mod 100 = 0 then 1 else 0)"
    using div_Suc [of "n + 99" 100] mod_add_self2 [of n 100] by simp
  then show ?case using Suc by simp
qed simp

lemma scheduled_queue:
  assumes "schedule_steps np dt [0..<n] s = Inr s'" "event_queue s = []"
  shows "timed (event_queue s')" "moves (mset (event_queue s')) = n"
    "length (event_queue s') = n * (1 + length (sim_agents s)) + (n + 99) div 100"
    "step_count s' = step_count s" "sim_agents s' = sim_agents s" "sim_metrics s' = sim_metrics s"
proof -
  obtain ess where q: "event_queue s' = foldl eq_push eq_init (concat ess)"
    and ess: "list_all2 (step_events (dict_keys (sim_agents s)) dt) [0..<n] ess"
    and st: "sim_agents s' = sim_agents s" "step_count s' = step_count s" "sim_metrics s' = sim_metrics s"
    using schedule_steps_events [OF assms(1)] assms(2) by (auto simp: eq_init_def)
  have m: "mset (event_queue s') = mset (concat ess)"
    using q eq_pushes_mset [of eq_init "concat ess"] by (simp add: eq_init_def)
  have "\<forall>es \<in> set ess. \<forall>e \<in> set es. is_float (timestamp e)"
    using ess by (fastforce simp: list_all2_conv_all_nth in_set_conv_nth dest: step_events_float)
  then have "\<forall>e \<in> set (event_queue s'). is_float (timestamp e)"
    using arg_cong [OF m, of set_mset] by auto
  then show "timed (event_queue s')"
    using q eq.push_all [OF eq.invar_empty, of "concat ess"] by (simp add: timed_def)
  show "moves (mset (event_queue s')) = n" using moves_concat [OF ess] m by simp
  show "length (event_queue s') = n * (1 + length (sim_agents s)) + (n + 99) div 100"
    using step_events_count [OF ess] arg_cong [OF m, of size] by (simp add: sample_count dict_keys_def)
  show "step_count s' = step_count s" "sim_agents s' = sim_agents s" "sim_metrics s' = sim_metrics s" by fact+
qed

lemma run_setup_queue:
  assumes "run_setup np c outcome s = Inr s'" "event_queue s = []" "sim_agents s = []" "metrics_ok (sim_metrics s)"
  shows "timed (event_queue s')" "moves (mset (event_queue s')) = nat (total_steps s)"
    "step_count s' = step_count s" "sim_running s'" "sim_ok s'"
    "length (event_queue s') = nat (total_steps s) * (1 + length (sim_agents s'))
       + (nat (total_steps s) + 99) div 100"
proof -
  obtain s1 c1 where s1: "create_agents np c s = Inr (s1, c1)"
    using assms(1) by (auto simp: run_setup_def split: sum.split_asm)
  obtain s2 where s2: "create_hawkes np s1 = Inr s2"
    using assms(1) s1 by (auto simp: run_setup_def split: sum.split_asm)
  let ?s3 = "connect_engine outcome s2"
  let ?s4 = "?s3\<lparr>last_book_update := Some (initial_book (current_mid ?s3))\<rparr>"
  obtain dt s5 where s5: "schedule_steps np dt [0..<nat (total_steps ?s4)] ?s4 = Inr s5"
    and s': "s' = s5\<lparr>sim_running := True\<rparr>"
    using assms(1) s1 s2
    by (auto simp: run_setup_def schedule_initial_events_def Let_def split: sum.split_asm)
  have c: "event_queue ?s4 = event_queue s1" "total_steps ?s4 = total_steps s1" "step_count ?s4 = step_count s1"
    "sim_agents ?s4 = sim_agents s1" "sim_metrics ?s4 = sim_metrics s1"
    using s2 by (auto simp: create_hawkes_def connect_engine_def Let_def split: if_split_asm sum.split_asm sum.split prod.split)
  have e: "event_queue s1 = []" "total_steps s1 = total_steps s" "step_count s1 = step_count s"
    "sim_metrics s1 = sim_metrics s"
    using create_agents_setup [OF s1] assms(2) by (simp_all add: same_setup_def)
  note q = scheduled_queue [OF s5, unfolded c e, simplified]
  have "arena_upto c (sim_agents s)" by (simp add: assms(3) arena_upto_def agents_ok_def)
  then have "agents_ok (sim_agents s1)" using create_agents_arena [OF s1] by (simp add: arena_upto_def)
  then show "sim_ok s'" using q(5,6) assms(4) by (simp add: s' sim_ok_def)
  show "timed (event_queue s')" "moves (mset (event_queue s')) = nat (total_steps s)"
    "step_count s' = step_count s" "sim_running s'"
    "length (event_queue s') = nat (total_steps s) * (1 + length (sim_agents s'))
       + (nat (total_steps s) + 99) div 100"
    using q by (simp_all add: s')
qed

text \<open>\<open>main\<close> is the setup followed by the loop.\<close>

lemma sim_main_cases:
  obtains (failed) err where "sim_main np cfg bridge c outcome stops = ([], Inl err)"
  | (started) s s1 es r where "sim_init np cfg = Inr s" "run_setup np c outcome (set_ws_bridge bridge s) = Inr s1"
      "run_loop np stops 0 s1 = (es, r)"
      "sim_main np cfg bridge c outcome stops = (es, map_sum id sim_disconnect r)"
      "timed (event_queue s1)" "moves (mset (event_queue s1)) = nat (total_steps s)"
      "step_count s1 = 0" "sim_running s1" "sim_ok s1"
proof (cases "sim_init np cfg")
  case (Inl e)
  then show thesis by (intro failed) (simp add: sim_main_def)
next
  case (Inr s)
  show thesis
  proof (cases "run_setup np c outcome (set_ws_bridge bridge s)")
    case (Inl e)
    then show thesis using \<open>sim_init np cfg = Inr s\<close> by (intro failed) (simp add: sim_main_def run_def)
  next
    case (Inr s1)
    obtain es r where l: "run_loop np stops 0 s1 = (es, r)" by fastforce
    then have m: "sim_main np cfg bridge c outcome stops = (es, map_sum id sim_disconnect r)"
      using \<open>sim_init np cfg = Inr s\<close> Inr by (cases r) (simp_all add: sim_main_def run_def)
    note f = sim_init_fields [OF \<open>sim_init np cfg = Inr s\<close>]
    show thesis
      using run_setup_queue [OF Inr] f \<open>sim_init np cfg = Inr s\<close> Inr l m
      by (intro started) (simp_all add: set_ws_bridge_def)
  qed
qed

text \<open>On a valid configuration nothing escapes an uninterrupted \<open>main\<close>.\<close>

lemma sim_main_total:
  assumes "numpy_ok np" "valid_config cfg"
  shows "\<exists>es s. sim_main np cfg bridge counter outcome (\<lambda>_. False) = (es, Inr s)"
proof -
  obtain s where s: "sim_init np cfg = Inr s" using sim_init_total [OF assms(2)] by blast
  note f = sim_init_fields [OF s]
  obtain s1 where s1: "run_setup np counter outcome (set_ws_bridge bridge s) = Inr s1" "healthy s1"
    using run_setup_total [OF assms(1), of "set_ws_bridge bridge s"] f assms(2)
    by (auto simp: set_ws_bridge_def)
  obtain es r where l: "run_loop np (\<lambda>_. False) 0 s1 = (es, r)" by fastforce
  then obtain s2 where "r = Inr s2" using run_loop_total [OF assms(1) l s1(2)] by blast
  then show ?thesis using s s1(1) l by (simp add: sim_main_def run_def)
qed

end
