(* ===== verification/Fill_Ledger.thy ===== *)
theory Fill_Ledger
  imports Arena_Invariant
begin

text \<open>
  What a fill does to the agents: each of the two that traded books its side, nobody else
  changes, and the inventories of the arena still add up to what they added up to before. It
  rests on the blocks of order identifiers being disjoint.
\<close>

section \<open>Identifiers belong to one agent\<close>

text \<open>An agent that has not run past the end of its block of a million identifiers.\<close>

definition within_block :: "base_agent \<Rightarrow> bool" where
  "within_block b \<longleftrightarrow> next_oid b \<le> id_offset b + 1000001"

lemma active_in_block:
  assumes "base_ok b" "within_block b" "dict_get (active_orders b) k = Some o1"
  shows "id_offset b < k \<and> k \<le> id_offset b + 1000000"
  using assms dict_get_Some_in [OF assms(3)] by (auto simp: base_ok_def ids_ok_def within_block_def)

lemma block_unique:
  fixes b c :: int
  assumes "1000000 dvd b" "1000000 dvd c" "b < k" "k \<le> b + 1000000" "c < k" "k \<le> c + 1000000"
  shows "b = c"
proof -
  obtain i j where ij: "b = 1000000 * i" "c = 1000000 * j" using assms(1,2) by (auto elim!: dvdE)
  have "i < j + 1" "j < i + 1" using assms(3-6) unfolding ij by linarith+
  then show ?thesis by (simp add: ij)
qed

lemma blocks_inj:
  "distinct (blocks d) \<Longrightarrow> (k, a) \<in> set d \<Longrightarrow> (k', a') \<in> set d \<Longrightarrow>
     id_offset (agent_base a) = id_offset (agent_base a') \<Longrightarrow> k = k' \<and> a = a'"
proof (induction d)
  case (Cons p d)
  obtain k0 a0 where p: "p = (k0, a0)" by (cases p)
  have "id_offset (agent_base x) \<in> set (blocks d)" if "(y, x) \<in> set d" for x y
    using that by (force simp: blocks_def)
  then show ?case using Cons p by (simp, metis)
qed simp

lemma active_owner_unique:
  assumes "agents_ok d" "\<forall>(k, a) \<in> set d. within_block (agent_base a)"
    "(k, a) \<in> set d" "dict_get (active_orders (agent_base a)) oid = Some o1"
    "(k', a') \<in> set d" "dict_get (active_orders (agent_base a')) oid = Some o2"
  shows "k = k' \<and> a = a'"
proof -
  have ok: "base_ok (agent_base a)" "base_ok (agent_base a')"
    using assms(1,3,5) by (auto simp: agents_ok_def agent_ok_def)
  have bl: "1000000 dvd id_offset (agent_base a)" "1000000 dvd id_offset (agent_base a')"
    using assms(1,3,5) by (force simp: agents_ok_def blocks_def)+
  have "id_offset (agent_base a) = id_offset (agent_base a')"
    using active_in_block [OF ok(1) _ assms(4)] active_in_block [OF ok(2) _ assms(6)] assms(2,3,5)
    by (intro block_unique [OF bl, of oid]) auto
  then show ?thesis using blocks_inj [OF _ assms(3,5)] assms(1) by (simp add: agents_ok_def)
qed

section \<open>Booking a fill\<close>

lemma on_fill_stranger:
  "dict_get (active_orders b) (maker_id f) = None \<Longrightarrow> dict_get (active_orders b) (taker_id f) = None \<Longrightarrow>
     on_fill f b = b"
  using my_order_None [of "active_orders b" f] by (simp add: on_fill_def)

text \<open>An agent with exactly one of the two orders books that one.\<close>

lemma on_fill_party:
  assumes "base_ok b" "oid = maker_id f \<and> other = taker_id f \<or> oid = taker_id f \<and> other = maker_id f"
    "dict_get (active_orders b) oid = Some o1" "dict_get (active_orders b) other = None"
  shows "inventory (stats (on_fill f b)) = inventory (stats b) + signed_qty o1 f"
    "total_fills (stats (on_fill f b)) = total_fills (stats b) + 1"
    "fill_prices (on_fill f b) = fill_prices b @ [(fill_price f, signed_qty o1 f)]"
    "active_orders (on_fill f b) = (if ao_quantity o1 \<le> fill_quantity f
       then dict_pop oid (active_orders b) else active_orders b)"
proof -
  have "my_order (active_orders b) f \<noteq> None" using my_order_None [of "active_orders b" f] assms(2,3) by auto
  then obtain i where i: "my_order (active_orders b) f = Some i" by auto
  have "dict_ok (active_orders b)" using assms(1) by (simp add: base_ok_def ids_ok_def)
  then have "i = oid" using my_order_Some [OF i] assms(2-4) by auto
  then show "inventory (stats (on_fill f b)) = inventory (stats b) + signed_qty o1 f"
    "total_fills (stats (on_fill f b)) = total_fills (stats b) + 1"
    "fill_prices (on_fill f b) = fill_prices b @ [(fill_price f, signed_qty o1 f)]"
    "active_orders (on_fill f b) = (if ao_quantity o1 \<le> fill_quantity f
       then dict_pop oid (active_orders b) else active_orders b)"
    using i assms(3) by (simp_all add: on_fill_def book_fill_def Let_def)
qed

section \<open>Conservation\<close>

definition agent_inventory :: "'g agent \<Rightarrow> int" where
  "agent_inventory a = inventory (stats (agent_base a))"

definition total_inventory :: "(string, 'g agent) dict \<Rightarrow> int" where
  "total_inventory d = sum_list (map (\<lambda>(k, a). agent_inventory a) d)"

text \<open>The two parties of a fill: two agents, each with one of the two orders, on opposite sides.\<close>

definition traded ::
  "(string, 'g agent) dict \<Rightarrow> fill_msg \<Rightarrow> string \<Rightarrow> agent_order \<Rightarrow> string \<Rightarrow> agent_order \<Rightarrow> bool" where
  "traded d f km om kt ot \<longleftrightarrow> km \<noteq> kt \<and>
     (\<exists>a. (km, a) \<in> set d \<and> dict_get (active_orders (agent_base a)) (maker_id f) = Some om) \<and>
     (\<exists>a. (kt, a) \<in> set d \<and> dict_get (active_orders (agent_base a)) (taker_id f) = Some ot)"

lemma fill_change:
  assumes "agents_ok d" "\<forall>(k, a) \<in> set d. within_block (agent_base a)" "traded d f km om kt ot"
    "(k, a) \<in> set d"
  shows "agent_inventory (agent_on_fill f a) = agent_inventory a +
    (if k = km then signed_qty om f else 0) + (if k = kt then signed_qty ot f else 0)"
proof -
  note own = active_owner_unique [OF assms(1,2)]
  obtain m t where m: "(km, m) \<in> set d" "dict_get (active_orders (agent_base m)) (maker_id f) = Some om"
    and t: "(kt, t) \<in> set d" "dict_get (active_orders (agent_base t)) (taker_id f) = Some ot" and ne: "km \<noteq> kt"
    using assms(3) unfolding traded_def by blast
  have dist: "distinct (map fst d)" using assms(1) by (simp add: agents_ok_def dict_ok_def)
  have same: "k = km \<Longrightarrow> a = m" "k = kt \<Longrightarrow> a = t"
    using eq_key_imp_eq_value [OF dist] assms(4) m(1) t(1) by blast+
  have maker: "dict_get (active_orders (agent_base a)) (maker_id f) = (if k = km then Some om else None)"
  proof (cases "k = km")
    case False
    then have "dict_get (active_orders (agent_base a)) (maker_id f) \<noteq> Some o1" for o1
      using own [OF m assms(4)] by blast
    with False show ?thesis by (simp, blast)
  qed (simp add: same(1) m(2))
  have taker: "dict_get (active_orders (agent_base a)) (taker_id f) = (if k = kt then Some ot else None)"
  proof (cases "k = kt")
    case False
    then have "dict_get (active_orders (agent_base a)) (taker_id f) \<noteq> Some o1" for o1
      using own [OF t assms(4)] by blast
    with False show ?thesis by (simp, blast)
  qed (simp add: same(2) t(2))
  have "agent_ok a" using assms(1,4) unfolding agents_ok_def by blast
  then have ok: "base_ok (agent_base a)" by (simp add: agent_ok_def)
  have inv: "agent_inventory (agent_on_fill f a) = inventory (stats (on_fill f (agent_base a)))"
    by (simp add: agent_inventory_def agent_base_on_fill)
  consider "k = km" "k \<noteq> kt" | "k = kt" "k \<noteq> km" | "k \<noteq> km" "k \<noteq> kt" using ne by blast
  then show ?thesis
  proof cases
    case 1
    then have "inventory (stats (on_fill f (agent_base a))) = inventory (stats (agent_base a)) + signed_qty om f"
      using maker taker by (intro on_fill_party(1) [OF ok, of "maker_id f" f "taker_id f"]) simp_all
    with 1 show ?thesis unfolding inv by (simp add: agent_inventory_def)
  next
    case 2
    then have "inventory (stats (on_fill f (agent_base a))) = inventory (stats (agent_base a)) + signed_qty ot f"
      using maker taker by (intro on_fill_party(1) [OF ok, of "taker_id f" f "maker_id f"]) simp_all
    with 2 show ?thesis unfolding inv by (simp add: agent_inventory_def)
  next
    case 3
    then have "on_fill f (agent_base a) = agent_base a"
      using maker taker by (intro on_fill_stranger) simp_all
    with 3 show ?thesis unfolding inv by (simp add: agent_inventory_def)
  qed
qed

lemma sum_one_key:
  "distinct (map fst d) \<Longrightarrow> k0 \<in> fst ` set d \<Longrightarrow>
     sum_list (map (\<lambda>(k, a). if k = k0 then v else (0 :: int)) d) = v"
proof (induction d)
  case (Cons p d)
  obtain k a where p: "p = (k, a)" by (cases p)
  have "sum_list (map (\<lambda>(k, a). if k = k0 then v else (0 :: int)) d) = 0" if "k0 \<notin> fst ` set d"
    using that by (induction d) (auto split: prod.splits)
  then show ?case using Cons by (auto simp: p)
qed simp

lemma fill_total:
  assumes "agents_ok d" "\<forall>(k, a) \<in> set d. within_block (agent_base a)" "traded d f km om kt ot"
  shows "total_inventory (agents_map (agent_on_fill f) d) =
    total_inventory d + signed_qty om f + signed_qty ot f"
proof -
  let ?v = "\<lambda>(k, a). agent_inventory a +
    ((if k = km then signed_qty om f else 0) + (if k = kt then signed_qty ot f else 0))"
  have keys: "distinct (map fst d)" "km \<in> fst ` set d" "kt \<in> fst ` set d"
    using assms(1,3) by (auto simp: agents_ok_def dict_ok_def traded_def intro: rev_image_eqI)
  have each: "(case case p of (k, a) \<Rightarrow> (k, agent_on_fill f a) of (k, a) \<Rightarrow> agent_inventory a) = ?v p"
    if "p \<in> set d" for p
    using fill_change [OF assms, of "fst p" "snd p"] that by (cases p) (simp add: add.assoc)
  then have "map ((\<lambda>(k, a). agent_inventory a) \<circ> (\<lambda>(k, a). (k, agent_on_fill f a))) d = map ?v d"
    unfolding comp_def by (intro map_cong refl)
  then have "total_inventory (agents_map (agent_on_fill f) d) = sum_list (map ?v d)"
    unfolding total_inventory_def agents_map_def map_map by (simp only:)
  also have "\<dots> = total_inventory d + (sum_list (map (\<lambda>(k, a). if k = km then signed_qty om f else 0) d) +
      sum_list (map (\<lambda>(k, a). if k = kt then signed_qty ot f else 0) d))"
    unfolding total_inventory_def case_prod_beta by (simp only: sum_list_addf)
  also have "\<dots> = total_inventory d + (signed_qty om f + signed_qty ot f)"
    using keys by (simp add: sum_one_key)
  finally show ?thesis by (simp add: add.assoc)
qed

end
