(* ===== verification/Samples.thy ===== *)
theory Samples
  imports Run_Total Fill_Ledger
begin

text \<open>
  Concrete inputs: the configuration file the repository ships, \<open>simulation/config/default.yaml\<close>,
  and small states and messages on which the theorems are instantiated.
\<close>

section \<open>The shipped configuration\<close>

definition default_yaml :: sim_config where
  "default_yaml = \<lparr>
     cfg_price = Some \<lparr>pc_type = Some ''regime_switching'', pc_initial_price = Some 10000,
       pc_mu = Some 0, pc_sigma = Some 50, pc_kappa = Some (flit (3 / 10)), pc_theta = Some 10000,
       pc_seed = Some 42\<rparr>,
     cfg_simulation = Some \<lparr>sc_steps = Some 10000, sc_dt = Some (flit (1 / 1000))\<rparr>,
     cfg_num_noise = Some 3,
     cfg_mm = \<lparr>mc_gamma = Some (flit (1 / 10)), mc_kappa = Some (flit (15 / 10)), mc_levels = Some 3,
       mc_level_spacing = Some 5, mc_base_qty = Some 100, mc_inventory_limit = Some 500\<rparr>,
     cfg_noise = \<lparr>nc_order_prob = Some (flit (3 / 10)), nc_spread_range = Some 20, nc_min_qty = Some 10,
       nc_max_qty = Some 100, nc_market_order_prob = Some (flit (5 / 100))\<rparr>,
     cfg_informed = \<lparr>ic_threshold = Some 15, ic_aggression = Some (flit (8 / 10)), ic_min_qty = Some 50,
       ic_max_qty = Some 200\<rparr>,
     cfg_momentum = \<lparr>tc_fast_period = Some 10, tc_slow_period = Some 50, tc_trade_prob = Some (flit (3 / 10)),
       tc_min_qty = Some 20, tc_max_qty = Some 80\<rparr>,
     cfg_arb = \<lparr>lc_threshold = Some 5, lc_max_position = Some 50, lc_trade_prob = Some (flit (9 / 10))\<rparr>,
     cfg_flow = \<lparr>fc_model = Some ''hawkes'', fc_mu = Some 1, fc_alpha = Some (flit (6 / 10)),
       fc_beta = Some (flit (15 / 10))\<rparr>,
     cfg_host = Some ''localhost'', cfg_port = Some 9876\<rparr>"

lemma flit_positive:
  assumes "0 \<le> k" "k \<le> 1000" "2 powi (- k) \<le> x"
  shows "0 < flit x"
proof -
  have "rnd64 (2 powi (- k)) = 2 powi (- k)" using rnd64_exact [of 1 "- k"] assms(1,2) by simp
  then have "2 powi (- k) \<le> flit x" using f64.ge_float [OF assms(3)] by (simp add: flit_def)
  moreover have "0 < (2 powi (- k) :: real)" by simp
  ultimately show ?thesis by linarith
qed

lemma flit_three_halves: "flit (3 / 2) = 3 / 2"
  using rnd64_exact [of 3 "- 1"] by (simp add: flit_def power_int_minus)

lemma flit_tenth_positive: "0 < flit (1 / 10)"
  by (rule flit_positive [of 4]) (simp_all add: power_int_minus)

lemma default_branching: "fdiv (flit (6 / 10)) (flit (15 / 10)) < 1"
proof -
  have "flit (6 / 10) \<le> 3 / 4"
    using f64.le_float [of "6 / 10" "3 / 4"] rnd64_exact [of 3 "- 2"] by (simp add: flit_def power_int_minus)
  then have "flit (6 / 10) / flit (15 / 10) \<le> 1 / 2" by (simp add: flit_three_halves)
  then have "fdiv (flit (6 / 10)) (flit (15 / 10)) \<le> 1 / 2"
    unfolding fdiv_def using rnd64_exact [of 1 "- 1"] by (intro f64.le_float) (simp_all add: power_int_minus)
  then show ?thesis by simp
qed

lemma valid_default_yaml: "valid_config default_yaml"
proof -
  have "is_float 1" using is_float_of_int [of 1] by simp
  then show ?thesis
    using default_branching flit_tenth_positive flit_nonneg [of "6 / 10"] flit_nonneg [of "1 / 1000"]
    by (simp add: flit_three_halves valid_config_def valid_agents_def valid_flow_def default_yaml_def cfg_get_def)
qed

section \<open>Two agents with crossing orders\<close>

text \<open>A buyer in the first block of identifiers and a seller in the second.\<close>

definition sample_book :: book_update_msg where
  "sample_book = \<lparr>best_bid = 9995, best_ask = 10005, num_bid_levels = 1, num_ask_levels = 1,
     bid_prices = [9995], bid_quantities = [100], ask_prices = [10005], ask_quantities = [100]\<rparr>"

definition sample_order :: "int \<Rightarrow> int \<Rightarrow> int \<Rightarrow> int \<Rightarrow> agent_order" where
  "sample_order oid side price qty = \<lparr>ao_order_id = oid, ao_side = side, ao_order_type = 0,
     ao_price = price, ao_quantity = qty\<rparr>"

definition sample_human :: "int \<Rightarrow> agent_order \<Rightarrow> human_agent" where
  "sample_human counter o1 =
     (fst (human_init ''HUMAN'' counter))\<lparr>active_orders := [(ao_order_id o1, o1)],
        next_oid := counter * 1000000 + 2,
        stats := agent_stats_init\<lparr>total_orders_sent := 1\<rparr>\<rparr>"

definition sample_agents :: "(string, nat agent) dict" where
  "sample_agents =
     [(''BUYER'', Human_Agent (sample_human 0 (sample_order 1 0 10000 60))),
      (''SELLER'', Human_Agent (sample_human 1 (sample_order 1000001 1 10000 100)))]"

definition sample_fill :: fill_msg where
  "sample_fill = \<lparr>maker_id = 1, taker_id = 1000001, fill_price = 10000, fill_quantity = 60\<rparr>"

lemmas sample_defs = sample_agents_def sample_human_def sample_order_def sample_fill_def human_init_def
  base_init_def base_agent.defs human_agent.defs agent_stats_init_def

lemma sample_agents_ok: "agents_ok sample_agents"
  by (simp add: agents_ok_def agent_ok_def sample_defs dict_ok_def base_ok_def ids_ok_def ledger_ok_def
      human_ok_def)

lemma sample_within: "\<forall>(k, a) \<in> set sample_agents. within_block (agent_base a)"
  by (simp add: within_block_def sample_defs)

lemma sample_traded:
  "traded sample_agents sample_fill ''BUYER'' (sample_order 1 0 10000 60)
     ''SELLER'' (sample_order 1000001 1 10000 100)"
  unfolding traded_def by (auto simp: sample_defs dict_get_def)

text \<open>A simulator in mid-run with these two agents.\<close>

definition sample_sim :: "nat simulator" where
  "sample_sim = \<lparr>sim_cfg = default_yaml, sim_running = True, current_time = 0, event_queue = [],
     sim_tcp = None, sim_ws = None, sim_price = OU_Process (ou_init tick_numpy 10000 0 10000 0 0 1),
     sim_hawkes = None, sim_metrics = metrics_init 100, sim_agents = sample_agents,
     agent_latencies = [], current_mid = 10000, last_book_update = Some sample_book, step_count = 0,
     total_steps = 10\<rparr>"

text \<open>A simulator whose only agent is an idle player.\<close>

definition sample_player_sim :: "nat simulator" where
  "sample_player_sim = sample_sim\<lparr>sim_agents := [(''HUMAN'', Human_Agent (fst (human_init ''HUMAN'' 0)))]\<rparr>"

end
