(* ===== verification/Price_Level.thy ===== *)
theory Price_Level
  imports Arena_Prelude
begin

text \<open>
  The matching engine's orders and price levels: \<open>engine/include/types.hpp\<close>, \<open>order.hpp\<close> and
  \<open>price_level.hpp\<close>. Prices, quantities and identifiers are integers here; signed overflow is
  undefined in C++ and outside the model. A level is given twice: with the intrusive doubly
  linked list the code maintains, over a heap of nodes, and as the queue of order identifiers the
  order book is modelled with. The second section of lemmas shows that the pointer operations
  implement the queue.
\<close>

section \<open>Orders\<close>

datatype side = BID | ASK
datatype order_type = LIMIT | MARKET | ICEBERG
datatype reject_reason = INVALID_PARAMS | POOL_EXHAUSTED | ORDER_NOT_FOUND | DUPLICATE_ID | INVALID_MODIFY

text \<open>The smallest and the largest price of type \<open>Tick\<close>; the smallest means "no price".\<close>

definition INVALID_PRICE :: int where
  "INVALID_PRICE = - (2 ^ 63)"

definition MAX_TICK :: int where
  "MAX_TICK = 2 ^ 63 - 1"

record order =
  od_id :: int
  od_price :: int
  od_quantity :: int
  od_filled :: int
  od_side :: side
  od_type :: order_type
  od_timestamp :: int
  od_display :: int
  od_hidden :: int

definition remaining :: "order \<Rightarrow> int" where
  "remaining o1 = od_quantity o1 - od_filled o1"

definition visible_remaining :: "order \<Rightarrow> int" where
  "visible_remaining o1 =
     (if od_type o1 = ICEBERG \<and> od_display o1 > 0
      then (if remaining o1 < od_display o1 then remaining o1 else od_display o1)
      else remaining o1)"

definition is_filled :: "order \<Rightarrow> bool" where
  "is_filled o1 \<longleftrightarrow> od_filled o1 \<ge> od_quantity o1"

definition has_hidden_qty :: "order \<Rightarrow> bool" where
  "has_hidden_qty o1 \<longleftrightarrow> od_type o1 = ICEBERG \<and> od_hidden o1 > 0"

section \<open>A level as a queue of identifiers\<close>

record level =
  lv_queue :: "int list"
  lv_total :: int
  lv_count :: int

definition level_init :: level where
  "level_init = \<lparr>lv_queue = [], lv_total = 0, lv_count = 0\<rparr>"

definition lv_push_back :: "order \<Rightarrow> level \<Rightarrow> level" where
  "lv_push_back o1 l = l\<lparr>lv_queue := lv_queue l @ [od_id o1], lv_total := lv_total l + remaining o1,
     lv_count := lv_count l + 1\<rparr>"

definition lv_remove :: "order \<Rightarrow> level \<Rightarrow> level" where
  "lv_remove o1 l = l\<lparr>lv_queue := remove1 (od_id o1) (lv_queue l), lv_total := lv_total l - remaining o1,
     lv_count := lv_count l - 1\<rparr>"

definition lv_reduce_quantity :: "int \<Rightarrow> level \<Rightarrow> level" where
  "lv_reduce_quantity amount l = l\<lparr>lv_total := lv_total l - amount\<rparr>"

definition lv_modify_qty_down :: "order \<Rightarrow> int \<Rightarrow> level \<Rightarrow> order \<times> level" where
  "lv_modify_qty_down o1 new_qty l =
     (let delta = od_quantity o1 - od_filled o1 - new_qty
      in (o1\<lparr>od_quantity := od_filled o1 + new_qty\<rparr>, l\<lparr>lv_total := lv_total l - delta\<rparr>))"

definition lv_front :: "level \<Rightarrow> int option" where
  "lv_front l = (case lv_queue l of [] \<Rightarrow> None | i # _ \<Rightarrow> Some i)"

section \<open>A level as an intrusive list\<close>

text \<open>A pointer is an address of the pool; \<open>None\<close> is \<open>nullptr\<close>.\<close>

record node =
  nd_order :: order
  nd_prev :: "nat option"
  nd_next :: "nat option"

type_synonym heap = "nat \<Rightarrow> node"

record price_level =
  pl_head :: "nat option"
  pl_tail :: "nat option"
  pl_total :: int
  pl_count :: int

definition set_next :: "nat \<Rightarrow> nat option \<Rightarrow> heap \<Rightarrow> heap" where
  "set_next p q h = h(p := (h p)\<lparr>nd_next := q\<rparr>)"

definition set_prev :: "nat \<Rightarrow> nat option \<Rightarrow> heap \<Rightarrow> heap" where
  "set_prev p q h = h(p := (h p)\<lparr>nd_prev := q\<rparr>)"

definition pl_push_back :: "nat \<Rightarrow> heap \<times> price_level \<Rightarrow> heap \<times> price_level" where
  "pl_push_back p = (\<lambda>(h, l).
     (let h1 = set_next p None (set_prev p (pl_tail l) h);
          (h2, head) = (case pl_tail l of
             Some t \<Rightarrow> (set_next t (Some p) h1, pl_head l)
           | None \<Rightarrow> (h1, Some p))
      in (h2, l\<lparr>pl_head := head, pl_tail := Some p,
                pl_total := pl_total l + remaining (nd_order (h p)), pl_count := pl_count l + 1\<rparr>)))"

definition pl_pop_front :: "heap \<times> price_level \<Rightarrow> nat option \<times> heap \<times> price_level" where
  "pl_pop_front = (\<lambda>(h, l).
     (case pl_head l of
        None \<Rightarrow> (None, h, l)
      | Some p \<Rightarrow>
          (let head = nd_next (h p);
               (h1, tail) = (case head of
                  Some x \<Rightarrow> (set_prev x None h, pl_tail l)
                | None \<Rightarrow> (h, None))
           in (Some p, set_next p None (set_prev p None h1),
               l\<lparr>pl_head := head, pl_tail := tail,
                 pl_total := pl_total l - remaining (nd_order (h p)), pl_count := pl_count l - 1\<rparr>))))"

definition pl_remove :: "nat \<Rightarrow> heap \<times> price_level \<Rightarrow> heap \<times> price_level" where
  "pl_remove p = (\<lambda>(h, l).
     (let (h1, head) = (case nd_prev (h p) of
             Some x \<Rightarrow> (set_next x (nd_next (h p)) h, pl_head l)
           | None \<Rightarrow> (h, nd_next (h p)));
          (h2, tail) = (case nd_next (h p) of
             Some x \<Rightarrow> (set_prev x (nd_prev (h p)) h1, pl_tail l)
           | None \<Rightarrow> (h1, nd_prev (h p)))
      in (set_next p None (set_prev p None h2),
          l\<lparr>pl_head := head, pl_tail := tail,
            pl_total := pl_total l - remaining (nd_order (h p)), pl_count := pl_count l - 1\<rparr>)))"

text \<open>The walk of \<open>queue_volume_ahead\<close> ends at the order or behind the tail.\<close>

partial_function (option) volume_walk :: "heap \<Rightarrow> nat \<Rightarrow> nat option \<Rightarrow> int \<Rightarrow> int option" where
  "volume_walk h p cur vol =
     (case cur of
        None \<Rightarrow> Some vol
      | Some c \<Rightarrow> if c = p then Some vol
                  else volume_walk h p (nd_next (h c)) (vol + remaining (nd_order (h c))))"

definition pl_queue_volume_ahead :: "nat \<Rightarrow> heap \<times> price_level \<Rightarrow> int option" where
  "pl_queue_volume_ahead p = (\<lambda>(h, l). volume_walk h p (pl_head l) 0)"

section \<open>The list behind the pointers\<close>

text \<open>
  \<open>dll h p xs q\<close>: the nodes \<open>xs\<close> are linked in both directions, with \<open>p\<close> before the first and \<open>q\<close>
  behind the last.
\<close>

fun dll :: "heap \<Rightarrow> nat option \<Rightarrow> nat list \<Rightarrow> nat option \<Rightarrow> bool" where
  "dll h p [] q \<longleftrightarrow> True"
| "dll h p (x # xs) q \<longleftrightarrow> nd_prev (h x) = p \<and> nd_next (h x) = (if xs = [] then q else Some (hd xs)) \<and>
     dll h (Some x) xs q"

definition first_of :: "'a list \<Rightarrow> 'a option \<Rightarrow> 'a option" where
  "first_of xs q = (if xs = [] then q else Some (hd xs))"

definition last_of :: "'a option \<Rightarrow> 'a list \<Rightarrow> 'a option" where
  "last_of p xs = (if xs = [] then p else Some (last xs))"

definition level_rep :: "heap \<times> price_level \<Rightarrow> nat list \<Rightarrow> bool" where
  "level_rep = (\<lambda>(h, l) xs. distinct xs \<and> dll h None xs None \<and> pl_head l = first_of xs None \<and>
     pl_tail l = last_of None xs \<and> pl_count l = int (length xs))"

lemma dll_append: "dll h p (xs @ ys) q \<longleftrightarrow> dll h p xs (first_of ys q) \<and> dll h (last_of p xs) ys q"
  by (induction xs arbitrary: p) (auto simp: first_of_def last_of_def)

lemma dll_cong: "(\<And>x. x \<in> set xs \<Longrightarrow> nd_prev (h' x) = nd_prev (h x) \<and> nd_next (h' x) = nd_next (h x)) \<Longrightarrow>
  dll h' p xs q = dll h p xs q"
  by (induction xs arbitrary: p) auto

lemma dll_set_next_last:
  assumes "dll h p xs q" "distinct xs" "xs \<noteq> []"
  shows "dll (set_next (last xs) q' h) p xs q'"
proof -
  have e: "xs = butlast xs @ [last xs]" using assms(3) by simp
  have "last xs \<notin> set (butlast xs)" using assms(2) e by (metis distinct_append distinct.simps(2) disjoint_iff list.set_intros(1))
  then have "dll (set_next (last xs) q' h) p (butlast xs) (Some (last xs)) = dll h p (butlast xs) (Some (last xs))"
    by (intro dll_cong) (auto simp: set_next_def)
  moreover have "dll h p (butlast xs) (Some (last xs)) \<and> dll h (last_of p (butlast xs)) [last xs] q"
    using assms(1) e dll_append [of h p "butlast xs" "[last xs]" q] by (simp add: first_of_def)
  ultimately have "dll (set_next (last xs) q' h) p (butlast xs @ [last xs]) q'"
    unfolding dll_append by (simp add: first_of_def set_next_def)
  then show ?thesis using e by simp
qed

lemma dll_set_prev_hd:
  assumes "dll h p xs q" "distinct xs" "xs \<noteq> []"
  shows "dll (set_prev (hd xs) p' h) p' xs q"
proof (cases xs)
  case (Cons x ys)
  then have "dll (set_prev x p' h) (Some x) ys q = dll h (Some x) ys q"
    using assms(2) by (intro dll_cong) (auto simp: set_prev_def)
  then show ?thesis using Cons assms(1) by (simp add: set_prev_def)
qed (use assms in simp)

lemma dll_frame_next: "x \<notin> set xs \<Longrightarrow> dll (set_next x q' h) p xs q = dll h p xs q"
  by (intro dll_cong) (auto simp: set_next_def)

lemma dll_frame_prev: "x \<notin> set xs \<Longrightarrow> dll (set_prev x q' h) p xs q = dll h p xs q"
  by (intro dll_cong) (auto simp: set_prev_def)

lemmas dll_frames = dll_frame_next dll_frame_prev

lemma set_links_order [simp]:
  "nd_order (set_next p q h x) = nd_order (h x)" "nd_order (set_prev p q h x) = nd_order (h x)"
  by (simp_all add: set_next_def set_prev_def)

lemma set_links_other [simp]:
  "x \<noteq> p \<Longrightarrow> set_next p q h x = h x" "x \<noteq> p \<Longrightarrow> set_prev p q h x = h x"
  by (simp_all add: set_next_def set_prev_def)

lemma set_links_same [simp]:
  "nd_next (set_next p q h p) = q" "nd_prev (set_prev p q h p) = q"
  "nd_prev (set_next p q h x) = nd_prev (h x)" "nd_next (set_prev p q h x) = nd_next (h x)"
  by (simp_all add: set_next_def set_prev_def)

section \<open>The operations implement a queue\<close>

lemma push_back_rep:
  assumes "level_rep (h, l) xs" "p \<notin> set xs"
  shows "level_rep (pl_push_back p (h, l)) (xs @ [p])"
proof (cases "xs = []")
  case True
  then show ?thesis using assms
    by (simp add: level_rep_def pl_push_back_def first_of_def last_of_def Let_def)
next
  case False
  let ?h = "set_next p None (set_prev p (pl_tail l) h)"
  have t: "pl_tail l = Some (last xs)" using assms(1) False by (simp add: level_rep_def last_of_def)
  have "dll ?h None xs None" using assms by (simp add: level_rep_def dll_frames)
  then have "dll (set_next (last xs) (Some p) ?h) None xs (Some p)"
    using assms(1) False by (intro dll_set_next_last) (simp_all add: level_rep_def)
  moreover have "last xs \<noteq> p" using assms(2) False by auto
  ultimately have "dll (set_next (last xs) (Some p) ?h) None (xs @ [p]) None"
    unfolding dll_append using False t by (simp add: first_of_def last_of_def)
  then show ?thesis using assms False t
    by (simp add: level_rep_def pl_push_back_def first_of_def last_of_def Let_def)
qed

lemma remove_rep:
  assumes "level_rep (h, l) xs" "p \<in> set xs"
  shows "level_rep (pl_remove p (h, l)) (remove1 p xs)"
proof -
  obtain as bs where xs: "xs = as @ p # bs" "p \<notin> set as" using split_list_first [OF assms(2)] by blast
  have d: "distinct as" "distinct bs" "p \<notin> set bs" "set as \<inter> set bs = {}"
    using assms(1) xs by (auto simp: level_rep_def)
  have links: "dll h None as (Some p)" "nd_prev (h p) = last_of None as" "nd_next (h p) = first_of bs None"
    "dll h (Some p) bs None"
    using assms(1) xs by (auto simp: level_rep_def dll_append first_of_def last_of_def)
  define h1 where "h1 = (if as = [] then h else set_next (last as) (first_of bs None) h)"
  define h2 where "h2 = (if bs = [] then h1 else set_prev (hd bs) (last_of None as) h1)"
  have "dll h1 None as (first_of bs None)"
    using links(1) d(1) dll_set_next_last by (cases "as = []") (auto simp: h1_def)
  moreover have "hd bs \<notin> set as" if "bs \<noteq> []" using d(4) that by (metis disjoint_iff hd_in_set)
  ultimately have a: "dll h2 None as (first_of bs None)" by (auto simp: h2_def dll_frames)
  have "last as \<notin> set bs" if "as \<noteq> []" using d(4) that by (metis disjoint_iff last_in_set)
  then have "dll h1 (Some p) bs None" using links(4) by (auto simp: h1_def dll_frames)
  then have b: "dll h2 (last_of None as) bs None"
    using d(2) dll_set_prev_hd by (cases "bs = []") (auto simp: h2_def)
  have "dll (set_next p None (set_prev p None h2)) None (as @ bs) None"
    using a b xs(2) d(3) by (simp add: dll_append dll_frames)
  moreover have "fst (pl_remove p (h, l)) = set_next p None (set_prev p None h2)"
    using links(2,3)
    by (simp add: pl_remove_def h1_def h2_def last_of_def first_of_def Let_def split: prod.splits)
  ultimately show ?thesis
    using assms(1) xs d links(2,3)
    by (auto simp: level_rep_def pl_remove_def first_of_def last_of_def Let_def remove1_append split: prod.splits)
qed

lemma pop_front_remove:
  assumes "level_rep (h, l) (p # ys)"
  shows "pl_pop_front (h, l) = (Some p, pl_remove p (h, l))"
  using assms by (auto simp: level_rep_def pl_pop_front_def pl_remove_def first_of_def last_of_def Let_def
      split: option.splits prod.splits)

lemma pop_front_rep:
  assumes "level_rep (h, l) xs"
  shows "fst (pl_pop_front (h, l)) = first_of xs None \<and> level_rep (snd (pl_pop_front (h, l))) (tl xs)"
proof (cases xs)
  case Nil
  then show ?thesis using assms by (simp add: level_rep_def pl_pop_front_def first_of_def)
next
  case (Cons p ys)
  then have *: "pl_pop_front (h, l) = (Some p, pl_remove p (h, l))" using assms pop_front_remove by simp
  have "level_rep (pl_remove p (h, l)) ys" using remove_rep [OF assms, of p] Cons by simp
  then show ?thesis using Cons * by (simp add: first_of_def)
qed

text \<open>The running total follows the orders' remaining quantities, whatever it was before.\<close>

lemma level_totals:
  "pl_total (snd (pl_push_back p (h, l))) = pl_total l + remaining (nd_order (h p))"
  "pl_total (snd (pl_remove p (h, l))) = pl_total l - remaining (nd_order (h p))"
  by (simp_all add: pl_push_back_def pl_remove_def Let_def split: prod.splits)

lemma pl_orders_kept:
  "nd_order (fst (pl_push_back p (h, l)) x) = nd_order (h x)"
  "nd_order (fst (pl_remove p (h, l)) x) = nd_order (h x)"
  by (auto simp: pl_push_back_def pl_remove_def Let_def split: prod.splits option.splits if_splits)

lemma volume_walk_list:
  assumes "dll h q (as @ p # bs) None" "p \<notin> set as"
  shows "volume_walk h p (first_of (as @ p # bs) None) v = Some (v + sum_list (map (\<lambda>x. remaining (nd_order (h x))) as))"
  using assms
proof (induction as arbitrary: q v)
  case Nil
  then show ?case by (simp add: first_of_def volume_walk.simps)
next
  case (Cons a as)
  have n: "nd_next (h a) = first_of (as @ p # bs) None" and d: "dll h (Some a) (as @ p # bs) None"
    using Cons.prems(1) by (auto simp: first_of_def)
  have "volume_walk h p (first_of ((a # as) @ p # bs) None) v =
      volume_walk h p (first_of (as @ p # bs) None) (v + remaining (nd_order (h a)))"
    using Cons.prems(2) n by (subst volume_walk.simps) (simp add: first_of_def)
  then show ?case using Cons.IH [OF d] Cons.prems(2) by simp
qed

lemma volume_ahead_rep:
  assumes "level_rep (h, l) (as @ p # bs)"
  shows "pl_queue_volume_ahead p (h, l) = Some (sum_list (map (\<lambda>x. remaining (nd_order (h x))) as))"
  using assms volume_walk_list [of h None as p bs 0]
  by (auto simp: level_rep_def pl_queue_volume_ahead_def)

section \<open>Sequences of operations\<close>

text \<open>The interface the order book uses, and what it makes of any sequence of operations.\<close>

datatype 'a queue_op = Push 'a | Remove 'a | Pop

fun run_ops :: "('a \<Rightarrow> 's \<Rightarrow> 's) \<Rightarrow> ('a \<Rightarrow> 's \<Rightarrow> 's) \<Rightarrow> ('s \<Rightarrow> 'a option \<times> 's) \<Rightarrow> 'a queue_op list \<Rightarrow> 's \<Rightarrow> 'a option list \<times> 's" where
  "run_ops push rem pop [] s = ([], s)"
| "run_ops push rem pop (Push x # ops) s = run_ops push rem pop ops (push x s)"
| "run_ops push rem pop (Remove x # ops) s = run_ops push rem pop ops (rem x s)"
| "run_ops push rem pop (Pop # ops) s =
     (let (r, s') = pop s; (rs, s'') = run_ops push rem pop ops s' in (r # rs, s''))"

definition spec_ops :: "'a queue_op list \<Rightarrow> 'a list \<Rightarrow> 'a option list \<times> 'a list" where
  "spec_ops = run_ops (\<lambda>x xs. xs @ [x]) remove1 (\<lambda>xs. (first_of xs None, tl xs))"

text \<open>The asserted preconditions: an order is pushed when it is not queued and removed when it is.\<close>

fun valid_ops :: "'a queue_op list \<Rightarrow> 'a list \<Rightarrow> bool" where
  "valid_ops [] xs \<longleftrightarrow> True"
| "valid_ops (Push x # ops) xs \<longleftrightarrow> x \<notin> set xs \<and> valid_ops ops (xs @ [x])"
| "valid_ops (Remove x # ops) xs \<longleftrightarrow> x \<in> set xs \<and> valid_ops ops (remove1 x xs)"
| "valid_ops (Pop # ops) xs \<longleftrightarrow> valid_ops ops (tl xs)"

locale fifo_queue =
  fixes rep :: "'s \<Rightarrow> 'a list \<Rightarrow> bool" and push :: "'a \<Rightarrow> 's \<Rightarrow> 's" and rem :: "'a \<Rightarrow> 's \<Rightarrow> 's"
    and pop :: "'s \<Rightarrow> 'a option \<times> 's"
  assumes push_law: "rep s xs \<Longrightarrow> x \<notin> set xs \<Longrightarrow> rep (push x s) (xs @ [x])"
    and rem_law: "rep s xs \<Longrightarrow> x \<in> set xs \<Longrightarrow> rep (rem x s) (remove1 x xs)"
    and pop_law: "rep s xs \<Longrightarrow> pop s = (r, s') \<Longrightarrow> r = first_of xs None \<and> rep s' (tl xs)"
begin

lemma run_refines:
  assumes "rep s xs" "valid_ops ops xs"
  shows "fst (run_ops push rem pop ops s) = fst (spec_ops ops xs) \<and>
    rep (snd (run_ops push rem pop ops s)) (snd (spec_ops ops xs))"
  using assms
proof (induction ops xs arbitrary: s rule: valid_ops.induct)
  case (4 ops xs)
  obtain r s' where p: "pop s = (r, s')" by (cases "pop s")
  note l = pop_law [OF 4(2) p]
  have "valid_ops ops (tl xs)" using 4(3) by simp
  then show ?case using 4(1) [of s'] l p by (auto simp: spec_ops_def split: prod.split)
qed (simp_all add: spec_ops_def push_law rem_law)

end

definition pl_init :: price_level where
  "pl_init = \<lparr>pl_head = None, pl_tail = None, pl_total = 0, pl_count = 0\<rparr>"

definition level_holds :: "heap \<Rightarrow> heap \<times> price_level \<Rightarrow> nat list \<Rightarrow> bool" where
  "level_holds h0 hl xs \<longleftrightarrow> level_rep hl xs \<and> (\<forall>x. nd_order (fst hl x) = nd_order (h0 x)) \<and>
     pl_total (snd hl) = sum_list (map (\<lambda>x. remaining (nd_order (h0 x))) xs)"

lemma remove_holds:
  assumes "level_holds h0 hl xs" "p \<in> set xs"
  shows "level_holds h0 (pl_remove p hl) (remove1 p xs)"
proof -
  obtain h l where hl: "hl = (h, l)" by (cases hl)
  have "sum_list (map (\<lambda>x. remaining (nd_order (h0 x))) xs) =
      remaining (nd_order (h0 p)) + sum_list (map (\<lambda>x. remaining (nd_order (h0 x))) (remove1 p xs))"
    by (rule sum_list_map_remove1 [OF assms(2)])
  then show ?thesis using assms remove_rep [of h l xs p]
    by (simp add: hl level_holds_def level_totals pl_orders_kept)
qed

lemma pop_holds:
  assumes "level_holds h0 hl xs" "pl_pop_front hl = (r, hl')"
  shows "r = first_of xs None \<and> level_holds h0 hl' (tl xs)"
proof (cases xs)
  case Nil
  then show ?thesis using assms by (cases hl) (auto simp: level_holds_def level_rep_def pl_pop_front_def first_of_def)
next
  case (Cons p ys)
  then have "r = Some p \<and> hl' = pl_remove p hl"
    using pop_front_remove [of "fst hl" "snd hl" p ys] assms by (simp add: level_holds_def)
  then show ?thesis using remove_holds [OF assms(1), of p] Cons by (simp add: first_of_def)
qed

interpretation level: fifo_queue "level_holds h0" pl_push_back pl_remove pl_pop_front for h0
proof unfold_locales
  fix hl xs p
  assume "level_holds h0 hl xs" "p \<notin> set xs"
  then show "level_holds h0 (pl_push_back p hl) (xs @ [p])"
    using push_back_rep [of "fst hl" "snd hl" xs p] level_totals(1) [of p "fst hl" "snd hl"]
      pl_orders_kept(1) [of p "fst hl" "snd hl"] by (simp add: level_holds_def)
qed (use remove_holds pop_holds in blast)+

text \<open>
  C10. The intrusive doubly linked list of a price level is a queue: whatever sequence of pushes,
  removals from anywhere and pops is run on an empty level, the popped orders are those a plain
  list would give, the links hold exactly the orders of that list from head to tail, the count and
  the total quantity are its length and its sum, and the volume ahead of an order is the sum
  over those before it. An order is only pushed when it is not in the list and only removed when
  it is.
\<close>

theorem level_refines_queue:
  assumes "valid_ops ops []" "run_ops pl_push_back pl_remove pl_pop_front ops (h, pl_init) = (out, h', l')"
  shows "\<exists>xs. spec_ops ops [] = (out, xs) \<and> dll h' None xs None \<and> pl_head l' = first_of xs None \<and>
    pl_tail l' = last_of None xs \<and> pl_count l' = int (length xs) \<and>
    pl_total l' = sum_list (map (\<lambda>x. remaining (nd_order (h x))) xs) \<and>
    (\<forall>as p bs. xs = as @ p # bs \<longrightarrow>
       pl_queue_volume_ahead p (h', l') = Some (sum_list (map (\<lambda>x. remaining (nd_order (h x))) as)))"
proof -
  have "level_holds h (h, pl_init) []"
    by (simp add: level_holds_def level_rep_def pl_init_def first_of_def last_of_def)
  from level.run_refines [OF this assms(1)] assms(2) obtain xs where
    xs: "spec_ops ops [] = (out, xs)" "level_holds h (h', l') xs" by (cases "spec_ops ops []") simp
  have "pl_queue_volume_ahead p (h', l') = Some (sum_list (map (\<lambda>x. remaining (nd_order (h x))) as))"
    if "xs = as @ p # bs" for as p bs
    using volume_ahead_rep [of h' l' as p bs] xs(2) that by (simp add: level_holds_def)
  then show ?thesis using xs by (auto simp: level_holds_def level_rep_def)
qed

definition demo_node :: node where
  "demo_node = \<lparr>nd_order = \<lparr>od_id = 1, od_price = 100, od_quantity = 5, od_filled = 0, od_side = BID,
     od_type = LIMIT, od_timestamp = 0, od_display = 0, od_hidden = 0\<rparr>, nd_prev = None, nd_next = None\<rparr>"

theorem level_refines_queue_witness:
  "fst (run_ops pl_push_back pl_remove pl_pop_front [Push 1, Push 2, Push 3, Remove 2, Pop] (\<lambda>_. demo_node, pl_init)) = [Some 1]"
proof -
  let ?r = "run_ops pl_push_back pl_remove pl_pop_front [Push 1, Push 2, Push 3, Remove 2, Pop] (\<lambda>_. demo_node, pl_init)"
  obtain out h' l' where r: "?r = (out, h', l')" by (cases ?r)
  have "spec_ops [Push 1, Push 2, Push 3, Remove 2, Pop] [] = ([Some 1], [3::nat])"
    by (simp add: spec_ops_def first_of_def)
  then show ?thesis using level_refines_queue [OF _ r] r by simp
qed

end
