(* ===== verification/Order_Book.thy ===== *)
theory Order_Book
  imports Price_Level
begin

text \<open>
  The limit order book of \<open>engine/src/order_book.cpp\<close>. An order is known by its identifier: the code
  keeps one live \<open>Order\<close> per identifier, reached through \<open>order_map_\<close>, so the map holds the orders
  themselves here and a level holds identifiers. The pool is the number of its free slots.

  The order in which an \<open>std::unordered_map\<close> is walked is not specified. It is the parameter \<open>iter\<close>,
  a function that arranges the entries of a map; \<open>iter_ok\<close> says that it loses none of them.
\<close>

section \<open>State\<close>

type_synonym levels = "(int, level) dict"
type_synonym iteration = "levels \<Rightarrow> levels"

record order_book =
  bk_bids :: levels
  bk_asks :: levels
  bk_orders :: "(int, order) dict"
  bk_best_bid :: int
  bk_best_ask :: int
  bk_free :: nat

definition MAX_ORDERS :: nat where
  "MAX_ORDERS = 1000000"

definition book_init :: order_book where
  "book_init = \<lparr>bk_bids = [], bk_asks = [], bk_orders = [], bk_best_bid = INVALID_PRICE,
     bk_best_ask = INVALID_PRICE, bk_free = MAX_ORDERS\<rparr>"

definition iter_ok :: "iteration \<Rightarrow> bool" where
  "iter_ok iter \<longleftrightarrow> (\<forall>d. mset (iter d) = mset d)"

text \<open>The two sides of the book, and what the code writes twice, once for each side.\<close>

fun levels_of :: "side \<Rightarrow> order_book \<Rightarrow> levels" where
  "levels_of BID b = bk_bids b"
| "levels_of ASK b = bk_asks b"

fun with_levels :: "side \<Rightarrow> levels \<Rightarrow> order_book \<Rightarrow> order_book" where
  "with_levels BID d b = b\<lparr>bk_bids := d\<rparr>"
| "with_levels ASK d b = b\<lparr>bk_asks := d\<rparr>"

fun best_price :: "side \<Rightarrow> order_book \<Rightarrow> int" where
  "best_price BID b = bk_best_bid b"
| "best_price ASK b = bk_best_ask b"

fun with_best :: "side \<Rightarrow> int \<Rightarrow> order_book \<Rightarrow> order_book" where
  "with_best BID p b = b\<lparr>bk_best_bid := p\<rparr>"
| "with_best ASK p b = b\<lparr>bk_best_ask := p\<rparr>"

fun better :: "side \<Rightarrow> int \<Rightarrow> int \<Rightarrow> bool" where
  "better BID p q \<longleftrightarrow> p > q"
| "better ASK p q \<longleftrightarrow> p < q"

fun opposite :: "side \<Rightarrow> side" where
  "opposite BID = ASK"
| "opposite ASK = BID"

section \<open>Adding\<close>

definition improve_best :: "side \<Rightarrow> int \<Rightarrow> order_book \<Rightarrow> order_book" where
  "improve_best side price b =
     (if best_price side b = INVALID_PRICE \<or> better side price (best_price side b)
      then with_best side price b else b)"

definition level_at :: "side \<Rightarrow> int \<Rightarrow> order_book \<Rightarrow> level" where
  "level_at side price b = (case dict_get (levels_of side b) price of None \<Rightarrow> level_init | Some l \<Rightarrow> l)"

text \<open>The order is queued as \<open>queued\<close>, whose remaining quantity is what the level counts, and kept as
  \<open>o1\<close>.\<close>

definition insert_order :: "order \<Rightarrow> order \<Rightarrow> order_book \<Rightarrow> order_book" where
  "insert_order queued o1 b =
     (let side = od_side o1; price = od_price o1;
          b1 = with_levels side (dict_set price (lv_push_back queued (level_at side price b)) (levels_of side b)) b
      in improve_best side price
           (b1\<lparr>bk_orders := dict_set (od_id o1) o1 (bk_orders b1), bk_free := bk_free b1 - 1\<rparr>))"

definition limit_order :: "int \<Rightarrow> side \<Rightarrow> int \<Rightarrow> int \<Rightarrow> int \<Rightarrow> order" where
  "limit_order oid side price quantity ts =
     \<lparr>od_id = oid, od_price = price, od_quantity = quantity, od_filled = 0, od_side = side,
      od_type = LIMIT, od_timestamp = ts, od_display = 0, od_hidden = 0\<rparr>"

definition add_order :: "int \<Rightarrow> side \<Rightarrow> int \<Rightarrow> int \<Rightarrow> int \<Rightarrow> order_book \<Rightarrow> order_book option" where
  "add_order oid side price quantity ts b =
     (if dict_get (bk_orders b) oid \<noteq> None then None
      else if bk_free b = 0 then None
      else (let o1 = limit_order oid side price quantity ts in Some (insert_order o1 o1 b)))"

definition iceberg_order :: "int \<Rightarrow> side \<Rightarrow> int \<Rightarrow> int \<Rightarrow> int \<Rightarrow> int \<Rightarrow> order" where
  "iceberg_order oid side price total_qty display_qty ts =
     \<lparr>od_id = oid, od_price = price, od_quantity = total_qty, od_filled = 0, od_side = side,
      od_type = ICEBERG, od_timestamp = ts, od_display = display_qty, od_hidden = total_qty - display_qty\<rparr>"

definition add_iceberg_order ::
  "int \<Rightarrow> side \<Rightarrow> int \<Rightarrow> int \<Rightarrow> int \<Rightarrow> int \<Rightarrow> order_book \<Rightarrow> order_book option" where
  "add_iceberg_order oid side price total_qty display_qty ts b =
     (if dict_get (bk_orders b) oid \<noteq> None then None
      else if bk_free b = 0 then None
      else (let o1 = iceberg_order oid side price total_qty display_qty ts
            in Some (insert_order (o1\<lparr>od_quantity := display_qty\<rparr>) o1 b)))"

section \<open>Removing\<close>

text \<open>The scan of \<open>update_best_bid\<close> and \<open>update_best_ask\<close>.\<close>

definition scan_best :: "side \<Rightarrow> levels \<Rightarrow> int" where
  "scan_best side d = foldl (\<lambda>best (price, l).
     if lv_queue l \<noteq> [] \<and> (best = INVALID_PRICE \<or> better side price best) then price else best)
     INVALID_PRICE d"

definition update_best :: "iteration \<Rightarrow> side \<Rightarrow> order_book \<Rightarrow> order_book" where
  "update_best iter side b =
     (if levels_of side b = [] then with_best side INVALID_PRICE b
      else with_best side (scan_best side (iter (levels_of side b))) b)"

definition remove_order_from_level :: "iteration \<Rightarrow> order \<Rightarrow> order_book \<Rightarrow> order_book" where
  "remove_order_from_level iter o1 b =
     (let side = od_side o1; price = od_price o1
      in case dict_get (levels_of side b) price of
           None \<Rightarrow> b
         | Some l \<Rightarrow>
             (let l' = lv_remove o1 l
              in if lv_queue l' = []
                 then (let b' = with_levels side (dict_pop price (levels_of side b)) b
                       in if price = best_price side b then update_best iter side b' else b')
                 else with_levels side (dict_set price l' (levels_of side b)) b))"

definition release_order :: "order \<Rightarrow> order_book \<Rightarrow> order_book" where
  "release_order o1 b = b\<lparr>bk_orders := dict_pop (od_id o1) (bk_orders b), bk_free := bk_free b + 1\<rparr>"

definition cancel_order :: "iteration \<Rightarrow> int \<Rightarrow> order_book \<Rightarrow> bool \<times> order_book" where
  "cancel_order iter oid b =
     (case dict_get (bk_orders b) oid of
        None \<Rightarrow> (False, b)
      | Some o1 \<Rightarrow> (True, release_order o1 (remove_order_from_level iter o1 b)))"

section \<open>Modifying\<close>

definition modify_in_place :: "order \<Rightarrow> int \<Rightarrow> order_book \<Rightarrow> order_book" where
  "modify_in_place o1 new_qty b =
     (case dict_get (levels_of (od_side o1) b) (od_price o1) of
        None \<Rightarrow> b
      | Some l \<Rightarrow>
          (let (o2, l') = lv_modify_qty_down o1 new_qty l
           in (with_levels (od_side o1) (dict_set (od_price o1) l' (levels_of (od_side o1) b)) b)
                \<lparr>bk_orders := dict_set (od_id o1) o2 (bk_orders b)\<rparr>))"

definition readd_order :: "order \<Rightarrow> int \<Rightarrow> int \<Rightarrow> order_book \<Rightarrow> order_book" where
  "readd_order o1 new_price new_qty b =
     (case (if od_type o1 = ICEBERG
            then add_iceberg_order (od_id o1) (od_side o1) new_price new_qty (od_display o1) (od_timestamp o1) b
            else add_order (od_id o1) (od_side o1) new_price new_qty (od_timestamp o1) b) of
        None \<Rightarrow> b
      | Some b' \<Rightarrow> b')"

definition modify_order :: "iteration \<Rightarrow> int \<Rightarrow> int \<Rightarrow> int \<Rightarrow> order_book \<Rightarrow> bool \<times> order_book" where
  "modify_order iter oid new_price new_qty b =
     (case dict_get (bk_orders b) oid of
        None \<Rightarrow> (False, b)
      | Some o1 \<Rightarrow>
          (if new_qty \<le> 0 then (False, b)
           else if new_qty > remaining o1 then (False, b)
           else if new_price = od_price o1
           then (True, if new_qty < remaining o1 then modify_in_place o1 new_qty b else b)
           else (True, readd_order o1 new_price new_qty
                         (release_order o1 (remove_order_from_level iter o1 b)))))"

section \<open>Queries\<close>

definition get_order :: "int \<Rightarrow> order_book \<Rightarrow> order option" where
  "get_order oid b = dict_get (bk_orders b) oid"

definition best_order :: "side \<Rightarrow> order_book \<Rightarrow> order option" where
  "best_order side b =
     (if best_price side b = INVALID_PRICE then None
      else (case dict_get (levels_of side b) (best_price side b) of
              None \<Rightarrow> None
            | Some l \<Rightarrow> (case lv_front l of None \<Rightarrow> None | Some oid \<Rightarrow> dict_get (bk_orders b) oid)))"

definition price_rank :: "side \<Rightarrow> int \<Rightarrow> int" where
  "price_rank side p = (case side of BID \<Rightarrow> - p | ASK \<Rightarrow> p)"

definition get_depth :: "iteration \<Rightarrow> side \<Rightarrow> nat \<Rightarrow> order_book \<Rightarrow> (int \<times> int) list" where
  "get_depth iter side n b =
     take n (sort_key (\<lambda>(p, q). price_rank side p)
       (map (\<lambda>(p, l). (p, lv_total l)) (filter (\<lambda>(p, l). lv_queue l \<noteq> []) (iter (levels_of side b)))))"

section \<open>Icebergs\<close>

definition replenish_iceberg :: "order \<Rightarrow> order_book \<Rightarrow> bool \<times> order_book" where
  "replenish_iceberg o1 b =
     (if \<not> has_hidden_qty o1 then (False, b)
      else
        (let replenish = min (od_display o1) (od_hidden o1);
             o2 = o1\<lparr>od_hidden := od_hidden o1 - replenish\<rparr>
         in case dict_get (levels_of (od_side o2) b) (od_price o2) of
              None \<Rightarrow> (False, b\<lparr>bk_orders := dict_set (od_id o2) o2 (bk_orders b)\<rparr>)
            | Some l \<Rightarrow>
                (let l1 = lv_remove o2 l;
                     filled = od_quantity o2 - od_hidden o2 - replenish;
                     o3 = o2\<lparr>od_filled := filled, od_quantity := filled + replenish + od_hidden o2\<rparr>;
                     l2 = lv_push_back (o3\<lparr>od_quantity := replenish, od_filled := 0\<rparr>) l1
                 in (True, (with_levels (od_side o3) (dict_set (od_price o3) l2 (levels_of (od_side o3) b)) b)
                       \<lparr>bk_orders := dict_set (od_id o3) o3 (bk_orders b)\<rparr>))))"

section \<open>Field laws\<close>

lemma levels_of_with [simp]:
  "levels_of s (with_levels s' d b) = (if s = s' then d else levels_of s b)"
  "levels_of s (with_best s' p b) = levels_of s b"
  "levels_of s (b\<lparr>bk_orders := os\<rparr>) = levels_of s b"
  "levels_of s (b\<lparr>bk_free := n\<rparr>) = levels_of s b"
  by (cases s; cases s'; simp)+

lemma best_price_with [simp]:
  "best_price s (with_levels s' d b) = best_price s b"
  "best_price s (with_best s' p b) = (if s = s' then p else best_price s b)"
  "best_price s (b\<lparr>bk_orders := os\<rparr>) = best_price s b"
  "best_price s (b\<lparr>bk_free := n\<rparr>) = best_price s b"
  by (cases s; cases s'; simp)+

lemma bk_orders_with [simp]:
  "bk_orders (with_levels s d b) = bk_orders b" "bk_orders (with_best s p b) = bk_orders b"
  "bk_free (with_levels s d b) = bk_free b" "bk_free (with_best s p b) = bk_free b"
  by (cases s; simp)+

lemma bk_orders_update_best [simp]:
  "bk_orders (update_best iter s b) = bk_orders b" "bk_free (update_best iter s b) = bk_free b"
  "levels_of s' (update_best iter s b) = levels_of s' b"
  by (simp_all add: update_best_def)

lemma bk_orders_remove [simp]:
  "bk_orders (remove_order_from_level iter o1 b) = bk_orders b"
  "bk_free (remove_order_from_level iter o1 b) = bk_free b"
  by (simp_all add: remove_order_from_level_def Let_def split: option.split)

lemma opposite_simps [simp]: "opposite s \<noteq> s" "s \<noteq> opposite s" "opposite (opposite s) = s"
  by (cases s; simp)+

lemma side_cases: "s' = s \<or> s' = opposite s"
  by (cases s; cases s'; simp)

lemma better_rank: "better side p q \<longleftrightarrow> price_rank side p < price_rank side q"
  by (cases side) (simp_all add: price_rank_def)

lemma price_rank_inject [simp]: "price_rank s p = price_rank s q \<longleftrightarrow> p = q"
  by (cases s) (simp_all add: price_rank_def)

end
