(* ===== verification/Matching_Engine.thy ===== *)
theory Matching_Engine
  imports Order_Book Engine_Protocol
begin

text \<open>
  The matching engine of \<open>engine/src/matching_engine.cpp\<close> and the two functions of
  \<open>engine/src/tcp_server.cpp\<close> between it and the network: \<open>process_message\<close>, which turns a frame into
  a command or a rejection, and \<open>consume_engine_events\<close>, which sends the engine's events out.
  The matching loop is a partial function: \<open>None\<close> means that it does not end. What the engine does
  with a side or an order type outside the declared enumerators is not modelled (\<open>Unlisted\<close>).
\<close>

section \<open>State\<close>

record fee_schedule =
  maker_rebate_bps :: int
  taker_fee_bps :: int

definition default_fees :: fee_schedule where
  "default_fees = \<lparr>maker_rebate_bps = 2, taker_fee_bps = 3\<rparr>"

definition maker_rebate :: "fee_schedule \<Rightarrow> int \<Rightarrow> int \<Rightarrow> int" where
  "maker_rebate fs price qty = price * qty * maker_rebate_bps fs"

definition taker_fee :: "fee_schedule \<Rightarrow> int \<Rightarrow> int \<Rightarrow> int" where
  "taker_fee fs price qty = price * qty * taker_fee_bps fs"

text \<open>What the fill callback is given.\<close>

record fill_event =
  fe_maker :: int
  fe_taker :: int
  fe_price :: int
  fe_quantity :: int
  fe_maker_fee :: int
  fe_taker_fee :: int

datatype engine_event = Book_Event engine_book_update | Reject_Event nat int reject_reason

text \<open>\<open>mx_fills\<close> is the history of calls of the fill callback, \<open>mx_out\<close> that of the output queue.\<close>

record engine =
  mx_book :: order_book
  mx_fees :: fee_schedule
  mx_fills :: "fill_event list"
  mx_out :: "engine_event list"
  mx_total_fills :: int
  mx_total_orders :: int
  mx_total_cancels :: int
  mx_total_modifies :: int
  mx_maker_rebates :: int
  mx_taker_fees :: int

definition engine_init :: engine where
  "engine_init = \<lparr>mx_book = book_init, mx_fees = default_fees, mx_fills = [], mx_out = [],
     mx_total_fills = 0, mx_total_orders = 0, mx_total_cancels = 0, mx_total_modifies = 0,
     mx_maker_rebates = 0, mx_taker_fees = 0\<rparr>"

section \<open>Matching\<close>

definition reduce_level :: "side \<Rightarrow> int \<Rightarrow> int \<Rightarrow> order_book \<Rightarrow> order_book" where
  "reduce_level side price qty b =
     (case dict_get (levels_of side b) price of
        None \<Rightarrow> b
      | Some l \<Rightarrow> with_levels side (dict_set price (lv_reduce_quantity qty l) (levels_of side b)) b)"

definition fill_order :: "int \<Rightarrow> order \<Rightarrow> order_book \<Rightarrow> order_book" where
  "fill_order qty o1 b =
     b\<lparr>bk_orders := dict_set (od_id o1) (o1\<lparr>od_filled := od_filled o1 + qty\<rparr>) (bk_orders b)\<rparr>"

definition execute_fill :: "order \<Rightarrow> order \<Rightarrow> int \<Rightarrow> engine \<Rightarrow> engine" where
  "execute_fill maker taker qty e =
     (let price = od_price maker;
          b1 = fill_order qty taker (fill_order qty maker (mx_book e));
          b2 = reduce_level (od_side taker) (od_price taker) qty
                 (reduce_level (od_side maker) (od_price maker) qty b1);
          maker_fee = - maker_rebate (mx_fees e) price qty;
          taker_fee_val = taker_fee (mx_fees e) price qty
      in e\<lparr>mx_book := b2, mx_total_fills := mx_total_fills e + 1,
           mx_maker_rebates := mx_maker_rebates e + (- maker_fee),
           mx_taker_fees := mx_taker_fees e + taker_fee_val,
           mx_fills := mx_fills e @
             [\<lparr>fe_maker = od_id maker, fe_taker = od_id taker, fe_price = price, fe_quantity = qty,
               fe_maker_fee = maker_fee, fe_taker_fee = taker_fee_val\<rparr>]\<rparr>)"

definition on_book :: "(order_book \<Rightarrow> order_book) \<Rightarrow> engine \<Rightarrow> engine" where
  "on_book f e = e\<lparr>mx_book := f (mx_book e)\<rparr>"

text \<open>Is the best opposite price out of reach of the incoming order?\<close>

definition out_of_reach :: "order \<Rightarrow> int \<Rightarrow> bool" where
  "out_of_reach incoming p \<longleftrightarrow> (od_type incoming = LIMIT \<or> od_type incoming = ICEBERG) \<and>
     (od_side incoming = BID \<and> od_price incoming < p \<or> od_side incoming \<noteq> BID \<and> od_price incoming > p)"

definition maker_available :: "order \<Rightarrow> int" where
  "maker_available maker =
     (if od_type maker = ICEBERG \<and> od_display maker > 0
      then min (remaining maker) (od_display maker) else remaining maker)"

text \<open>After a fill: the maker leaves the book, or shows its next slice.\<close>

definition settle_maker :: "iteration \<Rightarrow> order \<Rightarrow> engine \<Rightarrow> engine" where
  "settle_maker iter maker e =
     (if is_filled maker
      then on_book (\<lambda>b. release_order maker (remove_order_from_level iter maker b)) e
      else if od_type maker = ICEBERG
      then (let display_remaining = od_display maker - od_filled maker mod od_display maker
            in if display_remaining \<le> 0 \<and> has_hidden_qty maker
               then on_book (\<lambda>b. snd (replenish_iceberg maker b)) e else e)
      else e)"

text \<open>One round of the loop for the order \<open>tid\<close>; \<open>None\<close> where the loop ends.\<close>

definition match_round :: "iteration \<Rightarrow> int \<Rightarrow> engine \<Rightarrow> engine option" where
  "match_round iter tid e =
     (case dict_get (bk_orders (mx_book e)) tid of
        None \<Rightarrow> None
      | Some incoming \<Rightarrow>
          (let opp = opposite (od_side incoming); best = best_price opp (mx_book e)
           in if \<not> remaining incoming > 0 then None
              else if best = INVALID_PRICE then None
              else if out_of_reach incoming best then None
              else
                (case best_order opp (mx_book e) of
                   None \<Rightarrow> None
                 | Some maker \<Rightarrow>
                     (let qty = min (remaining incoming) (maker_available maker);
                          maker' = maker\<lparr>od_filled := od_filled maker + qty\<rparr>
                      in Some (settle_maker iter maker' (execute_fill maker incoming qty e))))))"

partial_function (option) match_order :: "iteration \<Rightarrow> int \<Rightarrow> engine \<Rightarrow> engine option" where
  "match_order iter tid e =
     (case match_round iter tid e of None \<Rightarrow> Some e | Some e' \<Rightarrow> match_order iter tid e')"

text \<open>What is left of an order of the book.\<close>

definition left_of :: "int \<Rightarrow> engine \<Rightarrow> int" where
  "left_of tid e = (case dict_get (bk_orders (mx_book e)) tid of None \<Rightarrow> 0 | Some o1 \<Rightarrow> remaining o1)"

definition drop_order :: "iteration \<Rightarrow> int \<Rightarrow> engine \<Rightarrow> engine" where
  "drop_order iter tid e =
     (case dict_get (bk_orders (mx_book e)) tid of
        None \<Rightarrow> e
      | Some o1 \<Rightarrow> on_book (\<lambda>b. release_order o1 (remove_order_from_level iter o1 b)) e)"

section \<open>Commands\<close>

definition set_type :: "int \<Rightarrow> order_type \<Rightarrow> order_book \<Rightarrow> order_book" where
  "set_type oid ty b =
     (case dict_get (bk_orders b) oid of
        None \<Rightarrow> b
      | Some o1 \<Rightarrow> b\<lparr>bk_orders := dict_set oid (o1\<lparr>od_type := ty\<rparr>) (bk_orders b)\<rparr>)"

definition market_price :: "side \<Rightarrow> int" where
  "market_price side = (if side = BID then MAX_TICK else INVALID_PRICE)"

text \<open>The result is the resting order, if any, and the engine.\<close>

definition process_market ::
  "iteration \<Rightarrow> int \<Rightarrow> side \<Rightarrow> int \<Rightarrow> int \<Rightarrow> engine \<Rightarrow> (int option \<times> engine) option" where
  "process_market iter oid side quantity ts e =
     (case add_order oid side (market_price side) quantity ts (mx_book e) of
        None \<Rightarrow> Some (None, e)
      | Some b \<Rightarrow>
          (case match_order iter oid (e\<lparr>mx_book := set_type oid MARKET b\<rparr>) of
             None \<Rightarrow> None
           | Some e' \<Rightarrow> Some (None, if left_of oid e' > 0 then drop_order iter oid e' else e')))"

definition crosses :: "side \<Rightarrow> int \<Rightarrow> order_book \<Rightarrow> bool" where
  "crosses side price b \<longleftrightarrow>
     (if side = BID then bk_best_ask b \<noteq> INVALID_PRICE \<and> price \<ge> bk_best_ask b
      else bk_best_bid b \<noteq> INVALID_PRICE \<and> price \<le> bk_best_bid b)"

definition process_resting ::
  "iteration \<Rightarrow> int \<Rightarrow> side \<Rightarrow> order_type \<Rightarrow> int \<Rightarrow> int \<Rightarrow> int \<Rightarrow> int \<Rightarrow> engine \<Rightarrow>
     (int option \<times> engine) option" where
  "process_resting iter oid side ty price quantity ts display_qty e =
     (case (if ty = ICEBERG then add_iceberg_order oid side price quantity display_qty ts (mx_book e)
            else add_order oid side price quantity ts (mx_book e)) of
        None \<Rightarrow> Some (None, e)
      | Some b \<Rightarrow>
          (let e1 = e\<lparr>mx_book := b\<rparr>
           in if crosses side price b
              then (case match_order iter oid e1 of
                      None \<Rightarrow> None
                    | Some e2 \<Rightarrow> if left_of oid e2 \<le> 0 then Some (None, drop_order iter oid e2)
                                 else Some (Some oid, e2))
              else Some (Some oid, e1)))"

definition process_new_order ::
  "iteration \<Rightarrow> int \<Rightarrow> side \<Rightarrow> order_type \<Rightarrow> int \<Rightarrow> int \<Rightarrow> int \<Rightarrow> int \<Rightarrow> engine \<Rightarrow>
     (int option \<times> engine) option" where
  "process_new_order iter oid side ty price quantity ts display_qty e0 =
     (let e = e0\<lparr>mx_total_orders := mx_total_orders e0 + 1\<rparr>
      in if quantity \<le> 0 then Some (None, e)
         else if ty = LIMIT \<and> price \<le> 0 then Some (None, e)
         else if ty = ICEBERG \<and> (price \<le> 0 \<or> display_qty \<le> 0) then Some (None, e)
         else if ty = MARKET then process_market iter oid side quantity ts e
         else process_resting iter oid side ty price quantity ts display_qty e)"

definition process_cancel :: "iteration \<Rightarrow> int \<Rightarrow> engine \<Rightarrow> bool \<times> engine" where
  "process_cancel iter oid e =
     (case cancel_order iter oid (mx_book e) of
        (ok, b) \<Rightarrow> (ok, e\<lparr>mx_book := b,
          mx_total_cancels := (if ok then mx_total_cancels e + 1 else mx_total_cancels e)\<rparr>))"

definition process_modify :: "iteration \<Rightarrow> int \<Rightarrow> int \<Rightarrow> int \<Rightarrow> engine \<Rightarrow> bool \<times> engine" where
  "process_modify iter oid new_price new_qty e =
     (case modify_order iter oid new_price new_qty (mx_book e) of
        (ok, b) \<Rightarrow> (ok, e\<lparr>mx_book := b,
          mx_total_modifies := (if ok then mx_total_modifies e + 1 else mx_total_modifies e)\<rparr>))"

section \<open>Snapshots and events\<close>

text \<open>The arrays are zero where there is no level.\<close>

definition depth_array :: "int list \<Rightarrow> ('w::len) word list" where
  "depth_array xs = map word_of_int (take MAX_DEPTH_LEVELS xs @ replicate (MAX_DEPTH_LEVELS - length xs) 0)"

definition get_book_snapshot :: "iteration \<Rightarrow> engine \<Rightarrow> engine_book_update" where
  "get_book_snapshot iter e =
     (let b = mx_book e;
          bid_depth = get_depth iter BID MAX_DEPTH_LEVELS b;
          ask_depth = get_depth iter ASK MAX_DEPTH_LEVELS b
      in \<lparr>eb_best_bid = word_of_int (bk_best_bid b), eb_best_ask = word_of_int (bk_best_ask b),
          eb_num_bid_levels = of_nat (length bid_depth), eb_num_ask_levels = of_nat (length ask_depth),
          eb_bid_prices = depth_array (map fst bid_depth), eb_bid_quantities = depth_array (map snd bid_depth),
          eb_ask_prices = depth_array (map fst ask_depth), eb_ask_quantities = depth_array (map snd ask_depth)\<rparr>)"

datatype command =
    New_Command nat int side order_type int int int
  | Cancel_Command nat int
  | Modify_Command nat int int int

definition emit :: "engine_event \<Rightarrow> engine \<Rightarrow> engine" where
  "emit ev e = e\<lparr>mx_out := mx_out e @ [ev]\<rparr>"

definition send_update :: "iteration \<Rightarrow> engine \<Rightarrow> engine" where
  "send_update iter e = emit (Book_Event (get_book_snapshot iter e)) e"

fun process_client_command :: "iteration \<Rightarrow> command \<Rightarrow> engine \<Rightarrow> engine option" where
  "process_client_command iter (New_Command c oid side ty price quantity display_qty) e =
     (case process_new_order iter oid side ty price quantity 0 display_qty e of
        None \<Rightarrow> None
      | Some (r, e') \<Rightarrow> Some (send_update iter e'))"
| "process_client_command iter (Cancel_Command c oid) e =
     (case process_cancel iter oid e of
        (ok, e') \<Rightarrow> Some (if ok then send_update iter e' else emit (Reject_Event c oid ORDER_NOT_FOUND) e'))"
| "process_client_command iter (Modify_Command c oid new_price new_qty) e =
     (case process_modify iter oid new_price new_qty e of
        (ok, e') \<Rightarrow> Some (if ok then send_update iter e' else emit (Reject_Event c oid INVALID_MODIFY) e'))"

section \<open>Frames to commands\<close>

definition side_of :: "8 word \<Rightarrow> side option" where
  "side_of w = (if w = 0 then Some BID else if w = 1 then Some ASK else None)"

definition order_type_of :: "8 word \<Rightarrow> order_type option" where
  "order_type_of w = (if w = 0 then Some LIMIT else if w = 1 then Some MARKET
     else if w = 2 then Some ICEBERG else None)"

fun reason_code :: "reject_reason \<Rightarrow> 8 word" where
  "reason_code INVALID_PARAMS = 0"
| "reason_code POOL_EXHAUSTED = 1"
| "reason_code ORDER_NOT_FOUND = 2"
| "reason_code DUPLICATE_ID = 3"
| "reason_code INVALID_MODIFY = 4"

datatype dispatch = Command command | Rejected int reject_reason | Ignored | Unlisted

definition has_order :: "int \<Rightarrow> engine \<Rightarrow> bool" where
  "has_order oid e \<longleftrightarrow> get_order oid (mx_book e) \<noteq> None"

definition process_new_order_message :: "nat \<Rightarrow> bytes \<Rightarrow> engine \<Rightarrow> dispatch" where
  "process_new_order_message c payload e =
     (if length payload < 26 then Rejected 0 INVALID_PARAMS
      else
        (let m = deserialize_new_order payload; oid = uint (en_id m)
         in if sint (en_quantity m) \<le> 0 then Rejected oid INVALID_PARAMS
            else if en_type m = 0 \<and> sint (en_price m) \<le> 0 then Rejected oid INVALID_PARAMS
            else if has_order oid e then Rejected oid DUPLICATE_ID
            else (case (side_of (en_side m), order_type_of (en_type m)) of
                    (Some side, Some ty) \<Rightarrow>
                      Command (New_Command c oid side ty (sint (en_price m)) (sint (en_quantity m))
                        (sint (en_display_qty m)))
                  | _ \<Rightarrow> Unlisted)))"

definition process_modify_message :: "nat \<Rightarrow> bytes \<Rightarrow> dispatch" where
  "process_modify_message c payload =
     (if length payload < 20 then Rejected 0 INVALID_PARAMS
      else
        (let oid = uint (word64 payload); new_price = sint (word64 (drop 8 payload));
             new_qty = sint (word32 (drop 16 payload))
         in if new_qty \<le> 0 \<or> new_price \<le> 0 then Rejected oid INVALID_PARAMS
            else Command (Modify_Command c oid new_price new_qty)))"

definition process_message :: "nat \<Rightarrow> 8 word \<Rightarrow> bytes \<Rightarrow> engine \<Rightarrow> dispatch" where
  "process_message c ty payload e =
     (if ty = 1 then process_new_order_message c payload e
      else if ty = 2 then
        (if length payload < 8 then Rejected 0 INVALID_PARAMS
         else Command (Cancel_Command c (uint (deserialize_cancel payload))))
      else if ty = 6 then process_modify_message c payload
      else Ignored)"

text \<open>The messages \<open>consume_engine_events\<close> queues for client \<open>c\<close>: every book update, and its own rejections.\<close>

fun event_messages :: "nat \<Rightarrow> engine_event \<Rightarrow> engine_msg list" where
  "event_messages c (Book_Event u) = [Engine_Book u]"
| "event_messages c (Reject_Event c' oid r) =
     (if c' = c then [Engine_Reject \<lparr>er_id = word_of_int oid, er_reason = reason_code r\<rparr>] else [])"

fun dispatch_messages :: "dispatch \<Rightarrow> engine_msg list" where
  "dispatch_messages (Rejected oid r) = [Engine_Reject \<lparr>er_id = word_of_int oid, er_reason = reason_code r\<rparr>]"
| "dispatch_messages _ = []"

end
