(* ===== verification/Bridge_Server.thy ===== *)
theory Bridge_Server
  imports Ws_Bridge "HOL-Library.Sublist"
begin

text \<open>
  The server side of \<open>simulation/market/ws_bridge.py\<close>: the coroutines of the WebSocket thread
  (\<open>_run_ws\<close>, \<open>_ws_main\<close>, \<open>_ws_handler\<close>) and the two methods the simulation thread calls, as a
  step relation in which they interleave freely. A coroutine runs undisturbed between two
  \<open>await\<close>s, and each rule is one such stretch. The connections are an environment: they open,
  send, close, and let a \<open>send\<close> succeed or fail at will. At the end, the queues as
  \<^theory_text>\<open>Ws_Bridge\<close> presents them to the simulator are related to this machine.
\<close>

section \<open>State and operations\<close>

text \<open>
  A connection is a number; \<open>sv_sent\<close> is what has been sent to each. \<open>_clients\<close> is a set, whose
  iteration order does not matter here.
\<close>

record bridge_server =
  sv_started :: bool
  sv_loop :: bool
  sv_clients :: "nat set"
  sv_messages :: "json list"
  sv_incoming :: "json result list"
  sv_sent :: "nat \<Rightarrow> json list"

definition server_init :: bridge_server where
  "server_init = \<lparr>sv_started = False, sv_loop = False, sv_clients = {}, sv_messages = [], sv_incoming = [],
     sv_sent = (\<lambda>c. [])\<rparr>"

text \<open>\<open>start\<close> starts the two threads; the one for the static files shares nothing with the rest.\<close>

definition bridge_start :: "bridge_server \<Rightarrow> bridge_server" where
  "bridge_start b = b\<lparr>sv_started := True\<rparr>"

definition run_ws :: "bridge_server \<Rightarrow> bridge_server" where
  "run_ws b = b\<lparr>sv_loop := True\<rparr>"

text \<open>Without an event loop \<open>push\<close> drops its argument.\<close>

definition server_push :: "json \<Rightarrow> bridge_server \<Rightarrow> bridge_server" where
  "server_push data b = (if sv_loop b then b\<lparr>sv_messages := sv_messages b @ [data]\<rparr> else b)"

definition server_poll :: "bridge_server \<Rightarrow> json result list \<times> bridge_server" where
  "server_poll b = (sv_incoming b, b\<lparr>sv_incoming := []\<rparr>)"

definition handler_open :: "nat \<Rightarrow> bridge_server \<Rightarrow> bridge_server" where
  "handler_open c b = b\<lparr>sv_clients := insert c (sv_clients b)\<rparr>"

definition handler_message :: "json result \<Rightarrow> bridge_server \<Rightarrow> bridge_server" where
  "handler_message m b = b\<lparr>sv_incoming := sv_incoming b @ [m]\<rparr>"

definition handler_close :: "nat \<Rightarrow> bridge_server \<Rightarrow> bridge_server" where
  "handler_close c b = b\<lparr>sv_clients := sv_clients b - {c}\<rparr>"

text \<open>
  One round of \<open>_ws_main\<close>: it waits for a message, and if there are clients sends it to all of
  them; \<open>ok\<close> says whose \<open>send\<close> succeeds, and \<open>gather\<close> ignores the failures.
\<close>

definition ws_main_turn :: "(nat \<Rightarrow> bool) \<Rightarrow> bridge_server \<Rightarrow> (json \<times> bridge_server) option" where
  "ws_main_turn ok b =
     (case sv_messages b of
        [] \<Rightarrow> None
      | data # rest \<Rightarrow>
          (let b' = b\<lparr>sv_messages := rest\<rparr>
           in Some (data,
                if sv_clients b' \<noteq> {}
                then b'\<lparr>sv_sent := (\<lambda>c. if c \<in> sv_clients b' \<and> ok c then sv_sent b' c @ [data] else sv_sent b' c)\<rparr>
                else b')))"

section \<open>Steps and runs\<close>

datatype bridge_event =
    Start
  | Loop_Up
  | Push json
  | Poll "json result list"
  | Open nat
  | Arrive nat "json result"
  | Close nat
  | Turn json "nat \<Rightarrow> bool"

inductive bridge_step :: "bridge_server \<Rightarrow> bridge_event \<Rightarrow> bridge_server \<Rightarrow> bool" where
  started: "\<not> sv_started b \<Longrightarrow> bridge_step b Start (bridge_start b)"
| loop_up: "sv_started b \<Longrightarrow> \<not> sv_loop b \<Longrightarrow> bridge_step b Loop_Up (run_ws b)"
| push: "bridge_step b (Push data) (server_push data b)"
| poll: "server_poll b = (ms, b') \<Longrightarrow> bridge_step b (Poll ms) b'"
| opened: "sv_loop b \<Longrightarrow> c \<notin> sv_clients b \<Longrightarrow> bridge_step b (Open c) (handler_open c b)"
| arrive: "c \<in> sv_clients b \<Longrightarrow> bridge_step b (Arrive c m) (handler_message m b)"
| closed: "c \<in> sv_clients b \<Longrightarrow> bridge_step b (Close c) (handler_close c b)"
| turn: "sv_loop b \<Longrightarrow> ws_main_turn ok b = Some (data, b') \<Longrightarrow> bridge_step b (Turn data ok) b'"

inductive_cases bridge_stepE: "bridge_step b e b'"

inductive bridge_run :: "bridge_server \<Rightarrow> bridge_event list \<Rightarrow> bridge_server \<Rightarrow> bool" where
  start: "bridge_run b [] b"
| more: "bridge_run b es b' \<Longrightarrow> bridge_step b' e b'' \<Longrightarrow> bridge_run b (es @ [e]) b''"

lemma bridge_run_append: "bridge_run b es b' \<Longrightarrow> bridge_run b' es' b'' \<Longrightarrow> bridge_run b (es @ es') b''"
proof (induction es' arbitrary: b'' rule: rev_induct)
  case Nil
  then show ?case by (auto elim: bridge_run.cases)
next
  case (snoc e es')
  from snoc.prems(2) obtain b1 where "bridge_run b' es' b1" "bridge_step b1 e b''"
    by (cases rule: bridge_run.cases) auto
  then show ?case using snoc.IH [OF snoc.prems(1)] bridge_run.more by (metis append_assoc)
qed

section \<open>What should have happened\<close>

text \<open>
  The traffic a history of events calls for, without a server: what was pushed once the loop
  was up, what was broadcast, what one client should have heard, what arrived and was polled.
\<close>

definition pushes :: "bridge_event list \<Rightarrow> bool \<times> json list" where
  "pushes es = foldl (\<lambda>(up, out) e. case e of
       Loop_Up \<Rightarrow> (True, out)
     | Push d \<Rightarrow> (up, if up then out @ [d] else out)
     | _ \<Rightarrow> (up, out)) (False, []) es"

definition heard :: "nat \<Rightarrow> bridge_event list \<Rightarrow> bool \<times> json list" where
  "heard c es = foldl (\<lambda>(here, out) e. case e of
       Open c' \<Rightarrow> (here \<or> c' = c, out)
     | Close c' \<Rightarrow> (here \<and> c' \<noteq> c, out)
     | Turn d ok \<Rightarrow> (here, if here \<and> ok c then out @ [d] else out)
     | _ \<Rightarrow> (here, out)) (False, []) es"

definition broadcasts :: "bridge_event list \<Rightarrow> json list" where
  "broadcasts es = concat (map (\<lambda>e. case e of Turn d ok \<Rightarrow> [d] | _ \<Rightarrow> []) es)"

definition arrived :: "bridge_event list \<Rightarrow> json result list" where
  "arrived es = concat (map (\<lambda>e. case e of Arrive c m \<Rightarrow> [m] | _ \<Rightarrow> []) es)"

definition polled :: "bridge_event list \<Rightarrow> json result list" where
  "polled es = concat (map (\<lambda>e. case e of Poll ms \<Rightarrow> ms | _ \<Rightarrow> []) es)"

lemmas traffic_defs = pushes_def heard_def broadcasts_def arrived_def polled_def
lemmas server_defs = bridge_start_def run_ws_def server_push_def server_poll_def handler_open_def handler_message_def
  handler_close_def server_init_def

lemma turn_cases:
  assumes "ws_main_turn ok b = Some (d, b')"
  shows "sv_messages b = d # sv_messages b'" "sv_loop b' = sv_loop b" "sv_clients b' = sv_clients b"
    "sv_incoming b' = sv_incoming b"
    "sv_sent b' c = (if c \<in> sv_clients b \<and> ok c then sv_sent b c @ [d] else sv_sent b c)"
  using assms by (auto simp: ws_main_turn_def Let_def split: list.splits if_splits)

section \<open>The invariant of a run\<close>

definition traffic_ok :: "bridge_event list \<Rightarrow> bridge_server \<Rightarrow> bool" where
  "traffic_ok es b \<longleftrightarrow>
     pushes es = (sv_loop b, broadcasts es @ sv_messages b) \<and>
     arrived es = polled es @ sv_incoming b \<and>
     (\<forall>c. heard c es = (c \<in> sv_clients b, sv_sent b c))"

lemma traffic_ok_step:
  assumes "traffic_ok es b" "bridge_step b e b'"
  shows "traffic_ok (es @ [e]) b'"
  using assms(2)
proof cases
  case (turn ok data)
  note t = turn_cases [OF turn(3)]
  show ?thesis using assms(1) turn(1) t by (auto simp: traffic_ok_def traffic_defs)
qed (use assms(1) in \<open>auto simp: traffic_ok_def traffic_defs server_defs\<close>)

lemma traffic_ok_run:
  assumes "bridge_run server_init es b"
  shows "traffic_ok es b"
proof -
  have "bridge_run b0 es b \<Longrightarrow> b0 = server_init \<Longrightarrow> traffic_ok es b" for b0
  proof (induction rule: bridge_run.induct)
    case (start b)
    then show ?case by (simp add: traffic_ok_def traffic_defs server_init_def)
  next
    case (more b es b' e b'')
    then show ?case using traffic_ok_step by blast
  qed
  then show ?thesis using assms by blast
qed

text \<open>What one client hears is a part of what was broadcast, in its order.\<close>

lemma heard_subseq: "subseq (snd (heard c es)) (broadcasts es)"
proof (induction es rule: rev_induct)
  case (snoc e es)
  then show ?case
    by (cases e) (auto simp: heard_def broadcasts_def split: prod.splits if_splits intro: subseq_order.trans
        list_emb_append_mono)
qed (simp add: heard_def broadcasts_def)

section \<open>Progress\<close>

text \<open>
  With the loop up, as many rounds as there are waiting messages empty the queue, and a client
  all of whose sends succeed has then been sent all of them.
\<close>

lemma flush_queue:
  assumes "sv_loop b"
  shows "\<exists>es b'. bridge_run b es b' \<and> length es = length (sv_messages b) \<and> sv_messages b' = [] \<and>
    (\<forall>c \<in> sv_clients b. ok c \<longrightarrow> sv_sent b' c = sv_sent b c @ sv_messages b)"
  using assms
proof (induction "length (sv_messages b)" arbitrary: b)
  case 0
  then show ?case using bridge_run.start [of b] by (intro exI [of _ "[]"] exI [of _ b]) simp
next
  case (Suc n)
  obtain d b1 where t: "ws_main_turn ok b = Some (d, b1)"
    using Suc.hyps(2) by (cases "sv_messages b") (auto simp: ws_main_turn_def Let_def)
  note f = turn_cases [OF t]
  obtain es b' where r: "bridge_run b1 es b'" "length es = n" "sv_messages b' = []"
    "\<forall>c \<in> sv_clients b1. ok c \<longrightarrow> sv_sent b' c = sv_sent b1 c @ sv_messages b1"
    using Suc.hyps(1) [of b1] Suc.hyps(2) Suc.prems f by auto
  have "bridge_run b [Turn d ok] b1"
    using bridge_run.more [OF bridge_run.start turn [OF Suc.prems t]] by simp
  then have "bridge_run b ([Turn d ok] @ es) b'" using r(1) by (rule bridge_run_append)
  then show ?case using r f Suc.hyps(2) by (intro exI [of _ "[Turn d ok] @ es"] exI [of _ b']) auto
qed

section \<open>The simulator's view\<close>

text \<open>
  The record the simulator uses keeps every message it ever pushed and finds the arrivals of
  the WebSocket thread in a script. It stands for a state of the server with the same loop and
  incoming queue whose broadcasts and waiting messages together are what was pushed.
\<close>

definition bridge_view :: "ws_bridge \<Rightarrow> bridge_event list \<Rightarrow> bridge_server \<Rightarrow> bool" where
  "bridge_view w es b \<longleftrightarrow> loop_up w = sv_loop b \<and> message_queue w = broadcasts es @ sv_messages b \<and>
     incoming_queue w = sv_incoming b"

lemma push_simulated:
  assumes "bridge_view w es b"
  shows "bridge_step b (Push d) (server_push d b) \<and> bridge_view (ws_push d w) (es @ [Push d]) (server_push d b)"
  using assms bridge_step.push by (auto simp: bridge_view_def ws_push_def server_push_def broadcasts_def)

lemma arrivals_simulated:
  assumes "c \<in> sv_clients b"
  shows "\<exists>b'. bridge_run b (map (Arrive c) ms) b' \<and> b' = b\<lparr>sv_incoming := sv_incoming b @ ms\<rparr>"
proof (induction ms rule: rev_induct)
  case Nil
  then show ?case using bridge_run.start [of b] by simp
next
  case (snoc m ms)
  then show ?case
    using bridge_run.more [OF _ arrive [of c _ m]] assms by (fastforce simp: handler_message_def)
qed

text \<open>
  A poll of the simulator is a run of the server: the scripted messages arrive over any open
  connection, then the queue is emptied, and the simulator gets the messages the server hands out.
\<close>

lemma poll_simulated:
  assumes "bridge_view w es b" "arrivals w = ms # rest" "c \<in> sv_clients b"
  shows "\<exists>b'. bridge_run b (map (Arrive c) ms @ [Poll (fst (poll_incoming w))]) b' \<and>
    bridge_view (snd (poll_incoming w)) (es @ map (Arrive c) ms @ [Poll (fst (poll_incoming w))]) b'"
proof -
  let ?b = "b\<lparr>sv_incoming := sv_incoming b @ ms\<rparr>"
  have run: "bridge_run b (map (Arrive c) ms) ?b" using arrivals_simulated [OF assms(3)] by blast
  have out: "fst (poll_incoming w) = sv_incoming b @ ms"
    using assms(1,2) by (simp add: poll_incoming_def ws_arrive_def bridge_view_def)
  have "bridge_step ?b (Poll (sv_incoming b @ ms)) (?b\<lparr>sv_incoming := []\<rparr>)"
    by (rule bridge_step.poll) (simp add: server_poll_def)
  then have "bridge_run b (map (Arrive c) ms @ [Poll (fst (poll_incoming w))]) (?b\<lparr>sv_incoming := []\<rparr>)"
    using bridge_run.more [OF run] out by simp
  moreover have "broadcasts (map (Arrive c) ms) = []" by (induction ms) (simp_all add: broadcasts_def)
  then have "bridge_view (snd (poll_incoming w)) (es @ map (Arrive c) ms @ [Poll (fst (poll_incoming w))])
      (?b\<lparr>sv_incoming := []\<rparr>)"
    using assms(1,2) by (simp add: poll_incoming_def ws_arrive_def bridge_view_def broadcasts_def)
  ultimately show ?thesis by blast
qed

end
