(* ===== verification/Wire_Theorems.thy ===== *)
theory Wire_Theorems
  imports Matching_Engine Bridge_Server
begin

text \<open>
  The theorems about the connection between the simulator and the engine, with the concrete
  messages and the concrete connection on which they are instantiated.
\<close>

section \<open>Messages and a connection\<close>

definition sample_engine_fill :: engine_fill where
  "sample_engine_fill = \<lparr>ef_maker_id = 1, ef_taker_id = 1000001, ef_price = 10000, ef_quantity = 60,
     ef_maker_fee = 0, ef_taker_fee = 0\<rparr>"

definition sample_reject :: engine_reject where
  "sample_reject = \<lparr>er_id = 5, er_reason = 1\<rparr>"

definition sample_stream :: bytes where
  "sample_stream = engine_msg_bytes (Engine_Fill sample_engine_fill) @ engine_msg_bytes (Engine_Reject sample_reject)"

text \<open>A connected client whose socket will deliver the given pieces.\<close>

definition sample_client :: "bytes list \<Rightarrow> tcp_client" where
  "sample_client pieces = (tcp_init ''localhost'' 9876)\<lparr>sock := Some \<lparr>connected = True,
     recv_script = map Received pieces, send_script = [], wire = []\<rparr>, recv_buffer := []\<rparr>"

lemma sample_stream_length: "length sample_stream = 63"
  by (simp add: sample_stream_def serialize_def engine_fill_bytes_def engine_reject_bytes_def)

lemma sample_send_ok:
  "\<exists>u c'. send_new_order (sample_client []) 7 1 0 10000 50 0 = (Inr u, c')"
proof -
  let ?m = "\<lparr>no_id = 7, no_side = 1, no_type = 0, no_price = 10000, no_quantity = 50, no_display_qty = 0\<rparr>"
  have "new_order_in_range ?m" by (simp add: new_order_in_range_def)
  then obtain p where p: "NewOrderMsg_pack ?m = Inr p" using NewOrderMsg_pack_iff by blast
  have "struct_pack HEADER_FORMAT [1, int (length p)] = Inr (1 # bytes32 (of_nat (length p)))"
    using header_bytes [of p 1] deserialize_pack(2) [OF p] by simp
  then show ?thesis
    using p by (simp add: send_new_order_def send_frame_def sock_sendall_def sample_client_def)
qed

section \<open>The wire\<close>

text \<open>
  C6. Whatever pieces TCP delivers a stream of engine messages in, polling once per piece
  decodes exactly the messages the engine sent, in order: fills and book updates field by
  field, rejects skipped, nothing left in the buffer.
\<close>

theorem engine_stream_received:
  assumes "list_all engine_msg_ok ms" "concat pieces = concat (map engine_msg_bytes ms)"
    "\<forall>d \<in> set pieces. d \<noteq> [] \<and> length d \<le> 4096"
    "sock c = Some s" "connected s" "recv_script s = map Received pieces @ later" "recv_buffer c = []"
  shows "\<exists>c'. polls (length pieces) c = (Inr (concat (map client_messages ms)), c') \<and> recv_buffer c' = []"
proof -
  have empty: "poll_loop [] = ([], [], None)" by (rule poll_loop_short) simp
  have "poll_loop (concat pieces) = ([], concat (map client_messages ms), None)"
    using poll_engine_stream [OF assms(1), of "[]"] assms(2) empty by simp
  then show ?thesis
    using polls_segments [OF assms(4-6,3), of "[]"] assms(7) empty by simp
qed

theorem engine_stream_received_witness:
  "\<exists>c'. polls 2 (sample_client [take 20 sample_stream, drop 20 sample_stream]) =
     (Inr [(FILL, Fill_Message (client_fill sample_engine_fill))], c') \<and> recv_buffer c' = []"
proof -
  let ?pieces = "[take 20 sample_stream, drop 20 sample_stream]"
  let ?s = "\<lparr>connected = True, recv_script = map Received ?pieces, send_script = [], wire = []\<rparr>"
  have "list_all engine_msg_ok [Engine_Fill sample_engine_fill, Engine_Reject sample_reject]"
    "concat ?pieces = concat (map engine_msg_bytes [Engine_Fill sample_engine_fill, Engine_Reject sample_reject])"
    "\<forall>d \<in> set ?pieces. d \<noteq> [] \<and> length d \<le> 4096"
    "sock (sample_client ?pieces) = Some ?s" "connected ?s" "recv_script ?s = map Received ?pieces @ []"
    "recv_buffer (sample_client ?pieces) = []"
    using sample_stream_length
    by (auto simp: sample_stream_def [symmetric] sample_client_def simp del: engine_msg_bytes.simps)
  from engine_stream_received [OF this] show ?thesis
    unfolding length_Cons list.size(3) numeral_2_eq_2 [symmetric] by (simp only: list.map concat.simps
        client_messages.simps append_Nil append_Nil2)
qed



text \<open>
  C8. On a connected socket whose writes succeed, sending an order raises exactly when a field
  is out of the range of its wire format, the exception is \<open>struct.error\<close>, and nothing has been
  written then.
\<close>

theorem send_order_error:
  assumes "sock c = Some s" "connected s" "send_script s = []"
  shows "fst (send_new_order c oid side ty price qty disp) =
      (if new_order_in_range \<lparr>no_id = oid, no_side = side, no_type = ty, no_price = price,
            no_quantity = qty, no_display_qty = disp\<rparr> then Inr () else Inl StructError) \<and>
    (fst (send_new_order c oid side ty price qty disp) = Inl StructError \<longrightarrow>
       snd (send_new_order c oid side ty price qty disp) = c)"
proof -
  let ?m = "\<lparr>no_id = oid, no_side = side, no_type = ty, no_price = price, no_quantity = qty,
     no_display_qty = disp\<rparr>"
  show ?thesis
  proof (cases "new_order_in_range ?m")
    case True
    then obtain p where p: "NewOrderMsg_pack ?m = Inr p" using NewOrderMsg_pack_iff by blast
    have "struct_pack HEADER_FORMAT [1, int (length p)] = Inr (1 # bytes32 (of_nat (length p)))"
      using header_bytes [of p 1] deserialize_pack(2) [OF p] by simp
    then show ?thesis
      using True p assms by (simp add: send_new_order_def send_frame_def sock_sendall_def)
  next
    case False
    then have "NewOrderMsg_pack ?m = Inl StructError"
      using NewOrderMsg_pack_iff [of ?m] NewOrderMsg_pack_error by (cases "NewOrderMsg_pack ?m") auto
    then show ?thesis using False by (simp add: send_new_order_def send_frame_def)
  qed
qed

theorem send_order_error_witness:
  "send_new_order (sample_client []) 7 0 0 10000 3000000000 0 = (Inl StructError, sample_client [])"
  using send_order_error [of "sample_client []" _ 7 0 0 10000 3000000000 0]
  by (simp add: sample_client_def new_order_in_range_def prod_eq_iff)

text \<open>
  A frame of an unknown type makes \<open>poll\<close> raise \<open>ValueError\<close> after everything up to and
  including that frame has left the buffer: the messages that were decoded in the same call
  are lost to the caller, only the bytes behind the bad frame remain.
\<close>

lemma poll_unknown_type:
  assumes "sock c = Some s" "connected s" "recv_buffer c = []"
    "recv_script s = Received (concat (map engine_msg_bytes ms) @ serialize ty payload @ rest) # later"
    "length (concat (map engine_msg_bytes ms) @ serialize ty payload @ rest) \<le> 4096"
    "list_all engine_msg_ok ms" "uint ty \<notin> {1, 2, 3, 4, 5, 255}"
  shows "\<exists>c'. poll c = (Inl ValueError, c') \<and> recv_buffer c' = rest"
proof -
  have "length payload < 2 ^ 32" using assms(5) by (simp add: serialize_def)
  moreover have "handle_frame (uint ty) payload = Inl ValueError"
    using assms(7) by (simp add: handle_frame_def msg_type_of_def)
  ultimately have "poll_loop (serialize ty payload @ rest) = (rest, [], Some ValueError)"
    using poll_loop_frame [OF header_bytes, of payload ty rest] by (simp add: serialize_def)
  then have "poll_loop (concat (map engine_msg_bytes ms) @ serialize ty payload @ rest) =
      (rest, concat (map client_messages ms), Some ValueError)"
    using poll_engine_stream [OF assms(6)] by simp
  moreover have "serialize ty payload \<noteq> []" by (simp add: serialize_def)
  ultimately show ?thesis
    using assms(1-5) by (simp add: poll_def sock_recv_def poll_buffer_def Let_def)
qed

text \<open>
  The engine's fill message carries two fees that the client does not read: fills that differ only
  in their fees are the same fill to the client.
\<close>

lemma fill_fees_dropped:
  "FillMsg_unpack (engine_fill_bytes (f\<lparr>ef_maker_fee := x, ef_taker_fee := y\<rparr>)) =
     FillMsg_unpack (engine_fill_bytes f)"
  by (simp add: FillMsg_unpack_engine client_fill_def)

section \<open>The browser's connections\<close>

text \<open>
  C32. However the simulation thread, the broadcasting loop and the browsers' connections
  interleave: what was broadcast and what still waits is together exactly what was pushed since
  the loop was up, in order; a browser has been sent exactly what was broadcast while it was
  connected and its sends succeeded, in that order; and what browsers sent is polled once,
  in the order of arrival.
\<close>

theorem bridge_traffic:
  assumes "bridge_run server_init es b"
  shows "snd (pushes es) = broadcasts es @ sv_messages b \<and>
    sv_sent b c = snd (heard c es) \<and> subseq (sv_sent b c) (snd (pushes es)) \<and>
    arrived es = polled es @ sv_incoming b"
proof -
  have t: "traffic_ok es b" by (rule traffic_ok_run [OF assms])
  then have h: "sv_sent b c = snd (heard c es)" by (simp add: traffic_ok_def)
  have "subseq (snd (heard c es)) (broadcasts es @ sv_messages b)"
    using heard_subseq by (rule subseq_rev_drop_many)
  then show ?thesis using t h by (simp add: traffic_ok_def)
qed

theorem bridge_traffic_witness:
  "\<exists>b. bridge_run server_init [Start, Loop_Up, Open 1, Push (JInt 5), Turn (JInt 5) (\<lambda>c. True)] b \<and>
    sv_sent b 1 = [JInt 5] \<and> sv_messages b = []"
proof -
  let ?b = "\<lparr>sv_started = True, sv_loop = True, sv_clients = {1}, sv_messages = [JInt 5], sv_incoming = [], sv_sent = (\<lambda>c. [])\<rparr>"
  have "bridge_run server_init [] server_init" by (rule start)
  from bridge_run.more [OF this started] have "bridge_run server_init [Start] (bridge_start server_init)"
    by (simp add: server_init_def)
  from bridge_run.more [OF this loop_up] have "bridge_run server_init [Start, Loop_Up] (run_ws (bridge_start server_init))"
    by (simp add: server_defs)
  from bridge_run.more [OF this opened [of _ 1]]
  have "bridge_run server_init [Start, Loop_Up, Open 1] (handler_open 1 (run_ws (bridge_start server_init)))"
    by (simp add: server_defs)
  from bridge_run.more [OF this push [of _ "JInt 5"]]
  have "bridge_run server_init [Start, Loop_Up, Open 1, Push (JInt 5)] ?b" by (simp add: server_defs)
  from bridge_run.more [OF this turn [of ?b "\<lambda>c. True" "JInt 5"]]
  obtain b where "bridge_run server_init [Start, Loop_Up, Open 1, Push (JInt 5), Turn (JInt 5) (\<lambda>c. True)] b"
    by (auto simp: ws_main_turn_def Let_def)
  with bridge_traffic [OF this, of 1] show ?thesis by (auto simp: heard_def pushes_def broadcasts_def)
qed

end
