(* ===== verification/Agent_Theorems.thy ===== *)
theory Agent_Theorems
  imports Market_Maker
begin

text \<open>
  The theorems about the single strategies: what the market maker quotes, what the traders send
  and when, and where the bookkeeping of orders falls short. The samples at the start are the
  inputs of the instances.
\<close>

section \<open>Samples\<close>

definition flat_book :: book_update_msg where
  "flat_book = \<lparr>best_bid = 9995, best_ask = 10005, num_bid_levels = 0, num_ask_levels = 0,
     bid_prices = [], bid_quantities = [], ask_prices = [], ask_quantities = []\<rparr>"

definition sample_mm :: "nat market_maker" where
  "sample_mm = fst (mm_init tick_numpy ''MM'' 1 1 500 2 5 100 100 10000 42 1 0)"

definition sample_noise :: "nat noise_trader" where
  "sample_noise = fst (noise_init tick_numpy ''NOISE_0'' 1 20 10 100 0 0 1 1)"

definition sample_informed :: "nat informed_trader" where
  "sample_informed = informed_set_true_price 10100 (fst (informed_init tick_numpy ''INFORMED'' 15 1 50 200 0 1 2))"

definition sample_momentum :: "nat momentum_trader" where
  "sample_momentum = base_agent.extend (fst (base_init ''MOMENTUM'' 1 3))
     (momentum_trader.fields (1 / 2) (1 / 4) 1 20 80 0 9000 9000 True)"

definition sample_arb :: "nat latency_arb" where
  "sample_arb = latency_arb_set_true_price 10100 (fst (latency_arb_init tick_numpy ''LAT_ARB'' 5 50 1 40 40 0 1 4))"

lemmas sample_agent_defs = flat_book_def sample_mm_def sample_noise_def sample_informed_def
  sample_momentum_def sample_arb_def mm_init_def noise_init_def informed_init_def latency_arb_init_def
  informed_set_true_price_def latency_arb_set_true_price_def base_init_def agent_stats_init_def
  base_agent.defs market_maker.defs noise_trader.defs informed_trader.defs momentum_trader.defs latency_arb.defs

section \<open>The market maker\<close>

lemma mm_history:
  assumes "place_levels cb cs bid ask spacing qty ls a3 = (os, a4)"
  shows "mm_quote_history a4 = mm_quote_history (a3 :: 'g market_maker)"
    "mm_pending_cancels a4 = mm_pending_cancels a3"
  using place_levels_more [OF assms] by (cases a3; cases a4; simp)+



text \<open>
  C12. Cancel-and-replace is exact: after a quote the active orders are the orders just sent,
  no others, under consecutive fresh identifiers, and every order that was active before is
  pending cancellation.
\<close>

theorem mm_cancel_and_replace:
  assumes "mm_on_book_update np u n a = Inr (os, a')" "0 < best_bid u" "0 < best_ask u" "base_ok a"
  shows "active_orders a' = map (\<lambda>o1. (ao_order_id o1, o1)) os \<and>
    mm_pending_cancels a' = Some (dict_keys (active_orders a)) \<and>
    map ao_order_id os = map (\<lambda>i. next_oid a + int i) [0..<length os] \<and>
    total_orders_sent (stats a') = total_orders_sent (stats a) + int (length os)"
  using assms(1)
proof (cases rule: mm_on_book_update_cases)
  case (quote e a3 a4)
  note c = mm_cleared_base [OF quote(3)]
  have p: "placed a3 os a4" using placed_levels [OF quote(4)] c(1) assms(4) by (simp add: base_ok_def)
  have "total_orders_sent (stats a3) = next_oid a - id_offset a - 1"
    using c(1,3,4) assms(4) by (simp add: base_ok_def ids_ok_def)
  then have "total_orders_sent (stats a3) = total_orders_sent (stats a)"
    using assms(4) by (simp add: base_ok_def ids_ok_def)
  then show ?thesis
    using p c quote(3,5) mm_history(2) [OF quote(4)] by (simp add: placed_def mm_cleared_def)
qed (use assms(2,3) in simp)

theorem mm_cancel_and_replace_witness:
  "\<exists>os a'. mm_on_book_update tick_numpy flat_book 0 sample_mm = Inr (os, a') \<and>
    active_orders a' = map (\<lambda>o1. (ao_order_id o1, o1)) os \<and> mm_pending_cancels a' = Some [] \<and>
    map ao_order_id os = map (\<lambda>i. 1 + int i) [0..<length os]"
proof -
  obtain os a' where u: "mm_on_book_update tick_numpy flat_book 0 sample_mm = Inr (os, a')"
    by (cases "mm_on_book_update tick_numpy flat_book 0 sample_mm")
      (auto simp: mm_on_book_update_def sample_agent_defs Let_def cancel_all_def update_unrealized_pnl_def
        estimate_sigma_sq_def split: prod.split_asm if_split_asm)
  have "base_ok sample_mm"
    by (simp add: sample_agent_defs base_ok_def ids_ok_def ledger_ok_def)
  then show ?thesis
    using mm_cancel_and_replace [OF u] u by (simp add: sample_agent_defs dict_keys_def)
qed

lemma fmul_mono: "x \<le> y \<Longrightarrow> 0 \<le> z \<Longrightarrow> fmul x z \<le> fmul y z"
  unfolding fmul_def by (intro f64.rnd_mono mult_right_mono)

text \<open>
  C13. Inventory skews the quotes the right way: with non-negative risk aversion, variance and
  time left, a larger inventory never raises the reservation price, the bid or the ask.
\<close>

theorem mm_inventory_skew:
  assumes "q1 \<le> q2" "0 \<le> gamma" "0 \<le> sigma_sq" "0 \<le> t"
  shows "mm_reservation mid q2 gamma sigma_sq t \<le> mm_reservation mid q1 gamma sigma_sq t \<and>
    mm_bid_price (mm_reservation mid q2 gamma sigma_sq t) delta \<le> mm_bid_price (mm_reservation mid q1 gamma sigma_sq t) delta \<and>
    mm_ask_price (mm_reservation mid q2 gamma sigma_sq t) delta \<le> mm_ask_price (mm_reservation mid q1 gamma sigma_sq t) delta"
proof -
  have "fint q1 \<le> fint q2" unfolding fint_def by (rule f64.rnd_mono) (use assms(1) in simp)
  then have "fmul (fmul (fmul (fint q1) gamma) sigma_sq) t \<le> fmul (fmul (fmul (fint q2) gamma) sigma_sq) t"
    by (intro fmul_mono assms)
  then have r: "mm_reservation mid q2 gamma sigma_sq t \<le> mm_reservation mid q1 gamma sigma_sq t"
    unfolding mm_reservation_def fsub_def by (intro f64.rnd_mono) simp
  have "mm_bid_price x delta \<le> mm_bid_price y delta" "mm_ask_price x delta \<le> mm_ask_price y delta" if "x \<le> y" for x y
    using that unfolding mm_bid_price_def mm_ask_price_def fsub_def fadd_def
    by (intro py_round_mono f64.rnd_mono; simp)+
  with r show ?thesis by simp
qed

theorem mm_inventory_skew_witness:
  "mm_reservation 10000 200 1 1 1 \<le> mm_reservation 10000 (- 200) 1 1 1 \<and>
    mm_bid_price (mm_reservation 10000 200 1 1 1) 2 \<le> mm_bid_price (mm_reservation 10000 (- 200) 1 1 1) 2 \<and>
    mm_ask_price (mm_reservation 10000 200 1 1 1) 2 \<le> mm_ask_price (mm_reservation 10000 (- 200) 1 1 1) 2"
  using mm_inventory_skew [of "- 200" 200 1 1 1 10000 2] by simp

lemma inv_ratio_bounds:
  "0 \<le> mx \<Longrightarrow> 0 \<le> (if mx > 0 then rnd64 (of_int \<bar>q\<bar> / of_int mx) else 0)"
  by (auto intro!: f64.nonneg)

text \<open>
  The size of a quote shrinks as the inventory moves away from flat, in either direction,
  and stays between one and the configured base quantity.
\<close>

lemma mm_quantity_shrinks:
  assumes "0 \<le> base" "base \<le> 2 ^ 53" "\<bar>q1\<bar> \<le> \<bar>q2\<bar>" "0 \<le> mx"
  shows "1 \<le> mm_quantity q2 mx base \<and> mm_quantity q2 mx base \<le> mm_quantity q1 mx base \<and>
    mm_quantity q1 mx base \<le> max 1 base"
proof -
  define ratio where "ratio q = (if mx > 0 then rnd64 (of_int \<bar>q\<bar> / of_int mx) else 0)" for q
  define scale where "scale q = max (flit (1 / 10)) (fsub 1 (fmul (ratio q) (flit (8 / 10))))" for q
  have m: "mm_quantity q mx base = max 1 (py_int (fmul (fint base) (scale q)))" for q
    by (simp add: mm_quantity_def ratio_def scale_def Let_def)
  have b: "fint base = of_int base" using assms(1,2) by (intro fint_exact) simp
  have r0: "0 \<le> ratio q" for q using inv_ratio_bounds [OF assms(4)] by (simp add: ratio_def)
  have "ratio q1 \<le> ratio q2"
    unfolding ratio_def using assms(3) by (auto intro!: f64.rnd_mono divide_right_mono)
  then have "fsub 1 (fmul (ratio q2) (flit (8 / 10))) \<le> fsub 1 (fmul (ratio q1) (flit (8 / 10)))"
    unfolding fsub_def using fmul_mono [OF _ flit_nonneg, of "ratio q1" "ratio q2" "8 / 10"]
    by (intro f64.rnd_mono) simp
  then have s: "scale q2 \<le> scale q1" by (simp add: scale_def)
  have "fsub 1 (fmul (ratio q1) (flit (8 / 10))) \<le> 1"
    unfolding fsub_def using f64.le_int [of _ 1] fmul_nonneg [OF r0 [of q1] flit_nonneg, of "8 / 10"] by simp
  moreover have "flit (1 / 10) \<le> 1" unfolding flit_def using f64.le_int [of "1 / 10" 1] by simp
  ultimately have "scale q1 \<le> 1" by (simp add: scale_def)
  then have "of_int base * scale q1 \<le> of_int base" using assms(1) by (simp add: mult_left_le)
  then have "fmul (fint base) (scale q1) \<le> of_int base"
    unfolding b fmul_def by (rule f64.le_int) (use assms(1,2) in simp)
  then have "py_int (fmul (fint base) (scale q1)) \<le> base" using py_int_mono by fastforce
  moreover have "fmul (fint base) (scale q2) \<le> fmul (fint base) (scale q1)"
    unfolding fmul_def b using s assms(1) by (intro f64.rnd_mono mult_left_mono) auto
  then have "py_int (fmul (fint base) (scale q2)) \<le> py_int (fmul (fint base) (scale q1))" by (rule py_int_mono)
  ultimately show ?thesis unfolding m by auto
qed

section \<open>The traders\<close>

text \<open>Where the fields of a noise trader's order come from.\<close>

definition drawn_order :: "'g numpy \<Rightarrow> int \<Rightarrow> 'g noise_trader \<Rightarrow> agent_order \<Rightarrow> bool" where
  "drawn_order np mid a o1 \<longleftrightarrow>
     (\<exists>g g'. np_integers np 0 2 g = Inr (ao_side o1, g')) \<and>
     (\<exists>g g'. np_integers np (nt_min_qty a) (nt_max_qty a + 1) g = Inr (ao_quantity o1, g')) \<and>
     (ao_order_type o1 = 1 \<and> ao_price o1 = 0 \<or>
      ao_order_type o1 = 0 \<and> (\<exists>k g g'. np_integers np 1 (nt_spread_range a + 1) g = Inr (k, g') \<and>
        ao_price o1 = (if ao_side o1 = 0 then mid - k else mid + k)))"

lemma drawn_order_emit:
  assumes "np_integers np 0 2 g1 = Inr (side, g2)"
    "np_integers np (nt_min_qty a) (nt_max_qty a + 1) g2 = Inr (qty, g3)"
  shows "emit_order side 1 0 qty b = (o1, b') \<Longrightarrow> drawn_order np mid a o1"
    "np_integers np 1 (nt_spread_range a + 1) g4 = Inr (k, g5) \<Longrightarrow>
     side = 0 \<Longrightarrow> emit_order side 0 (mid - k) qty b = (o1, b') \<Longrightarrow> drawn_order np mid a o1"
    "np_integers np 1 (nt_spread_range a + 1) g4 = Inr (k, g5) \<Longrightarrow>
     side \<noteq> 0 \<Longrightarrow> emit_order side 0 (mid + k) qty b = (o1, b') \<Longrightarrow> drawn_order np mid a o1"
  using assms by (auto simp: drawn_order_def dest!: emit_order_props(2)) blast+

lemma noise_sends:
  assumes "noise_on_book_update np u n a = Inr (os, a')"
  shows "os = [] \<or> (\<exists>o1. os = [o1] \<and> drawn_order np ((best_bid u + best_ask u) div 2) a o1)"
  using assms unfolding noise_on_book_update_def Let_def
  by (auto split: if_split_asm sum.split_asm prod.split_asm elim: drawn_order_emit(1,3)
      drawn_order_emit(2) [OF _ _ _ refl])

text \<open>
  C15. What a noise trader sends: nothing or one order, whose size lies in the configured range;
  a market order carries the price 0, a limit order is passive, between one tick and the
  configured range away from the midprice, below it to buy and above it to sell.
\<close>

theorem noise_order_bounds:
  assumes "numpy_ok np" "noise_on_book_update np u n a = Inr (os, a')" "o1 \<in> set os"
  shows "os = [o1] \<and> nt_min_qty a \<le> ao_quantity o1 \<and> ao_quantity o1 \<le> nt_max_qty a \<and>
    ao_side o1 \<in> {0, 1} \<and>
    (ao_order_type o1 = 1 \<and> ao_price o1 = 0 \<or>
     ao_order_type o1 = 0 \<and>
       (let mid = (best_bid u + best_ask u) div 2
        in if ao_side o1 = 0 then mid - nt_spread_range a \<le> ao_price o1 \<and> ao_price o1 \<le> mid - 1
           else mid + 1 \<le> ao_price o1 \<and> ao_price o1 \<le> mid + nt_spread_range a))"
proof -
  have d: "os = [o1]" "drawn_order np ((best_bid u + best_ask u) div 2) a o1"
    using noise_sends [OF assms(2)] assms(3) by auto
  have "0 \<le> ao_side o1 \<and> ao_side o1 < 2" "nt_min_qty a \<le> ao_quantity o1 \<and> ao_quantity o1 < nt_max_qty a + 1"
    using d(2) numpy_integers_Inr [OF assms(1)] unfolding drawn_order_def by blast+
  moreover have "ao_order_type o1 = 1 \<and> ao_price o1 = 0 \<or> ao_order_type o1 = 0 \<and>
      (\<exists>k. 1 \<le> k \<and> k < nt_spread_range a + 1 \<and> ao_price o1 =
        (if ao_side o1 = 0 then (best_bid u + best_ask u) div 2 - k else (best_bid u + best_ask u) div 2 + k))"
    using d(2) numpy_integers_Inr [OF assms(1)] unfolding drawn_order_def by blast
  ultimately show ?thesis using d(1) by (auto simp: Let_def)
qed

theorem noise_order_bounds_witness:
  "\<exists>os a' o1. noise_on_book_update tick_numpy flat_book 0 sample_noise = Inr (os, a') \<and> os = [o1] \<and>
    10 \<le> ao_quantity o1 \<and> ao_quantity o1 \<le> 100"
proof -
  have "\<exists>os a' o1. noise_on_book_update tick_numpy flat_book 0 sample_noise = Inr (os, a') \<and> o1 \<in> set os"
    by (simp add: noise_on_book_update_def sample_agent_defs tick_simps emit_defs Let_def)
  then obtain os a' o1 where "noise_on_book_update tick_numpy flat_book 0 sample_noise = Inr (os, a')" "o1 \<in> set os"
    by blast
  with noise_order_bounds [OF numpy_ok_tick this] show ?thesis by (auto simp: sample_agent_defs)
qed

text \<open>
  C16. The informed trader trades only on information: it sends a market order only when it knows
  a true price at least its threshold away from the midprice, buying when the true price is
  above and selling when it is below.
\<close>

theorem informed_trades_on_edge:
  assumes "numpy_ok np" "informed_on_book_update np u n a = Inr (os, a')" "o1 \<in> set os"
  shows "os = [o1] \<and> 0 < it_true_price a \<and>
    it_threshold a \<le> \<bar>it_true_price a - (best_bid u + best_ask u) div 2\<bar> \<and>
    ao_side o1 = (if it_true_price a > (best_bid u + best_ask u) div 2 then 0 else 1) \<and>
    ao_order_type o1 = 1 \<and> ao_price o1 = 0 \<and>
    it_min_qty a \<le> ao_quantity o1 \<and> ao_quantity o1 \<le> it_max_qty a"
  using assms(2,3)
  by (auto simp: informed_on_book_update_def emit_defs Let_def split: if_split_asm sum.split_asm prod.split_asm
      dest!: numpy_integers_Inr [OF assms(1)])

theorem informed_trades_on_edge_witness:
  "\<exists>os a' o1. informed_on_book_update tick_numpy flat_book 0 sample_informed = Inr (os, a') \<and> os = [o1] \<and>
    ao_side o1 = 0"
proof -
  have "\<exists>os a' o1. informed_on_book_update tick_numpy flat_book 0 sample_informed = Inr (os, a') \<and> o1 \<in> set os"
    by (simp add: informed_on_book_update_def sample_agent_defs tick_simps emit_defs Let_def)
  then obtain os a' o1 where "informed_on_book_update tick_numpy flat_book 0 sample_informed = Inr (os, a')" "o1 \<in> set os"
    by blast
  with informed_trades_on_edge [OF numpy_ok_tick this] show ?thesis by (auto simp: sample_agent_defs)
qed



lemma arb_take_order:
  "arb_take np side room a = Inr (os, a') \<Longrightarrow> o1 \<in> set os \<Longrightarrow>
     os = [o1] \<and> ao_side o1 = side \<and> 0 < ao_quantity o1 \<and> ao_quantity o1 \<le> room"
  by (auto simp: arb_take_def Let_def split: if_split_asm sum.split_asm prod.split_asm dest!: emit_order_props(2))

lemma arb_flatten_order:
  "arb_flatten mid a = (os, a') \<Longrightarrow> o1 \<in> set os \<Longrightarrow>
     os = [o1] \<and> ao_side o1 = (if inventory (stats a) > 0 then 1 else 0) \<and>
     ao_quantity o1 = min \<bar>inventory (stats a)\<bar> (la_max_qty a)"
  by (auto simp: arb_flatten_def Let_def split: if_split_asm prod.split_asm dest!: emit_order_props(2))

text \<open>The inventory once an order is filled completely and nothing else happens.\<close>

definition inventory_after :: "'a base_agent_scheme \<Rightarrow> agent_order \<Rightarrow> int" where
  "inventory_after a o1 = inventory (stats a) + (if ao_side o1 = 1 then - ao_quantity o1 else ao_quantity o1)"

text \<open>
  C18. No single order of the latency arbitrageur can take it over its position limit: from an
  inventory within the limit, the inventory after a complete fill of the order it sends is
  within the limit.
\<close>

theorem arb_position_limit:
  assumes "latency_arb_on_book_update np u n a = Inr (os, a')" "o1 \<in> set os"
    "\<bar>inventory (stats a)\<bar> \<le> la_max_position a" "0 \<le> la_max_qty a"
  shows "os = [o1] \<and> \<bar>inventory_after a o1\<bar> \<le> la_max_position a"
  using assms(1)
proof (cases rule: latency_arb_cases)
  case (buy a1)
  then show ?thesis using arb_take_order [OF buy(4) assms(2)] assms(3) by (auto simp: inventory_after_def)
next
  case (sell a1)
  then show ?thesis using arb_take_order [OF sell(4) assms(2)] assms(3) by (auto simp: inventory_after_def)
next
  case (flatten a1)
  have "inventory (stats a1) = inventory (stats a)"
    using arg_cong [OF flatten(1), of "\<lambda>b. inventory (stats b)"] by simp
  then show ?thesis
    using arb_flatten_order [OF flatten(4) assms(2)] flatten(2) assms(3,4) by (auto simp: inventory_after_def)
qed (use assms(2) in simp)

theorem arb_position_limit_witness:
  "\<exists>os a' o1. latency_arb_on_book_update tick_numpy flat_book 0 sample_arb = Inr (os, a') \<and> os = [o1] \<and>
    \<bar>inventory_after sample_arb o1\<bar> \<le> 50"
proof -
  have "\<exists>os a' o1. latency_arb_on_book_update tick_numpy flat_book 0 sample_arb = Inr (os, a') \<and> o1 \<in> set os"
    by (simp add: latency_arb_on_book_update_def guarded_draw_def arb_take_def sample_agent_defs tick_simps
        emit_defs Let_def)
  then obtain os a' o1 where "latency_arb_on_book_update tick_numpy flat_book 0 sample_arb = Inr (os, a')" "o1 \<in> set os"
    by blast
  with arb_position_limit [OF this] show ?thesis by (auto simp: sample_agent_defs)
qed

text \<open>
  The limit does not count orders in flight: acting on two book updates before the first
  fill arrives, the arbitrageur sends two orders, and when both fill its position is beyond
  \<open>max_position\<close>.
\<close>

lemma arb_overshoots_in_flight:
  "\<exists>os1 a1 os2 a2 f1 f2.
     latency_arb_on_book_update tick_numpy flat_book 0 sample_arb = Inr (os1, a1) \<and>
     latency_arb_on_book_update tick_numpy flat_book 1 a1 = Inr (os2, a2) \<and>
     map ao_order_id os1 = [maker_id f1] \<and> map ao_order_id os2 = [maker_id f2] \<and>
     map ao_quantity os1 = [fill_quantity f1] \<and> map ao_quantity os2 = [fill_quantity f2] \<and>
     inventory (stats (on_fill f2 (on_fill f1 a2))) > la_max_position sample_arb"
proof -
  define f where "f k = \<lparr>maker_id = 4000000 + k, taker_id = 0, fill_price = 10005, fill_quantity = 40\<rparr>" for k
  show ?thesis
    by (simp add: latency_arb_on_book_update_def guarded_draw_def arb_take_def sample_agent_defs tick_simps
        emit_defs Let_def)
      (rule exI [of _ "f 1"], simp add: f_def, rule exI [of _ "f 2"],
        simp add: f_def on_fill_def my_order_def dict_keys_def dict_get_def dict_pop_def book_fill_def
          signed_qty_def Let_def)
qed

section \<open>Orders and fills\<close>

lemma on_fill_keeps_order:
  assumes "dict_ok (active_orders a)" "dict_get (active_orders a) oid = Some o1"
    "oid = maker_id f \<or> oid = taker_id f \<Longrightarrow> fill_quantity f < ao_quantity o1"
  shows "dict_get (active_orders (on_fill f a)) oid = Some o1 \<and> dict_ok (active_orders (on_fill f a))"
proof (cases "my_order (active_orders a) f")
  case (Some i)
  then obtain o2 where o2: "dict_get (active_orders a) i = Some o2" "i = maker_id f \<or> i = taker_id f"
    using my_order_Some [OF Some assms(1)] by blast
  then show ?thesis
    using Some assms by (cases "i = oid") (auto simp: on_fill_def Let_def)
qed (use assms in \<open>simp add: on_fill_def\<close>)

text \<open>
  Fills are compared one by one with the order's original size: an order stays active
  through any sequence of fills each smaller than that size, also when together they fill it
  completely.
\<close>

lemma partial_fills_never_close:
  assumes "base_ok a" "dict_get (active_orders a) oid = Some o1"
    "\<forall>f \<in> set fs. oid = maker_id f \<or> oid = taker_id f \<longrightarrow> fill_quantity f < ao_quantity o1"
  shows "dict_get (active_orders (fold on_fill fs a)) oid = Some o1"
proof -
  have "dict_ok (active_orders a)" using assms(1) by (simp add: base_ok_def ids_ok_def)
  then show ?thesis using assms(2,3)
  proof (induction fs arbitrary: a)
    case (Cons f fs)
    have "dict_get (active_orders (on_fill f a)) oid = Some o1 \<and> dict_ok (active_orders (on_fill f a))"
      using Cons.prems by (intro on_fill_keeps_order) auto
    then show ?case using Cons.IH [of "on_fill f a"] Cons.prems(3) by simp
  qed simp
qed

end
