(* ===== verification/Report.thy ===== *)
theory Report
  imports Simulator
begin

text \<open>
  What a run prints when it is over: \<open>MetricsEngine.print_report\<close> of \<open>metrics.py\<close> and the per-agent
  lines of \<open>Simulator.run\<close>, with the format specifications they use, and the entry point
  \<open>run_simulation.py\<close>.
\<close>

section \<open>Format specifications\<close>

definition show_int :: "int \<Rightarrow> string" where
  "show_int i = (if i < 0 then CHR ''-'' # show_nat (nat (- i)) else show_nat (nat i))"

definition zfill :: "nat \<Rightarrow> string \<Rightarrow> string" where
  "zfill n s = replicate (n - length s) (CHR ''0'') @ s"

definition pad_left :: "nat \<Rightarrow> string \<Rightarrow> string" where
  "pad_left n s = replicate (n - length s) (CHR '' '') @ s"

definition pad_right :: "nat \<Rightarrow> string \<Rightarrow> string" where
  "pad_right n s = s @ replicate (n - length s) (CHR '' '')"

text \<open>
  \<open>f"{x:.nf}"\<close>: the exact value of the float, rounded to \<open>n\<close> decimals, ties to even. A negative
  number keeps its sign even when all its digits are zero.
\<close>

definition fmt_fixed :: "nat \<Rightarrow> real \<Rightarrow> string" where
  "fmt_fixed n x =
     (let d = nat (py_round (\<bar>x\<bar> * 10 ^ n))
      in (if x < 0 then ''-'' else []) @ show_nat (d div 10 ^ n) @
         (if n = 0 then [] else CHR ''.'' # zfill n (show_nat (d mod 10 ^ n))))"

fun fmt_value :: "nat \<Rightarrow> report_value \<Rightarrow> string" where
  "fmt_value n (Count i) = show_int i"
| "fmt_value n (Value x) = fmt_fixed n x"
| "fmt_value n Infinite = ''inf''"

section \<open>The report\<close>

text \<open>The printed fields: label, key, decimals, and what follows the value.\<close>

definition report_head :: "(string \<times> string \<times> nat \<times> string) list" where
  "report_head =
     [(''  Total Fills:           '', ''total_fills'', 0, []),
      (''  Total Orders:          '', ''total_orders'', 0, []),
      (''  Total Cancels:         '', ''total_cancels'', 0, []),
      (''  Fill Ratio:            '', ''fill_ratio'', 4, []),
      (''  Order-to-Trade:        '', ''order_to_trade_ratio'', 1, []),
      (''  Sharpe Ratio:          '', ''sharpe_ratio'', 2, []),
      (''  Inventory Variance:    '', ''inventory_variance'', 2, []),
      (''  Adverse Selection:     '', ''adverse_selection'', 2, '' ticks''),
      (''  Quote Lifetime (avg):  '', ''quote_lifetime_avg'', 2, '' steps'')]"

definition report_pnl :: "(string \<times> string \<times> nat \<times> string) list" where
  "report_pnl =
     [(''    Spread Capture:      '', ''spread_capture'', 2, []),
      (''    Inventory PnL:       '', ''inventory_pnl'', 2, []),
      (''    Adverse Selection:   '', ''adverse_selection'', 2, []),
      (''    Net Fees:            '', ''net_fees'', 2, [])]"

fun report_lines ::
  "(string, report_value) dict \<Rightarrow> (string \<times> string \<times> nat \<times> string) list \<Rightarrow> string list result" where
  "report_lines r [] = Inr []"
| "report_lines r ((label, key, n, suffix) # fs) =
     (case dict_get r key of
        None \<Rightarrow> Inl KeyError
      | Some v \<Rightarrow>
          (case report_lines r fs of
             Inl e \<Rightarrow> Inl e
           | Inr ls \<Rightarrow> Inr ((label @ fmt_value n v @ suffix) # ls)))"

definition rule_line :: "char \<Rightarrow> string" where
  "rule_line c = replicate 60 c"

definition print_report :: "'g numpy \<Rightarrow> metrics_engine \<Rightarrow> string list result" where
  "print_report np m =
     (let r = compute_report np m
      in case report_lines r report_head of
           Inl e \<Rightarrow> Inl e
         | Inr hs \<Rightarrow>
             (case report_lines r report_pnl of
                Inl e \<Rightarrow> Inl e
              | Inr ps \<Rightarrow>
                  Inr ([char_of (10::nat) # rule_line (CHR ''=''), ''  MARKET MAKING METRICS REPORT'',
                        rule_line (CHR ''='')] @ hs @
                       [rule_line (CHR ''-''), ''  PnL DECOMPOSITION:''] @ ps @ [rule_line (CHR ''='')])))"

text \<open>One line per agent, in the order of the dictionary.\<close>

definition stats_line :: "string \<Rightarrow> agent_stats \<Rightarrow> string" where
  "stats_line aid s =
     ''  '' @ pad_right 12 aid @ '' | PnL: '' @ pad_left 8 (fmt_fixed 0 (total_pnl s)) @
     '' | Inv: '' @ pad_left 5 (show_int (inventory s)) @
     '' | Fills: '' @ pad_left 4 (show_int (total_fills s)) @
     '' | Orders: '' @ pad_left 4 (show_int (total_orders_sent s))"

definition final_report :: "'g numpy \<Rightarrow> 'g simulator \<Rightarrow> string list result" where
  "final_report np s =
     (case print_report np (sim_metrics s) of
        Inl e \<Rightarrow> Inl e
      | Inr ls \<Rightarrow> Inr (ls @ map (\<lambda>(aid, a). stats_line aid (stats (agent_base a))) (sim_agents s)))"

section \<open>\<open>run_simulation.py\<close>\<close>

text \<open>\<open>Simulator.run\<close> has no \<open>return\<close>: its value is \<open>None\<close>, which has no length.\<close>

definition run_value :: "event list option" where
  "run_value = None"

definition py_len :: "'a list option \<Rightarrow> int result" where
  "py_len v = (case v of None \<Rightarrow> Inl TypeError | Some xs \<Rightarrow> Inr (int (length xs)))"

definition run_simulation_main ::
  "'g numpy \<Rightarrow> sim_config \<Rightarrow> ws_bridge \<Rightarrow> int \<Rightarrow> socket result \<Rightarrow> unit result" where
  "run_simulation_main np cfg bridge counter outcome =
     (case sim_init np cfg of
        Inl e \<Rightarrow> Inl e
      | Inr s \<Rightarrow>
          (case (case run np counter outcome (\<lambda>_. False) (set_ws_bridge (Some bridge) s) of
                   (es, Inl e) \<Rightarrow> Inl e
                 | (es, Inr s') \<Rightarrow> (case py_len run_value of Inl e \<Rightarrow> Inl e | Inr n \<Rightarrow> Inr ())) of
             Inl e \<Rightarrow> Inl (if e = ConnectionRefusedError then SystemExit else e)
           | Inr u \<Rightarrow> Inr ()))"

section \<open>Correctness of the formats\<close>

text \<open>The number a decimal string stands for, \<open>n\<close> digits being behind the point.\<close>

definition digits_value :: "string \<Rightarrow> int" where
  "digits_value s = foldl (\<lambda>a c. 10 * a + int (char_code c - 48)) 0 s"

definition decimal :: "nat \<Rightarrow> string \<Rightarrow> real" where
  "decimal n s =
     (if s \<noteq> [] \<and> hd s = CHR ''-'' then - 1 else 1) * of_int (digits_value (filter is_digit s)) / 10 ^ n"

lemma digits_value_append: "digits_value (s @ t) = digits_value s * 10 ^ length t + digits_value t"
proof (induction t rule: rev_induct)
  case (snoc c t)
  then show ?case by (simp add: digits_value_def algebra_simps flip: append_assoc)
qed (simp add: digits_value_def)

lemma digits_value_zeros: "digits_value (replicate n (CHR ''0'')) = 0"
  by (induction n) (simp_all add: digits_value_def char_code_def)

lemma digits_value_show: "digits_value (show_nat n) = int n"
  by (simp add: digits_value_def show_nat_value)

lemma digits_value_zfill: "digits_value (zfill n (show_nat d)) = int d"
  by (simp add: zfill_def digits_value_append digits_value_zeros digits_value_show)

lemma is_digit_digit: "d < 10 \<Longrightarrow> is_digit (char_of (48 + d :: nat))"
  by (simp add: is_digit_def)

lemma show_nat_digits: "\<forall>c \<in> set (show_nat n). is_digit c"
proof (induction n rule: show_nat.induct)
  case (1 n)
  then show ?case
    by (subst show_nat.simps) (auto simp: is_digit_digit)
qed

lemma show_nat_nonempty: "show_nat n \<noteq> []"
  by (subst show_nat.simps) simp

lemma length_show_nat: "d < 10 ^ Suc n \<Longrightarrow> length (show_nat d) \<le> Suc n"
proof (induction n arbitrary: d)
  case 0
  then show ?case by (subst show_nat.simps) simp
next
  case (Suc n)
  then have "d div 10 < 10 ^ Suc n" by (simp add: less_mult_imp_div_less mult.commute)
  from Suc.IH [OF this] show ?case by (subst show_nat.simps) simp
qed

lemma filter_digits_show: "filter is_digit (show_nat n) = show_nat n"
  using show_nat_digits by (simp add: filter_id_conv)

lemma filter_digits_zfill: "filter is_digit (zfill n (show_nat d)) = zfill n (show_nat d)"
  by (simp add: zfill_def filter_digits_show) (simp add: is_digit_def char_code_def)

lemma hd_show_nat: "hd (show_nat n @ s) \<noteq> CHR ''-''"
proof -
  have "hd (show_nat n) \<in> set (show_nat n)" using show_nat_nonempty by (rule hd_in_set)
  then have "is_digit (hd (show_nat n))" using show_nat_digits by blast
  then have "hd (show_nat n) \<noteq> CHR ''-''" by (auto simp: is_digit_def char_code_def)
  then show ?thesis using show_nat_nonempty by (simp add: hd_append)
qed

lemma length_zfill: "d < 10 ^ n \<Longrightarrow> 0 < n \<Longrightarrow> length (zfill n (show_nat d)) = n"
  using length_show_nat [of d "n - 1"] by (simp add: zfill_def)

text \<open>The digits of a formatted number are the rounded number, with \<open>n\<close> of them behind the point.\<close>

lemma fmt_fixed_digits:
  "digits_value (filter is_digit (fmt_fixed n x)) = py_round (\<bar>x\<bar> * 10 ^ n)"
proof -
  define d where "d = nat (py_round (\<bar>x\<bar> * 10 ^ n))"
  have d: "int d = py_round (\<bar>x\<bar> * 10 ^ n)"
    using py_round_ge_int [of 0 "\<bar>x\<bar> * 10 ^ n"] by (simp add: d_def)
  have sign: "\<not> is_digit (CHR ''-'')" "\<not> is_digit (CHR ''.'')"
    by (simp_all add: is_digit_def char_code_def)
  have "digits_value (filter is_digit (fmt_fixed n x)) = int d"
  proof (cases "n = 0")
    case True
    then show ?thesis using sign
      by (simp add: fmt_fixed_def d_def Let_def filter_digits_show digits_value_show)
  next
    case False
    have "digits_value (filter is_digit (fmt_fixed n x)) =
        digits_value (show_nat (d div 10 ^ n) @ zfill n (show_nat (d mod 10 ^ n)))"
      using sign False
      by (simp add: fmt_fixed_def d_def [symmetric] Let_def filter_digits_show filter_digits_zfill)
    also have "\<dots> = int (d div 10 ^ n) * 10 ^ n + int (d mod 10 ^ n)"
      using False length_zfill [of "d mod 10 ^ n" n]
      by (simp add: digits_value_append digits_value_show digits_value_zfill)
    also have "\<dots> = int d"
      using div_mult_mod_eq [of d "10 ^ n"] by (metis of_nat_add of_nat_mult of_nat_power of_nat_numeral)
    finally show ?thesis .
  qed
  then show ?thesis using d by simp
qed

lemma fmt_fixed_sign: "(fmt_fixed n x \<noteq> [] \<and> hd (fmt_fixed n x) = CHR ''-'') = (x < 0)"
  using hd_show_nat by (auto simp: fmt_fixed_def Let_def show_nat_nonempty)

lemma fmt_fixed_error: "\<bar>decimal n (fmt_fixed n x) - x\<bar> \<le> 1 / (2 * 10 ^ n)"
proof -
  let ?p = "10 ^ n :: real"
  have "\<bar>of_int (py_round (\<bar>x\<bar> * ?p)) - \<bar>x\<bar> * ?p\<bar> \<le> 1 / 2" by (rule py_round_error)
  then have "\<bar>of_int (py_round (\<bar>x\<bar> * ?p)) - \<bar>x\<bar> * ?p\<bar> / ?p \<le> 1 / 2 / ?p"
    by (intro divide_right_mono) auto
  then have a: "\<bar>of_int (py_round (\<bar>x\<bar> * ?p)) / ?p - \<bar>x\<bar>\<bar> \<le> 1 / (2 * ?p)"
    by (simp add: diff_divide_distrib [symmetric] abs_divide flip: diff_divide_distrib)
      (simp add: field_simps)
  have "decimal n (fmt_fixed n x) = (if x < 0 then - 1 else 1) * (of_int (py_round (\<bar>x\<bar> * ?p)) / ?p)"
    unfolding decimal_def fmt_fixed_digits fmt_fixed_sign by simp
  moreover have "\<bar>q - \<bar>x\<bar>\<bar> \<le> e \<Longrightarrow> \<bar>(if x < 0 then - 1 else 1) * q - x\<bar> \<le> e" for q e :: real
    by (cases "x < 0") auto
  ultimately show ?thesis using a by metis
qed

section \<open>The report is always printed\<close>

lemma report_lines_total:
  "\<forall>(label, key, n, suffix) \<in> set fs. dict_get r key \<noteq> None \<Longrightarrow> \<exists>ls. report_lines r fs = Inr ls \<and>
     ls = map (\<lambda>(label, key, n, suffix). label @ fmt_value n (the (dict_get r key)) @ suffix) fs"
  by (induction r fs rule: report_lines.induct) auto

lemma report_keys:
  "set (map fst (compute_report np m)) = set [''total_fills'', ''total_orders'', ''total_cancels'',
     ''sharpe_ratio'', ''inventory_variance'', ''fill_ratio'', ''adverse_selection'',
     ''quote_lifetime_avg'', ''order_to_trade_ratio'', ''spread_capture'', ''inventory_pnl'',
     ''maker_fees'', ''taker_fees'', ''net_fees'']"
  by (simp add: compute_report_def Let_def)

lemma report_get: "key \<in> set (map fst (compute_report np m)) \<Longrightarrow> dict_get (compute_report np m) key \<noteq> None"
  by (simp add: dict_get_None_iff)

lemma print_report_lines:
  "print_report np m = Inr ([char_of (10::nat) # rule_line (CHR ''=''), ''  MARKET MAKING METRICS REPORT'',
       rule_line (CHR ''='')] @
     map (\<lambda>(label, key, n, suffix). label @ fmt_value n (the (dict_get (compute_report np m) key)) @ suffix)
       report_head @ [rule_line (CHR ''-''), ''  PnL DECOMPOSITION:''] @
     map (\<lambda>(label, key, n, suffix). label @ fmt_value n (the (dict_get (compute_report np m) key)) @ suffix)
       report_pnl @ [rule_line (CHR ''='')])"
proof -
  have "\<forall>(label, key, n, suffix) \<in> set (report_head @ report_pnl). dict_get (compute_report np m) key \<noteq> None"
    unfolding report_head_def report_pnl_def
    by (simp del: not_None_eq) (intro conjI report_get; simp add: report_keys del: set_map)
  then show ?thesis
    using report_lines_total [of report_head "compute_report np m"]
      report_lines_total [of report_pnl "compute_report np m"]
    by (auto simp: print_report_def Let_def)
qed

lemma final_report_total: "\<exists>ls. final_report np s = Inr ls"
  by (simp add: final_report_def print_report_lines)

end
