(* ===== verification/Market_Theorems.thy ===== *)
theory Market_Theorems
  imports Latency_Model Metrics Price_Process Report
begin

text \<open>
  The theorems about the components that feed and measure the simulation: the latency model, the
  price and order-flow processes, and the metrics.
\<close>

section \<open>Samples\<close>

definition sample_gbm :: "nat gbm" where
  "sample_gbm = gbm_init tick_numpy 10000 0 1 1 42"

definition sample_hawkes :: "nat hawkes" where
  "sample_hawkes = \<lparr>hk_mu = 1, hk_alpha = 1, hk_beta = 2, hk_rng = 1, event_times = [1 / 2], hk_time = 1\<rparr>"

definition sample_fill_record :: "int \<Rightarrow> int \<Rightarrow> int \<Rightarrow> fill_record" where
  "sample_fill_record price mid after = \<lparr>fr_timestamp = 0, fr_price = price, fr_quantity = 10, fr_side = 0,
     is_maker = True, mid_at_fill = mid, mid_after_fill = Some after, fr_maker_fee = 0, fr_taker_fee = 0\<rparr>"

definition sample_metrics :: metrics_engine where
  "sample_metrics = record_state 2 0 (- 10) 10004 (record_state 1 0 10 10000
     (record_fill (sample_fill_record 9995 10000 9998)
       (record_fill (sample_fill_record 9990 10000 10004)
         (record_quote (QuoteRecord 7 0) (record_quote (QuoteRecord 7 1) (metrics_init 100))))))"

lemmas sample_metrics_defs = sample_metrics_def sample_fill_record_def record_state_def record_fill_def
  record_quote_def QuoteRecord_def metrics_init_def

section \<open>Latency\<close>



text \<open>
  Barring spikes the latency arbitrageur is faster than the market maker and the market
  maker faster than a retail trader, whatever is drawn: the windows of the three profiles do
  not overlap.
\<close>

lemma latency_profiles_ordered:
  assumes "numpy_ok np" "latency_sample np (latency_arb_latency np s1) = Inr (d1, m1)" "d1 < 400"
    "latency_sample np (market_maker_latency np s2) = Inr (d2, m2)" "d2 < 1500"
    "latency_sample np (retail_latency np s3) = Inr (d3, m3)"
  shows "d1 < d2 \<and> d2 < d3"
proof -
  have "lat_config (latency_arb_latency np s1) = LatencyConfig (of_int 50) (of_int 10)"
    "lat_config (market_maker_latency np s2) = LatencyConfig (of_int 200) (of_int 50)"
    "lat_config (retail_latency np s3) = LatencyConfig (of_int 1000) (of_int 300)"
    by (simp_all add: latency_arb_latency_def market_maker_latency_def retail_latency_def latency_init_def)
  from sample_profile [OF assms(1) this(1)] sample_profile [OF assms(1) this(2)]
    sample_profile [OF assms(1) this(3)]
  show ?thesis using assms(2-6) by auto
qed

section \<open>Prices\<close>





section \<open>Order flow\<close>



text \<open>
  The bound of the thinning loop is not one: after two accepted candidates in the same step
  the intensity exceeds the bound \<open>lam_bar\<close> that the acceptance test divides by, for every
  process with integer parameters in range and no earlier event.
\<close>

lemma thinning_bound_exceeded:
  assumes "numpy_ok np" "hk_mu h = of_int m" "hk_alpha h = of_int a" "event_times h = []"
    "0 \<le> m" "0 < a" "m + 2 * a \<le> 2 ^ 53"
  shows "intensity np (h\<lparr>event_times := [hk_time h, hk_time h]\<rparr>) > fadd (intensity np h) (hk_alpha h)"
proof -
  have f: "rnd64 (of_int a) = of_int a" "rnd64 (of_int m + of_int a) = of_int (m + a)"
    "rnd64 (of_int (m + a) + of_int a) = of_int (m + 2 * a)"
    using rnd64_of_int [of a] f64.int_add [of m a] f64.int_add [of "m + a" a] assms(5-7)
    by (simp_all add: algebra_simps)
  have i: "intensity np (h\<lparr>event_times := [hk_time h]\<rparr>) = of_int (m + a)"
    using intensity_accept [OF assms(1), of h] assms(2-4) f by (simp add: intensity_def fadd_def)
  have "intensity np (h\<lparr>event_times := [hk_time h, hk_time h]\<rparr>) = of_int (m + 2 * a)"
    using intensity_accept [OF assms(1), of "h\<lparr>event_times := [hk_time h]\<rparr>"] i assms(3) f by (simp add: fadd_def)
  moreover have "fadd (intensity np h) (hk_alpha h) = of_int (m + a)"
    using assms(2-4) f(2) by (simp add: intensity_def fadd_def)
  ultimately show ?thesis using assms(6) by simp
qed

section \<open>Metrics\<close>



text \<open>
  A cancellation is booked on the latest quote of its identifier that is still open, and
  on no other; when there is none only the counter changes.
\<close>

lemma cancel_marks_latest:
  "(quotes m = xs @ q # ys \<and> qr_order_id q = oid \<and> cancel_timestamp q = None \<and>
      (\<forall>p \<in> set ys. qr_order_id p = oid \<longrightarrow> cancel_timestamp p \<noteq> None) \<longrightarrow>
      quotes (record_cancel oid t m) = xs @ q\<lparr>cancel_timestamp := Some t\<rparr> # ys) \<and>
   ((\<forall>p \<in> set (quotes m). qr_order_id p = oid \<longrightarrow> cancel_timestamp p \<noteq> None) \<longrightarrow>
      quotes (record_cancel oid t m) = quotes m) \<and>
   me_cancels (record_cancel oid t m) = me_cancels m + 1"
  using mark_first_split [of _ oid] mark_first_none [of "rev (quotes m)" oid t]
  by (auto simp: record_cancel_def)

text \<open>
  The report never shows the average adverse selection: printing it never raises, and both
  of its lines with that label carry the same number, the total of the decomposition, which
  is stored under the key of the average.
\<close>

lemma report_adverse_selection_replaced:
  "\<exists>ls. print_report np m = Inr ls \<and>
     ls ! 10 = ''  Adverse Selection:     '' @ fmt_fixed 2 (pp_adverse_selection (pnl_decomposition m)) @ '' ticks'' \<and>
     ls ! 16 = ''    Adverse Selection:   '' @ fmt_fixed 2 (pp_adverse_selection (pnl_decomposition m))"
proof -
  have "dict_get (compute_report np m) ''adverse_selection'' =
      Some (Value (pp_adverse_selection (pnl_decomposition m)))"
    by (simp add: compute_report_def dict_get_def Let_def)
  then show ?thesis unfolding print_report_lines report_head_def report_pnl_def by simp
qed

end
