(* ===== verification/Book_Invariant.thy ===== *)
theory Book_Invariant
  imports Matching_Engine
begin

text \<open>
  What a well-formed order book is, the ladder of resting orders it stands for (best price first, and
  at one price the oldest first), and what adding, filling and removing an order do to both.
\<close>

section \<open>Well-formed books\<close>

text \<open>The prices that have a level.\<close>

definition keys :: "levels \<Rightarrow> int set" where
  "keys d = fst ` set d"

lemma keys_Nil [simp]: "keys d = {} \<longleftrightarrow> d = []"
  by (simp add: keys_def)

lemma keys_empty [simp]: "keys [] = {}"
  by (simp add: keys_def)

lemma keys_iff: "p \<in> keys d \<longleftrightarrow> (\<exists>l. dict_get d p = Some l)"
  by (simp add: keys_def dict_get_def) (metis map_of_eq_None_iff not_None_eq)

lemma keys_set [simp]: "keys (dict_set p l d) = insert p (keys d)"
  by (simp add: keys_def set_keys_dict_set)

lemma keys_pop [simp]: "keys (dict_pop p d) = keys d - {p}"
  by (auto simp: keys_def set_dict_pop)

lemma keys_cong: "set d = set d' \<Longrightarrow> keys d = keys d'"
  by (simp add: keys_def)

definition left :: "order_book \<Rightarrow> int \<Rightarrow> int" where
  "left b i = (case dict_get (bk_orders b) i of None \<Rightarrow> 0 | Some o1 \<Rightarrow> remaining o1)"

definition level_ok :: "order_book \<Rightarrow> side \<Rightarrow> int \<Rightarrow> level \<Rightarrow> bool" where
  "level_ok b side p l \<longleftrightarrow> lv_queue l \<noteq> [] \<and> distinct (lv_queue l) \<and>
     lv_count l = int (length (lv_queue l)) \<and> lv_total l = sum_list (map (left b) (lv_queue l)) \<and>
     (\<forall>i \<in> set (lv_queue l). \<exists>o1. dict_get (bk_orders b) i = Some o1 \<and> od_side o1 = side \<and> od_price o1 = p)"

definition best_ok :: "side \<Rightarrow> levels \<Rightarrow> int \<Rightarrow> bool" where
  "best_ok side d best \<longleftrightarrow> (if d = [] then best = INVALID_PRICE
     else best \<in> keys d \<and> (\<forall>p \<in> keys d. price_rank side best \<le> price_rank side p))"

definition side_ok :: "side \<Rightarrow> order_book \<Rightarrow> bool" where
  "side_ok side b \<longleftrightarrow> dict_ok (levels_of side b) \<and>
     (\<forall>(p, l) \<in> set (levels_of side b). level_ok b side p l) \<and>
     best_ok side (levels_of side b) (best_price side b)"

text \<open>
  The orders in \<open>Z\<close> may be filled, those in \<open>M\<close> may be market orders; in between two commands both
  sets are empty. Iceberg orders are left out.
\<close>

definition order_ok :: "int set \<Rightarrow> int set \<Rightarrow> order_book \<Rightarrow> int \<Rightarrow> order \<Rightarrow> bool" where
  "order_ok Z M b i o1 \<longleftrightarrow> od_id o1 = i \<and> od_type o1 \<noteq> ICEBERG \<and>
     (\<exists>l. dict_get (levels_of (od_side o1) b) (od_price o1) = Some l \<and> i \<in> set (lv_queue l)) \<and>
     0 \<le> remaining o1 \<and> (i \<notin> Z \<longrightarrow> 0 < remaining o1) \<and> (i \<notin> M \<longrightarrow> od_type o1 = LIMIT \<and> 0 < od_price o1)"

definition book_ok :: "int set \<Rightarrow> int set \<Rightarrow> order_book \<Rightarrow> bool" where
  "book_ok Z M b \<longleftrightarrow> (\<forall>s. side_ok s b) \<and> dict_ok (bk_orders b) \<and>
     (\<forall>(i, o1) \<in> set (bk_orders b). order_ok Z M b i o1) \<and>
     bk_free b + length (bk_orders b) = MAX_ORDERS"

lemma book_init_ok: "book_ok {} {} book_init"
proof -
  have "levels_of s book_init = []" "best_price s book_init = INVALID_PRICE" for s
    by (cases s; simp add: book_init_def)+
  then show ?thesis by (simp add: book_ok_def side_ok_def best_ok_def book_init_def)
qed

lemma INVALID_PRICE_neg: "INVALID_PRICE < 0"
  by (simp add: INVALID_PRICE_def)

lemma book_okD:
  assumes "book_ok Z M b"
  shows "side_ok s b" "dict_ok (levels_of s b)" "dict_ok (bk_orders b)"
    "dict_get (levels_of s b) p = Some l \<Longrightarrow> level_ok b s p l"
    "best_ok s (levels_of s b) (best_price s b)"
    "dict_get (bk_orders b) i = Some o1 \<Longrightarrow> order_ok Z M b i o1"
    "bk_free b + length (bk_orders b) = MAX_ORDERS"
  using assms by (auto simp: book_ok_def side_ok_def dest!: dict_get_Some_in)

text \<open>A level's key is the price of an order.\<close>

lemma level_order:
  assumes "book_ok Z M b" "p \<in> keys (levels_of s b)"
  obtains l i o1 where "dict_get (levels_of s b) p = Some l" "i \<in> set (lv_queue l)"
    "dict_get (bk_orders b) i = Some o1" "od_side o1 = s" "od_price o1 = p" "order_ok Z M b i o1"
proof -
  obtain l where l: "dict_get (levels_of s b) p = Some l" using assms(2) keys_iff by blast
  then have lo: "level_ok b s p l" using book_okD(4) [OF assms(1)] by blast
  have i: "hd (lv_queue l) \<in> set (lv_queue l)" using lo by (simp add: level_ok_def)
  then obtain o1 where "dict_get (bk_orders b) (hd (lv_queue l)) = Some o1" "od_side o1 = s" "od_price o1 = p"
    using lo unfolding level_ok_def by blast
  then show thesis using that l i book_okD(6) [OF assms(1)] by blast
qed

lemma valid_prices:
  assumes "book_ok Z M b" "p \<in> keys (levels_of s b)" "\<forall>i o1. dict_get (bk_orders b) i = Some o1 \<and> od_side o1 = s \<and> od_price o1 = p \<longrightarrow> i \<notin> M"
  shows "0 < p"
proof -
  obtain l i o1 where "dict_get (bk_orders b) i = Some o1" "od_side o1 = s" "od_price o1 = p" "order_ok Z M b i o1"
    using level_order [OF assms(1,2)] by metis
  then show ?thesis using assms(3) by (auto simp: order_ok_def)
qed

section \<open>The best price\<close>

definition scan_step :: "side \<Rightarrow> int \<Rightarrow> int \<times> level \<Rightarrow> int" where
  "scan_step side best = (\<lambda>(price, l).
     if lv_queue l \<noteq> [] \<and> (best = INVALID_PRICE \<or> better side price best) then price else best)"

lemma scan_best_step: "scan_best side d = foldl (scan_step side) INVALID_PRICE d"
  by (simp add: scan_best_def scan_step_def [abs_def])

lemma scan_from:
  assumes "acc \<noteq> INVALID_PRICE" "\<forall>(p, l) \<in> set d. p \<noteq> INVALID_PRICE \<and> lv_queue l \<noteq> []"
  shows "foldl (scan_step side) acc d \<in> insert acc (keys d) \<and>
    (\<forall>p \<in> insert acc (keys d). price_rank side (foldl (scan_step side) acc d) \<le> price_rank side p)"
  using assms
proof (induction d arbitrary: acc)
  case Nil
  then show ?case by (simp add: keys_def)
next
  case (Cons x d)
  obtain p l where x: "x = (p, l)" by (cases x)
  define acc' where "acc' = scan_step side acc x"
  have "acc' = (if better side p acc then p else acc)"
    using Cons.prems x by (simp add: acc'_def scan_step_def)
  then have a: "acc' \<noteq> INVALID_PRICE" "acc' = acc \<or> acc' = p" "price_rank side acc' \<le> price_rank side acc"
    "price_rank side acc' \<le> price_rank side p"
    using Cons.prems x by (simp_all add: better_rank)
  let ?r = "foldl (scan_step side) acc' d"
  have r: "?r \<in> insert acc' (keys d)" "\<forall>q \<in> insert acc' (keys d). price_rank side ?r \<le> price_rank side q"
    using Cons.IH [OF a(1)] Cons.prems(2) by simp_all
  have k: "keys (x # d) = insert p (keys d)" by (simp add: keys_def x)
  have f: "foldl (scan_step side) acc (x # d) = ?r" by (simp add: acc'_def)
  have "price_rank side ?r \<le> price_rank side acc'" using r(2) by simp
  then have "price_rank side ?r \<le> price_rank side acc" "price_rank side ?r \<le> price_rank side p"
    using a(3,4) by linarith+
  then show ?case unfolding k f using r a(2) by blast
qed

lemma scan_best_ok:
  assumes "\<forall>(p, l) \<in> set d. p \<noteq> INVALID_PRICE \<and> lv_queue l \<noteq> []"
  shows "best_ok side d (scan_best side d)"
proof (cases d)
  case Nil
  then show ?thesis by (simp add: best_ok_def scan_best_def)
next
  case (Cons x d')
  obtain p l where x: "x = (p, l)" by (cases x)
  have "scan_best side d = foldl (scan_step side) p d'"
    using assms Cons x by (simp add: scan_best_step scan_step_def)
  moreover have "keys d = insert p (keys d')" by (simp add: keys_def Cons x)
  ultimately show ?thesis using scan_from [of p d' side] assms Cons x by (simp add: best_ok_def)
qed

lemma best_ok_mset:
  assumes "iter_ok iter" "best_ok side (iter d) x"
  shows "best_ok side d x"
proof -
  have "keys (iter d) = keys d" using assms(1) by (metis iter_ok_def keys_cong mset_eq_setD)
  moreover have "iter d = [] \<longleftrightarrow> d = []" using assms(1) by (metis iter_ok_def mset_zero_iff)
  ultimately show ?thesis using assms(2) by (cases "d = []") (simp_all add: best_ok_def)
qed

lemma update_best_ok:
  assumes "iter_ok iter" "\<forall>(p, l) \<in> set (levels_of s b). p \<noteq> INVALID_PRICE \<and> lv_queue l \<noteq> []"
  shows "best_ok s (levels_of s b) (best_price s (update_best iter s b))"
proof (cases "levels_of s b = []")
  case False
  have "set (iter (levels_of s b)) = set (levels_of s b)" using assms(1) by (metis iter_ok_def mset_eq_setD)
  then have "best_ok s (iter (levels_of s b)) (scan_best s (iter (levels_of s b)))"
    using assms(2) by (intro scan_best_ok) simp
  then show ?thesis using best_ok_mset [OF assms(1)] False by (simp add: update_best_def)
qed (simp add: update_best_def best_ok_def)

section \<open>The ladder\<close>

definition prices :: "side \<Rightarrow> levels \<Rightarrow> int list" where
  "prices side d = sort_key (price_rank side) (map fst d)"

definition rung :: "order_book \<Rightarrow> levels \<Rightarrow> int \<Rightarrow> (int \<times> int \<times> int) list" where
  "rung b d p = (case dict_get d p of None \<Rightarrow> [] | Some l \<Rightarrow> map (\<lambda>i. (i, p, left b i)) (lv_queue l))"

definition ladder :: "side \<Rightarrow> order_book \<Rightarrow> (int \<times> int \<times> int) list" where
  "ladder side b = concat (map (rung b (levels_of side b)) (prices side (levels_of side b)))"

lemma set_prices [simp]: "set (prices s d) = keys d"
  by (simp add: prices_def keys_def)

lemma prices_Nil [simp]: "prices s d = [] \<longleftrightarrow> d = []"
  by (metis keys_Nil set_empty set_prices)

lemma distinct_prices: "dict_ok d \<Longrightarrow> distinct (prices s d)"
  by (simp add: prices_def dict_ok_def)

lemma sorted_prices: "sorted (map (price_rank s) (prices s d))"
  by (simp add: prices_def)

lemma hd_prices:
  assumes "best_ok s d x" "d \<noteq> []"
  shows "hd (prices s d) = x"
proof -
  have n: "prices s d \<noteq> []" using assms(2) by simp
  have h: "hd (prices s d) \<in> keys d" using hd_in_set [OF n] by simp
  have x: "x \<in> set (prices s d)" using assms by (auto simp: best_ok_def)
  have "price_rank s (hd (prices s d)) \<le> price_rank s x"
    using x sorted_prices [of s d] n by (cases "prices s d") auto
  moreover have "price_rank s x \<le> price_rank s (hd (prices s d))"
    using assms h by (simp add: best_ok_def)
  ultimately show ?thesis by (metis order_antisym price_rank_inject)
qed

lemma in_rung: "(i, q, r) \<in> set (rung b d p) \<Longrightarrow> q = p \<and> r = left b i"
  by (auto simp: rung_def split: option.splits)

lemma ladder_entry:
  assumes "book_ok Z M b" "(i, p, r) \<in> set (ladder s b)"
  shows "\<exists>o1. dict_get (bk_orders b) i = Some o1 \<and> od_side o1 = s \<and> od_price o1 = p \<and> r = remaining o1"
proof -
  obtain q where q: "(i, p, r) \<in> set (rung b (levels_of s b) q)" using assms(2) by (auto simp: ladder_def)
  then have e: "q = p" "r = left b i" using in_rung by blast+
  with q obtain l where l: "dict_get (levels_of s b) p = Some l" "i \<in> set (lv_queue l)"
    by (cases "dict_get (levels_of s b) p") (auto simp: rung_def)
  then obtain o1 where "dict_get (bk_orders b) i = Some o1" "od_side o1 = s" "od_price o1 = p"
    using book_okD(4) [OF assms(1) l(1)] by (auto simp: level_ok_def)
  then show ?thesis using e by (simp add: left_def)
qed

lemma order_in_ladder:
  assumes "book_ok Z M b" "dict_get (bk_orders b) i = Some o1"
  shows "(i, od_price o1, remaining o1) \<in> set (ladder (od_side o1) b)"
proof -
  obtain l where l: "dict_get (levels_of (od_side o1) b) (od_price o1) = Some l" "i \<in> set (lv_queue l)"
    using book_okD(6) [OF assms] by (auto simp: order_ok_def)
  then have "od_price o1 \<in> keys (levels_of (od_side o1) b)" using keys_iff by blast
  moreover have "(i, od_price o1, remaining o1) \<in> set (rung b (levels_of (od_side o1) b) (od_price o1))"
    using l assms(2) by (auto simp: rung_def left_def)
  ultimately show ?thesis by (simp add: ladder_def) blast
qed

text \<open>The entry at the top of the ladder is the order the engine matches first.\<close>

lemma ladder_front:
  assumes "book_ok Z M b" "levels_of s b \<noteq> []" "best_price s b \<noteq> INVALID_PRICE"
  shows "\<exists>o1 ls. best_order s b = Some o1 \<and> ladder s b = (od_id o1, od_price o1, remaining o1) # ls \<and>
    od_side o1 = s \<and> od_price o1 = best_price s b \<and> dict_get (bk_orders b) (od_id o1) = Some o1"
proof -
  let ?d = "levels_of s b" and ?p = "best_price s b"
  have bo: "best_ok s ?d ?p" by (rule book_okD(5) [OF assms(1)])
  then obtain l where l: "dict_get ?d ?p = Some l"
    using assms(2) keys_iff by (metis best_ok_def)
  then have lo: "level_ok b s ?p l" by (rule book_okD(4) [OF assms(1)])
  then obtain i q where q: "lv_queue l = i # q" by (cases "lv_queue l") (simp_all add: level_ok_def)
  then obtain o1 where o1: "dict_get (bk_orders b) i = Some o1" "od_side o1 = s" "od_price o1 = ?p"
    using lo by (auto simp: level_ok_def)
  then have id: "od_id o1 = i" using book_okD(6) [OF assms(1)] by (auto simp: order_ok_def)
  have "prices s ?d \<noteq> []" using assms(2) by simp
  then obtain ps where ps: "prices s ?d = ?p # ps"
    using hd_prices [OF bo assms(2)] by (cases "prices s ?d") simp_all
  have "ladder s b = (i, ?p, left b i) # (map (\<lambda>i. (i, ?p, left b i)) q @ concat (map (rung b ?d) ps))"
    using l q by (simp add: ladder_def ps rung_def)
  moreover have "best_order s b = Some o1" using assms(3) l q o1 by (simp add: best_order_def lv_front_def)
  ultimately show ?thesis using o1 id by (simp add: left_def)
qed

lemma ladder_Nil:
  assumes "book_ok Z M b"
  shows "ladder s b = [] \<longleftrightarrow> levels_of s b = []"
proof
  assume e: "ladder s b = []"
  show "levels_of s b = []"
  proof (rule ccontr)
    assume "levels_of s b \<noteq> []"
    then obtain p where p: "p \<in> keys (levels_of s b)" using keys_Nil by blast
    from level_order [OF assms p] obtain l i where
      "dict_get (levels_of s b) p = Some l" "i \<in> set (lv_queue l)" by metis
    then have "(i, p, left b i) \<in> set (rung b (levels_of s b) p)" by (simp add: rung_def)
    then have "(i, p, left b i) \<in> set (ladder s b)" using p by (simp add: ladder_def) blast
    then show False using e by simp
  qed
qed (simp add: ladder_def prices_def)

end
