(* ===== verification/Book_Operations.thy ===== *)
theory Book_Operations
  imports Book_Invariant
begin

text \<open>
  The three changes every command of the engine is made of, and what each does to a well-formed
  book and to its ladders: an order leaves, an order is filled in part, an order is added.
\<close>

section \<open>Frames\<close>

lemma book_ok_shrink:
  assumes "book_ok Z M b" "\<forall>i \<in> Z - Z'. 0 < left b i \<or> dict_get (bk_orders b) i = None"
  shows "book_ok Z' M b"
proof -
  have "order_ok Z' M b i o1" if "(i, o1) \<in> set (bk_orders b)" for i o1
  proof -
    have g: "dict_get (bk_orders b) i = Some o1"
      using that by (simp add: dict_get_iff [OF book_okD(3) [OF assms(1)]])
    have "order_ok Z M b i o1" using book_okD(6) [OF assms(1) g] .
    moreover have "0 < remaining o1" if "i \<in> Z - Z'"
    proof -
      have "0 < left b i \<or> dict_get (bk_orders b) i = None" using bspec [OF assms(2) that] .
      then show ?thesis using g by (simp add: left_def)
    qed
    ultimately show ?thesis by (auto simp: order_ok_def)
  qed
  then have "\<forall>(i, o1) \<in> set (bk_orders b). order_ok Z' M b i o1" by blast
  then show ?thesis using assms(1) unfolding book_ok_def by (elim conjE) (intro conjI)
qed

lemma book_ok_mono: "book_ok Z M b \<Longrightarrow> Z \<subseteq> Z' \<Longrightarrow> M \<subseteq> M' \<Longrightarrow> book_ok Z' M' b"
  by (fastforce simp: book_ok_def order_ok_def)

lemma order_of_queue:
  assumes "book_ok Z M b" "dict_get (levels_of s b) p = Some l" "i \<in> set (lv_queue l)"
    "dict_get (bk_orders b) i = Some o1"
  shows "od_side o1 = s" "od_price o1 = p"
  using book_okD(4) [OF assms(1,2)] assms(3,4) by (auto simp: level_ok_def)

lemma ladder_cong:
  assumes "prices s (levels_of s b') = prices s (levels_of s b)"
    "\<And>p. p \<in> keys (levels_of s b) \<Longrightarrow> rung b' (levels_of s b') p = rung b (levels_of s b) p"
  shows "ladder s b' = ladder s b"
  unfolding ladder_def assms(1) using assms(2) by (intro arg_cong [where f = concat] map_cong) simp_all

section \<open>An order leaves\<close>

lemma remove_levels:
  assumes "dict_get (levels_of (od_side o1) b) (od_price o1) = Some l"
  shows "levels_of s (remove_order_from_level iter o1 b) =
      (if s = od_side o1
       then if remove1 (od_id o1) (lv_queue l) = [] then dict_pop (od_price o1) (levels_of s b)
            else dict_set (od_price o1) (lv_remove o1 l) (levels_of s b)
       else levels_of s b)"
  using assms by (simp add: remove_order_from_level_def lv_remove_def Let_def)

lemma remove_best:
  assumes "dict_get (levels_of (od_side o1) b) (od_price o1) = Some l"
  shows "best_price s (remove_order_from_level iter o1 b) =
      (if s = od_side o1 \<and> remove1 (od_id o1) (lv_queue l) = [] \<and> od_price o1 = best_price s b
       then best_price s (update_best iter s (with_levels s (dict_pop (od_price o1) (levels_of s b)) b))
       else best_price s b)"
  using assms by (simp add: remove_order_from_level_def lv_remove_def update_best_def Let_def)

lemma dict_set_same_keys: "p \<in> keys d \<Longrightarrow> map fst (dict_set p l d) = map fst d"
  by (induction d) (force simp: keys_def)+

lemma prices_set_same: "p \<in> keys d \<Longrightarrow> prices s (dict_set p l d) = prices s d"
  by (simp add: prices_def dict_set_same_keys)

lemma prices_pop: "prices s (dict_pop p d) = filter (\<lambda>q. q \<noteq> p) (prices s d)"
proof -
  have "map fst (dict_pop p d) = filter (\<lambda>q. q \<noteq> p) (map fst d)"
    by (induction d) (auto simp: dict_pop_def)
  then show ?thesis by (simp add: prices_def filter_sort)
qed

lemma concat_map_filter: "(\<And>x. x \<in> set xs \<Longrightarrow> \<not> P x \<Longrightarrow> f x = []) \<Longrightarrow> concat (map f (filter P xs)) = concat (map f xs)"
  by (induction xs) auto

lemma filter_concat_map: "filter P (concat (map f xs)) = concat (map (\<lambda>x. filter P (f x)) xs)"
  by (induction xs) auto

text \<open>The book after an order has left its level and its slot has been given back.\<close>

definition removed :: "iteration \<Rightarrow> order \<Rightarrow> order_book \<Rightarrow> order_book" where
  "removed iter o1 b = release_order o1 (remove_order_from_level iter o1 b)"

lemma removed_orders [simp]: "bk_orders (removed iter o1 b) = dict_pop (od_id o1) (bk_orders b)"
  by (simp add: removed_def release_order_def)

lemma removed_levels [simp]:
  "levels_of s (removed iter o1 b) = levels_of s (remove_order_from_level iter o1 b)"
  "best_price s (removed iter o1 b) = best_price s (remove_order_from_level iter o1 b)"
  by (cases s; simp add: removed_def release_order_def)+

lemma left_removed: "left (removed iter o1 b) i = (if i = od_id o1 then 0 else left b i)"
  by (simp add: left_def)

lemma removed_best_ok:
  assumes "iter_ok iter" "book_ok Z M b" "dict_get (bk_orders b) (od_id o1) = Some o1"
    "\<forall>p \<in> keys (levels_of (od_side o1) b). p \<noteq> od_price o1 \<longrightarrow> p \<noteq> INVALID_PRICE"
  shows "best_ok s (levels_of s (removed iter o1 b)) (best_price s (removed iter o1 b))"
proof -
  let ?s = "od_side o1" and ?p = "od_price o1" and ?i = "od_id o1"
  let ?d = "levels_of ?s b"
  obtain l where l: "dict_get ?d ?p = Some l" using book_okD(6) [OF assms(2,3)] by (auto simp: order_ok_def)
  then have k: "?p \<in> keys ?d" using keys_iff by blast
  have ok: "best_ok ?s ?d (best_price ?s b)" by (rule book_okD(5) [OF assms(2)])
  have "\<forall>(p, l) \<in> set (dict_pop ?p ?d). p \<noteq> INVALID_PRICE \<and> lv_queue l \<noteq> []"
    using assms(4) book_okD(1) [OF assms(2), of ?s]
    by (fastforce simp: set_dict_pop keys_def side_ok_def level_ok_def)
  then have scan: "best_ok ?s (dict_pop ?p ?d) (best_price ?s (update_best iter ?s (with_levels ?s (dict_pop ?p ?d) b)))"
    using update_best_ok [OF assms(1), of ?s "with_levels ?s (dict_pop ?p ?d) b"] by simp
  have keep: "best_ok ?s (dict_pop ?p ?d) (best_price ?s b)" if "?p \<noteq> best_price ?s b"
  proof -
    have "?d \<noteq> []" using k by auto
    then have m: "best_price ?s b \<in> keys ?d" "\<forall>q \<in> keys ?d. price_rank ?s (best_price ?s b) \<le> price_rank ?s q"
      using ok by (simp_all add: best_ok_def)
    then have "best_price ?s b \<in> keys (dict_pop ?p ?d)" using that by simp
    moreover from this have "dict_pop ?p ?d \<noteq> []" by (metis empty_iff keys_empty)
    ultimately show ?thesis using m by (simp add: best_ok_def)
  qed
  have same: "best_ok ?s (dict_set ?p l' ?d) (best_price ?s b)" for l'
  proof -
    have "keys (dict_set ?p l' ?d) = keys ?d" using k by auto
    moreover have "?d \<noteq> []" using k by auto
    ultimately show ?thesis using ok by (simp add: best_ok_def)
  qed
  show ?thesis
  proof (cases "s = ?s")
    case True
    then show ?thesis using scan keep same
      by (cases "?p = best_price ?s b") (simp_all add: remove_levels [OF l] remove_best [OF l])
  next
    case False
    then show ?thesis using book_okD(5) [OF assms(2)] by (simp add: remove_levels [OF l] remove_best [OF l])
  qed
qed

lemma removed_level_ok:
  assumes "book_ok Z M b" "dict_get (bk_orders b) (od_id o1) = Some o1"
    "dict_get (levels_of s (removed iter o1 b)) p = Some l'"
  shows "level_ok (removed iter o1 b) s p l'"
proof -
  let ?i = "od_id o1"
  obtain l where l: "dict_get (levels_of (od_side o1) b) (od_price o1) = Some l" "?i \<in> set (lv_queue l)"
    using book_okD(6) [OF assms(1,2)] by (auto simp: order_ok_def)
  have lo: "level_ok b (od_side o1) (od_price o1) l" by (rule book_okD(4) [OF assms(1) l(1)])
  show ?thesis
  proof (cases "s = od_side o1 \<and> p = od_price o1")
    case True
    then have l': "l' = lv_remove o1 l" "remove1 ?i (lv_queue l) \<noteq> []"
      using assms(3) by (auto simp: remove_levels [OF l(1)] split: if_split_asm)
    have d: "distinct (lv_queue l)" using lo by (simp add: level_ok_def)
    then have q: "set (lv_queue l') = set (lv_queue l) - {?i}" by (simp add: l' lv_remove_def)
    have "sum_list (map (left (removed iter o1 b)) (remove1 ?i (lv_queue l))) =
        sum_list (map (left b) (remove1 ?i (lv_queue l)))"
      using d by (intro arg_cong [where f = sum_list] map_cong) (auto simp: left_removed)
    moreover have "left b ?i = remaining o1" using assms(2) by (simp add: left_def)
    moreover have "sum_list (map (left b) (lv_queue l)) = left b ?i + sum_list (map (left b) (remove1 ?i (lv_queue l)))"
      by (rule sum_list_map_remove1 [OF l(2)])
    ultimately have "lv_total l' = sum_list (map (left (removed iter o1 b)) (lv_queue l'))"
      using lo by (simp add: l' lv_remove_def level_ok_def)
    then show ?thesis using lo l' q l(2) True
      by (auto simp: level_ok_def lv_remove_def length_remove1 of_nat_diff Suc_leI length_pos_if_in_set)
  next
    case False
    then have g: "dict_get (levels_of s b) p = Some l'"
      using assms(3) by (auto simp: remove_levels [OF l(1)] split: if_split_asm)
    then have lo': "level_ok b s p l'" by (rule book_okD(4) [OF assms(1)])
    have n: "?i \<notin> set (lv_queue l')"
      using order_of_queue [OF assms(1) g _ assms(2)] False by blast
    then have m: "map (left (removed iter o1 b)) (lv_queue l') = map (left b) (lv_queue l')"
      by (intro map_cong) (auto simp: left_removed)
    show ?thesis unfolding level_ok_def m using lo' n by (auto simp: level_ok_def)
  qed
qed

lemma removed_ok:
  assumes "iter_ok iter" "book_ok Z M b" "dict_get (bk_orders b) (od_id o1) = Some o1"
    "\<forall>p \<in> keys (levels_of (od_side o1) b). p \<noteq> od_price o1 \<longrightarrow> p \<noteq> INVALID_PRICE"
  shows "book_ok (Z - {od_id o1}) (M - {od_id o1}) (removed iter o1 b)"
proof -
  let ?i = "od_id o1" and ?b = "removed iter o1 b"
  obtain l where l: "dict_get (levels_of (od_side o1) b) (od_price o1) = Some l" "?i \<in> set (lv_queue l)"
    using book_okD(6) [OF assms(2,3)] by (auto simp: order_ok_def)
  have dist: "distinct (lv_queue l)" using book_okD(4) [OF assms(2) l(1)] by (simp add: level_ok_def)
  have sides: "side_ok s ?b" for s
  proof -
    have dk: "dict_ok (levels_of s ?b)" using book_okD(2) [OF assms(2)] by (simp add: remove_levels [OF l(1)])
    then have "\<forall>(p, l') \<in> set (levels_of s ?b). level_ok ?b s p l'"
      using removed_level_ok [OF assms(2,3)] by (auto simp del: removed_levels simp flip: dict_get_iff)
    then show ?thesis using dk removed_best_ok [OF assms] by (simp add: side_ok_def del: removed_levels)
  qed
  have orders: "order_ok (Z - {?i}) (M - {?i}) ?b j o2" if "(j, o2) \<in> set (bk_orders ?b)" for j o2
  proof -
    have j: "j \<noteq> ?i" "dict_get (bk_orders b) j = Some o2"
      using that book_okD(3) [OF assms(2)] by (auto simp: set_dict_pop dict_get_iff)
    have ok: "order_ok Z M b j o2" by (rule book_okD(6) [OF assms(2) j(2)])
    then obtain l2 where l2: "dict_get (levels_of (od_side o2) b) (od_price o2) = Some l2" "j \<in> set (lv_queue l2)"
      by (auto simp: order_ok_def)
    have "\<exists>l'. dict_get (levels_of (od_side o2) ?b) (od_price o2) = Some l' \<and> j \<in> set (lv_queue l')"
    proof (cases "od_side o2 = od_side o1 \<and> od_price o2 = od_price o1")
      case True
      then have e: "l2 = l" using l2 l by simp
      then have jq: "j \<in> set (remove1 ?i (lv_queue l))" using l2(2) j(1) dist by simp
      then have "remove1 ?i (lv_queue l) \<noteq> []" by auto
      then show ?thesis using True jq by (simp add: remove_levels [OF l(1)] lv_remove_def)
    next
      case False
      then show ?thesis using l2 by (auto simp: remove_levels [OF l(1)])
    qed
    then show ?thesis using ok j(1) by (auto simp: order_ok_def)
  qed
  have "Suc (length (dict_pop ?i (bk_orders b))) = length (bk_orders b)"
    using length_dict_pop [OF book_okD(3) [OF assms(2)] assms(3)] .
  then show ?thesis using sides orders book_okD(3,7) [OF assms(2)]
    by (auto simp: book_ok_def removed_def release_order_def)
qed

lemma removed_ladder:
  assumes "book_ok Z M b" "dict_get (bk_orders b) (od_id o1) = Some o1"
  shows "ladder s (removed iter o1 b) = filter (\<lambda>(j, p, r). j \<noteq> od_id o1) (ladder s b)"
proof -
  let ?i = "od_id o1" and ?b = "removed iter o1 b" and ?P = "\<lambda>(j, p, r). j \<noteq> od_id o1"
  obtain l where l: "dict_get (levels_of (od_side o1) b) (od_price o1) = Some l" "?i \<in> set (lv_queue l)"
    using book_okD(6) [OF assms] by (auto simp: order_ok_def)
  have dist: "distinct (lv_queue l)" using book_okD(4) [OF assms(1) l(1)] by (simp add: level_ok_def)
  have rung: "rung ?b (levels_of s ?b) p = filter ?P (rung b (levels_of s b) p)" for p
  proof (cases "s = od_side o1 \<and> p = od_price o1")
    case True
    have "remove1 ?i (lv_queue l) = filter (\<lambda>j. j \<noteq> ?i) (lv_queue l)"
      unfolding distinct_remove1_removeAll [OF dist] removeAll_filter_not_eq by (rule filter_cong) auto
    then have "filter ?P (rung b (levels_of s b) p) = map (\<lambda>j. (j, p, left b j)) (remove1 ?i (lv_queue l))"
      using True l(1) by (simp add: rung_def filter_map comp_def)
    moreover have "map (\<lambda>j. (j, p, left b j)) (remove1 ?i (lv_queue l)) =
        map (\<lambda>j. (j, p, left ?b j)) (remove1 ?i (lv_queue l))"
      using dist by (intro map_cong) (auto simp: left_removed)
    ultimately show ?thesis using True by (auto simp: rung_def remove_levels [OF l(1)] lv_remove_def)
  next
    case False
    have same: "dict_get (levels_of s ?b) p = dict_get (levels_of s b) p"
      using False by (auto simp: remove_levels [OF l(1)])
    show ?thesis
    proof (cases "dict_get (levels_of s b) p")
      case (Some l')
      have "?i \<notin> set (lv_queue l')" using order_of_queue [OF assms(1) Some _ assms(2)] False by blast
      then show ?thesis using same Some
        by (auto simp: rung_def left_removed filter_map comp_def intro!: map_cong filter_True [symmetric])
    qed (use same in \<open>simp add: rung_def\<close>)
  qed
  have "concat (map (rung ?b (levels_of s ?b)) (prices s (levels_of s ?b))) =
      concat (map (rung ?b (levels_of s ?b)) (prices s (levels_of s b)))"
  proof (cases "s = od_side o1")
    case True
    have k: "od_price o1 \<in> keys (levels_of s b)" using l(1) keys_iff True by blast
    show ?thesis
    proof (cases "remove1 ?i (lv_queue l) = []")
      case t: True
      then have "prices s (levels_of s ?b) = filter (\<lambda>q. q \<noteq> od_price o1) (prices s (levels_of s b))"
        using True by (simp add: remove_levels [OF l(1)] prices_pop)
      then show ?thesis using t True
        by (simp add: concat_map_filter rung_def remove_levels [OF l(1)])
    next
      case False
      then show ?thesis using True k by (simp add: remove_levels [OF l(1)] prices_set_same)
    qed
  qed (simp add: remove_levels [OF l(1)])
  then show ?thesis unfolding ladder_def rung filter_concat_map .
qed

section \<open>Identifiers on a ladder are distinct\<close>

lemma queue_order:
  assumes "book_ok Z M b" "dict_get (levels_of s b) p = Some l" "i \<in> set (lv_queue l)"
  shows "\<exists>o1. dict_get (bk_orders b) i = Some o1 \<and> od_side o1 = s \<and> od_price o1 = p"
  using book_okD(4) [OF assms(1,2)] assms(3) by (simp add: level_ok_def)

lemma rung_ids: "i \<in> fst ` set (rung b d p) \<longleftrightarrow> (\<exists>l. dict_get d p = Some l \<and> i \<in> set (lv_queue l))"
  by (cases "dict_get d p") (auto simp: rung_def image_iff)

lemma rungs_distinct:
  assumes "book_ok Z M b" "distinct ps"
  shows "distinct (map fst (concat (map (rung b (levels_of s b)) ps)))"
  using assms(2)
proof (induction ps)
  case (Cons p ps)
  have one: "distinct (map fst (rung b (levels_of s b) p))"
    using book_okD(4) [OF assms(1), of s p] by (auto simp: rung_def level_ok_def comp_def split: option.split)
  have "i \<notin> fst ` set (rung b (levels_of s b) q)" if i: "i \<in> fst ` set (rung b (levels_of s b) p)" and q: "q \<in> set ps" for i q
  proof
    assume "i \<in> fst ` set (rung b (levels_of s b) q)"
    then obtain l' where l': "dict_get (levels_of s b) q = Some l'" "i \<in> set (lv_queue l')"
      unfolding rung_ids by blast
    obtain l where l: "dict_get (levels_of s b) p = Some l" "i \<in> set (lv_queue l)"
      using i unfolding rung_ids by blast
    have "p = q" using queue_order [OF assms(1) l] queue_order [OF assms(1) l'] by auto
    then show False using q Cons.prems by simp
  qed
  then have "fst ` set (rung b (levels_of s b) p) \<inter>
      fst ` set (concat (map (rung b (levels_of s b)) ps)) = {}"
    by (simp add: image_UN) blast
  then show ?case using one Cons.IH Cons.prems by simp
qed simp

lemma ladder_distinct: "book_ok Z M b \<Longrightarrow> distinct (map fst (ladder s b))"
  unfolding ladder_def by (rule rungs_distinct [OF _ distinct_prices [OF book_okD(2)]])

section \<open>An order shrinks\<close>

text \<open>
  An order is filled in part, or its quantity is lowered in place: the map holds the new version
  \<open>o2\<close> of the order and the level's total loses \<open>qty\<close>.
\<close>

definition resized :: "int \<Rightarrow> order \<Rightarrow> order_book \<Rightarrow> order_book" where
  "resized qty o2 b = reduce_level (od_side o2) (od_price o2) qty
     (b\<lparr>bk_orders := dict_set (od_id o2) o2 (bk_orders b)\<rparr>)"

definition smaller :: "int \<Rightarrow> order \<Rightarrow> order \<Rightarrow> bool" where
  "smaller qty o1 o2 \<longleftrightarrow> od_id o2 = od_id o1 \<and> od_side o2 = od_side o1 \<and> od_price o2 = od_price o1 \<and>
     od_type o2 = od_type o1 \<and> remaining o2 = remaining o1 - qty"

lemma resized_levels:
  "levels_of s (resized qty o2 b) =
     (case dict_get (levels_of (od_side o2) b) (od_price o2) of
        None \<Rightarrow> levels_of s b
      | Some l \<Rightarrow> if s = od_side o2 then dict_set (od_price o2) (lv_reduce_quantity qty l) (levels_of s b)
                  else levels_of s b)"
  by (simp add: resized_def reduce_level_def split: option.split)

lemma resized_best [simp]: "best_price s (resized qty o2 b) = best_price s b"
  by (simp add: resized_def reduce_level_def split: option.split)

lemma resized_orders [simp]:
  "bk_orders (resized qty o2 b) = dict_set (od_id o2) o2 (bk_orders b)"
  "bk_free (resized qty o2 b) = bk_free b"
  by (simp_all add: resized_def reduce_level_def split: option.split)

lemma left_resized:
  assumes "dict_get (bk_orders b) (od_id o1) = Some o1" "smaller qty o1 o2"
  shows "left (resized qty o2 b) i = (if i = od_id o1 then left b i - qty else left b i)"
  using assms by (simp add: left_def smaller_def)

text \<open>No queue changes.\<close>

lemma resized_queue:
  assumes "dict_get (levels_of s (resized qty o2 b)) p = Some l'"
  shows "\<exists>l. dict_get (levels_of s b) p = Some l \<and> lv_queue l' = lv_queue l \<and> lv_count l' = lv_count l \<and>
    lv_total l' = (if s = od_side o2 \<and> p = od_price o2 then lv_total l - qty else lv_total l)"
  using assms by (auto simp: resized_levels lv_reduce_quantity_def split: option.split_asm if_split_asm)

lemma resized_queue_rev:
  assumes "dict_get (levels_of s b) p = Some l"
  shows "\<exists>l'. dict_get (levels_of s (resized qty o2 b)) p = Some l' \<and> lv_queue l' = lv_queue l"
  using assms by (auto simp: resized_levels lv_reduce_quantity_def split: option.split)

lemma resized_prices: "prices s (levels_of s (resized qty o2 b)) = prices s (levels_of s b)"
  using prices_set_same by (auto simp: resized_levels keys_iff split: option.split)

lemma resized_keys: "keys (levels_of s (resized qty o2 b)) = keys (levels_of s b)"
  using resized_prices [of s qty o2 b] by (metis set_prices)

lemma length_dict_set: "dict_get d k \<noteq> None \<Longrightarrow> length (dict_set k v d) = length d"
  by (induction k v d rule: dict_set.induct) (auto simp: dict_get_def)

lemma sum_list_but:
  assumes "distinct xs" "i \<in> set xs"
  shows "sum_list (map (\<lambda>j. if j = i then f j - (q::int) else f j) xs) = sum_list (map f xs) - q"
  using assms
proof (induction xs)
  case (Cons x xs)
  show ?case
  proof (cases "x = i")
    case True
    then have m: "map (\<lambda>j. if j = i then f j - q else f j) xs = map f xs"
      using Cons.prems by (intro map_cong) auto
    show ?thesis unfolding list.map m using True by simp
  qed (use Cons in auto)
qed simp

lemma resized_level_ok:
  assumes "book_ok Z M b" "dict_get (bk_orders b) (od_id o1) = Some o1" "smaller qty o1 o2"
    "dict_get (levels_of s (resized qty o2 b)) p = Some l'"
  shows "level_ok (resized qty o2 b) s p l'"
proof -
  let ?i = "od_id o1" and ?b = "resized qty o2 b"
  obtain l where l: "dict_get (levels_of s b) p = Some l" "lv_queue l' = lv_queue l" "lv_count l' = lv_count l"
    "lv_total l' = (if s = od_side o1 \<and> p = od_price o1 then lv_total l - qty else lv_total l)"
    using resized_queue [OF assms(4)] assms(3) by (auto simp: smaller_def)
  have lo: "level_ok b s p l" by (rule book_okD(4) [OF assms(1) l(1)])
  have lf: "left ?b = (\<lambda>j. if j = ?i then left b j - qty else left b j)"
    using left_resized [OF assms(2,3)] by auto
  have "sum_list (map (left ?b) (lv_queue l)) = lv_total l'"
  proof (cases "s = od_side o1 \<and> p = od_price o1")
    case True
    then have "?i \<in> set (lv_queue l)"
      using book_okD(6) [OF assms(1,2)] l(1) by (auto simp: order_ok_def)
    then show ?thesis using sum_list_but [of "lv_queue l" ?i "left b" qty] lo l(4) True
      by (simp add: lf level_ok_def)
  next
    case False
    then have "?i \<notin> set (lv_queue l)" using order_of_queue [OF assms(1) l(1) _ assms(2)] by blast
    then have m: "map (left ?b) (lv_queue l) = map (left b) (lv_queue l)"
      by (intro map_cong) (auto simp: lf)
    show ?thesis unfolding m using lo l(4) False by (simp add: level_ok_def)
  qed
  moreover have "\<exists>o2. dict_get (bk_orders ?b) i = Some o2 \<and> od_side o2 = s \<and> od_price o2 = p"
    if "i \<in> set (lv_queue l)" for i
    using queue_order [OF assms(1) l(1) that] assms(2,3) by (auto simp: smaller_def)
  ultimately show ?thesis using lo l(2,3) by (simp add: level_ok_def)
qed

lemma resized_ok:
  assumes "book_ok Z M b" "dict_get (bk_orders b) (od_id o1) = Some o1" "smaller qty o1 o2"
    "0 \<le> remaining o2"
  shows "book_ok (insert (od_id o1) Z) M (resized qty o2 b)"
proof -
  let ?i = "od_id o1" and ?b = "resized qty o2 b"
  have sides: "side_ok s ?b" for s
  proof -
    have dk: "dict_ok (levels_of s ?b)"
      using book_okD(2) [OF assms(1)] by (simp add: resized_levels split: option.split)
    have "best_ok s (levels_of s ?b) (best_price s b)"
      using book_okD(5) [OF assms(1), of s] unfolding best_ok_def resized_keys keys_Nil [symmetric] .
    moreover have "\<forall>(p, l') \<in> set (levels_of s ?b). level_ok ?b s p l'"
      using resized_level_ok [OF assms(1-3)] by (auto simp: dict_get_iff [OF dk])
    ultimately show ?thesis using dk by (simp add: side_ok_def)
  qed
  have queued: "\<exists>l'. dict_get (levels_of (od_side o3) ?b) (od_price o3) = Some l' \<and> j \<in> set (lv_queue l')"
    if ok: "order_ok Z M b j o3" for j o3
  proof -
    obtain l where l: "dict_get (levels_of (od_side o3) b) (od_price o3) = Some l" "j \<in> set (lv_queue l)"
      using ok by (auto simp: order_ok_def)
    then show ?thesis using resized_queue_rev [OF l(1), of qty o2] by auto
  qed
  have ok1: "order_ok Z M b ?i o1" by (rule book_okD(6) [OF assms(1,2)])
  have orders: "order_ok (insert ?i Z) M ?b j o3" if g: "dict_get (bk_orders ?b) j = Some o3" for j o3
  proof (cases "j = ?i")
    case True
    then have e: "o3 = o2" using g assms(3) by (simp add: smaller_def)
    show ?thesis using queued [OF ok1] ok1 assms(3,4)
      unfolding e True order_ok_def smaller_def by simp
  next
    case False
    then have "dict_get (bk_orders b) j = Some o3" using g assms(3) by (simp add: smaller_def)
    then have ok2: "order_ok Z M b j o3" by (rule book_okD(6) [OF assms(1)])
    then show ?thesis using queued [OF ok2] by (simp add: order_ok_def)
  qed
  have dk: "dict_ok (bk_orders ?b)" using book_okD(3) [OF assms(1)] by simp
  then have "\<forall>(j, o2) \<in> set (bk_orders ?b). order_ok (insert ?i Z) M ?b j o2"
    using orders by (auto simp: dict_get_iff [OF dk] simp del: resized_orders)
  then show ?thesis using sides dk book_okD(7) [OF assms(1)] assms(2,3)
    by (simp add: book_ok_def length_dict_set smaller_def)
qed

lemma resized_ladder:
  assumes "dict_get (bk_orders b) (od_id o1) = Some o1" "smaller qty o1 o2"
  shows "ladder s (resized qty o2 b) =
    map (\<lambda>(j, p, r). (j, p, if j = od_id o1 then r - qty else r)) (ladder s b)"
proof -
  have rung: "rung (resized qty o2 b) (levels_of s (resized qty o2 b)) p =
      map (\<lambda>(j, p, r). (j, p, if j = od_id o1 then r - qty else r)) (rung b (levels_of s b) p)" for p
  proof (cases "dict_get (levels_of s b) p")
    case None
    then have "dict_get (levels_of s (resized qty o2 b)) p = None"
      using resized_queue [of s qty o2 b p] by (cases "dict_get (levels_of s (resized qty o2 b)) p") auto
    then show ?thesis using None by (simp add: rung_def)
  next
    case (Some l)
    then obtain l' where "dict_get (levels_of s (resized qty o2 b)) p = Some l'" "lv_queue l' = lv_queue l"
      using resized_queue_rev by blast
    then show ?thesis using Some by (simp add: rung_def left_resized [OF assms])
  qed
  show ?thesis
    unfolding ladder_def resized_prices map_concat map_map
    by (intro arg_cong [where f = concat] map_cong) (simp_all add: rung)
qed

text \<open>A fill is such a change to the maker and to the taker.\<close>

definition grown :: "int \<Rightarrow> order \<Rightarrow> order" where
  "grown qty o1 = o1\<lparr>od_filled := od_filled o1 + qty\<rparr>"

lemma grown_simps [simp]:
  "remaining (grown q t) = remaining t - q" "od_side (grown q t) = od_side t" "od_id (grown q t) = od_id t"
  "od_price (grown q t) = od_price t" "od_type (grown q t) = od_type t" "od_display (grown q t) = od_display t"
  "grown q (grown q' t) = grown (q' + q) t" "grown 0 t = t"
  by (simp_all add: grown_def remaining_def)

lemma smaller_grown: "smaller qty o1 (grown qty o1)"
  by (simp add: smaller_def)

lemma is_filled_grown: "is_filled (grown q m) \<longleftrightarrow> remaining m \<le> q"
  by (auto simp: is_filled_def grown_def remaining_def)

lemma fill_commute: "reduce_level s p q (fill_order q' o1 b) = fill_order q' o1 (reduce_level s p q b)"
  by (cases s) (simp_all add: reduce_level_def fill_order_def split: option.split)

lemma execute_fill_book:
  "mx_book (execute_fill maker taker qty e) = resized qty (grown qty taker) (resized qty (grown qty maker) (mx_book e))"
proof -
  have "fill_order qty o1 b = b\<lparr>bk_orders := dict_set (od_id o1) (grown qty o1) (bk_orders b)\<rparr>" for o1 b
    by (simp add: fill_order_def grown_def)
  note fold = this [symmetric]
  show ?thesis by (simp add: execute_fill_def resized_def fill_commute fold Let_def)
qed

section \<open>An order is added\<close>

lemma best_valid:
  assumes "book_ok Z {} b"
  shows "best_price s b = INVALID_PRICE \<longleftrightarrow> levels_of s b = []"
proof
  assume e: "best_price s b = INVALID_PRICE"
  show "levels_of s b = []"
  proof (rule ccontr)
    assume "levels_of s b \<noteq> []"
    then have "INVALID_PRICE \<in> keys (levels_of s b)"
      using book_okD(5) [OF assms, of s] e by (simp add: best_ok_def)
    then have "0 < INVALID_PRICE" by (rule valid_prices [OF assms]) simp
    then show False using INVALID_PRICE_neg by linarith
  qed
qed (use book_okD(5) [OF assms, of s] in \<open>simp add: best_ok_def\<close>)

lemma insert_levels [simp]:
  "levels_of s (insert_order q o1 b) =
     (if s = od_side o1
      then dict_set (od_price o1) (lv_push_back q (level_at s (od_price o1) b)) (levels_of s b)
      else levels_of s b)"
  by (simp add: insert_order_def improve_best_def Let_def)

lemma insert_best:
  "best_price s (insert_order q o1 b) =
     (if s = od_side o1 \<and> (best_price s b = INVALID_PRICE \<or> better s (od_price o1) (best_price s b))
      then od_price o1 else best_price s b)"
  by (auto simp: insert_order_def improve_best_def Let_def)

lemma insert_orders [simp]:
  "bk_orders (insert_order q o1 b) = dict_set (od_id o1) o1 (bk_orders b)"
  "bk_free (insert_order q o1 b) = bk_free b - 1"
  by (simp_all add: insert_order_def improve_best_def Let_def)

lemma left_insert:
  "left (insert_order q o1 b) i = (if i = od_id o1 then remaining o1 else left b i)"
  by (simp add: left_def)

lemma insert_best_ok:
  assumes "book_ok Z {} b"
  shows "best_ok s (levels_of s (insert_order q o1 b)) (best_price s (insert_order q o1 b))"
proof -
  have b: "best_ok s (levels_of s b) (best_price s b)" by (rule book_okD(5) [OF assms])
  show ?thesis
  proof (cases "s = od_side o1")
    case True
    let ?d = "levels_of s b" and ?p = "od_price o1" and ?x = "best_price s b"
    have n: "dict_set ?p l ?d \<noteq> []" for l :: level by (rule dict_set_not_Nil)
    show ?thesis
    proof (cases "?d = []")
      case e: True
      then have "best_price s b = INVALID_PRICE" using best_valid [OF assms, of s] by simp
      then show ?thesis using True e n by (simp add: best_ok_def insert_best keys_def)
    next
      case False
      then have m: "?x \<in> keys ?d" "\<forall>q \<in> keys ?d. price_rank s ?x \<le> price_rank s q" "?x \<noteq> INVALID_PRICE"
        using b best_valid [OF assms, of s] by (simp_all add: best_ok_def)
      then show ?thesis using True n
        by (auto simp: best_ok_def insert_best better_rank)
    qed
  qed (use b in \<open>simp add: insert_best\<close>)
qed

lemma level_at_queue:
  assumes "book_ok Z M b" "i \<in> set (lv_queue (level_at s p b))"
  shows "\<exists>l. dict_get (levels_of s b) p = Some l \<and> i \<in> set (lv_queue l)"
  using assms(2) by (auto simp: level_at_def level_init_def split: option.split_asm)

lemma insert_level_ok:
  assumes "book_ok Z M b" "dict_get (bk_orders b) (od_id o1) = None"
    "dict_get (levels_of s (insert_order o1 o1 b)) p = Some l'"
  shows "level_ok (insert_order o1 o1 b) s p l'"
proof -
  let ?i = "od_id o1" and ?b = "insert_order o1 o1 b"
  have fresh: "?i \<notin> set (lv_queue l)" if "dict_get (levels_of s b) p = Some l" for l
    using queue_order [OF assms(1) that] assms(2) by fastforce
  have same: "map (left ?b) (lv_queue l) = map (left b) (lv_queue l)" if "?i \<notin> set (lv_queue l)" for l
    using that by (intro map_cong) (auto simp: left_insert)
  show ?thesis
  proof (cases "s = od_side o1 \<and> p = od_price o1")
    case True
    let ?l = "level_at s p b"
    have l': "l' = lv_push_back o1 ?l" using assms(3) True by simp
    have n: "?i \<notin> set (lv_queue ?l)"
      using fresh by (auto simp: level_at_def level_init_def split: option.split)
    have "distinct (lv_queue ?l) \<and> lv_count ?l = int (length (lv_queue ?l)) \<and>
        lv_total ?l = sum_list (map (left b) (lv_queue ?l))"
      using book_okD(4) [OF assms(1), of s p]
      by (auto simp: level_at_def level_init_def level_ok_def split: option.split)
    moreover have "\<exists>o2. dict_get (bk_orders ?b) j = Some o2 \<and> od_side o2 = s \<and> od_price o2 = p"
      if j: "j \<in> set (lv_queue ?l)" for j
    proof -
      obtain l where "dict_get (levels_of s b) p = Some l" "j \<in> set (lv_queue l)"
        using level_at_queue [OF assms(1) j] by blast
      then show ?thesis using queue_order [OF assms(1)] n j by fastforce
    qed
    moreover have "sum_list (map (left ?b) (lv_queue l')) = sum_list (map (left b) (lv_queue ?l)) + remaining o1"
      unfolding l' lv_push_back_def by (simp add: same [OF n] left_insert del: map_eq_conv)
    ultimately show ?thesis using True n unfolding level_ok_def l'
      by (auto simp: lv_push_back_def)
  next
    case False
    then have g: "dict_get (levels_of s b) p = Some l'" using assms(3) by (auto split: if_split_asm)
    have lo: "level_ok b s p l'" by (rule book_okD(4) [OF assms(1) g])
    show ?thesis unfolding level_ok_def same [OF fresh [OF g]]
      using lo fresh [OF g] by (auto simp: level_ok_def)
  qed
qed

lemma length_dict_set_new: "dict_get d k = None \<Longrightarrow> length (dict_set k v d) = Suc (length d)"
  by (induction k v d rule: dict_set.induct) (auto simp: dict_get_def split: if_split_asm)

lemma insert_ok:
  assumes "book_ok Z {} b" "dict_get (bk_orders b) (od_id o1) = None" "0 < bk_free b" "0 < remaining o1"
    "od_type o1 \<noteq> ICEBERG" "od_id o1 \<notin> M \<longrightarrow> od_type o1 = LIMIT \<and> 0 < od_price o1"
  shows "book_ok Z M (insert_order o1 o1 b)"
proof -
  let ?i = "od_id o1" and ?b = "insert_order o1 o1 b"
  have sides: "side_ok s ?b" for s
  proof -
    have dk: "dict_ok (levels_of s ?b)" using book_okD(2) [OF assms(1)] by simp
    have "\<forall>(p, l') \<in> set (levels_of s ?b). level_ok ?b s p l'"
      using insert_level_ok [OF assms(1,2)] by (auto simp: dict_get_iff [OF dk] simp del: insert_levels)
    then show ?thesis using dk insert_best_ok [OF assms(1)] by (simp add: side_ok_def del: insert_levels)
  qed
  have orders: "order_ok Z M ?b j o2" if g: "dict_get (bk_orders ?b) j = Some o2" for j o2
  proof (cases "j = ?i")
    case True
    then have e: "o2 = o1" using g by simp
    show ?thesis using assms(4-6) unfolding e True order_ok_def by (simp add: lv_push_back_def)
  next
    case False
    then have g: "dict_get (bk_orders b) j = Some o2" using g by simp
    have ok: "order_ok Z {} b j o2" by (rule book_okD(6) [OF assms(1) g])
    then obtain l where l: "dict_get (levels_of (od_side o2) b) (od_price o2) = Some l" "j \<in> set (lv_queue l)"
      by (auto simp: order_ok_def)
    then have "\<exists>l'. dict_get (levels_of (od_side o2) ?b) (od_price o2) = Some l' \<and> j \<in> set (lv_queue l')"
      by (cases "od_side o2 = od_side o1 \<and> od_price o2 = od_price o1") (auto simp: level_at_def lv_push_back_def)
    then show ?thesis using ok unfolding order_ok_def by blast
  qed
  have dk: "dict_ok (bk_orders ?b)" using book_okD(3) [OF assms(1)] by simp
  have all: "\<forall>(j, o2) \<in> set (bk_orders ?b). order_ok Z M ?b j o2"
    using orders by (auto simp: dict_get_iff [OF dk] simp del: insert_orders)
  have "length (bk_orders ?b) = Suc (length (bk_orders b))"
    using assms(2) by (simp add: length_dict_set_new)
  then show ?thesis using sides dk all book_okD(7) [OF assms(1)] assms(3)
    by (simp add: book_ok_def del: insert_levels)
qed


text \<open>Time priority: the new order stands behind every order at its price or a better one.\<close>

lemma sorted_three:
  "sorted (map f xs) \<Longrightarrow> xs = filter (\<lambda>x. f x < (a::int)) xs @ filter (\<lambda>x. f x = a) xs @ filter (\<lambda>x. a < f x) xs"
proof (induction xs)
  case (Cons x xs)
  have ih: "xs = filter (\<lambda>x. f x < a) xs @ filter (\<lambda>x. f x = a) xs @ filter (\<lambda>x. a < f x) xs"
    using Cons by simp
  have "f x \<le> f y" if "y \<in> set xs" for y using Cons.prems that by simp
  then have "f x < a \<or> f x = a \<and> filter (\<lambda>x. f x < a) xs = [] \<or>
      a < f x \<and> filter (\<lambda>x. f x < a) xs = [] \<and> filter (\<lambda>x. f x = a) xs = []"
    by (force simp: filter_empty_conv)
  then show ?case using ih by (elim disjE conjE) simp_all
qed simp

lemma filter_keys_set:
  "\<not> P p \<Longrightarrow> filter P (map fst (dict_set p l d)) = filter P (map fst d)"
  by (induction p l d rule: dict_set.induct) auto

lemma filter_eq_distinct: "distinct xs \<Longrightarrow> filter (\<lambda>x. x = a) xs = (if a \<in> set xs then [a] else [])"
  by (induction xs) auto

lemma prices_three:
  assumes "dict_ok d"
  shows "prices s d = filter (\<lambda>q. price_rank s q < price_rank s p) (prices s d) @
    (if p \<in> keys d then [p] else []) @ filter (\<lambda>q. price_rank s p < price_rank s q) (prices s d)"
  using sorted_three [OF sorted_prices, of s d "price_rank s p"]
    filter_eq_distinct [OF distinct_prices [OF assms, of s], of p] by simp

lemma prices_insert:
  assumes "dict_ok d"
  shows "prices s (dict_set p l d) = filter (\<lambda>q. price_rank s q < price_rank s p) (prices s d) @
    [p] @ filter (\<lambda>q. price_rank s p < price_rank s q) (prices s d)"
  by (subst prices_three [where p = p]) (simp_all add: assms prices_def filter_sort filter_keys_set)

lemma concat_if: "concat (map (\<lambda>x. if P x then f x else []) xs) = concat (map f (filter P xs))"
  by (induction xs) auto

lemma filter_rung: "filter (\<lambda>(j, q, r). P q) (rung b d p) = (if P p then rung b d p else [])"
  by (auto simp: rung_def filter_map comp_def split: option.split)

lemma filter_ladder:
  "filter (\<lambda>(j, q, r). P q) (ladder s b) = concat (map (rung b (levels_of s b)) (filter P (prices s (levels_of s b))))"
  unfolding ladder_def filter_concat_map filter_rung concat_if ..

lemma filter_le_prices:
  assumes "dict_ok d"
  shows "filter (\<lambda>q. price_rank s q \<le> price_rank s p) (prices s d) =
    filter (\<lambda>q. price_rank s q < price_rank s p) (prices s d) @ (if p \<in> keys d then [p] else [])"
  by (subst prices_three [OF assms, of s p]) (auto simp: filter_empty_conv intro!: filter_cong)

lemma insert_ladder:
  assumes "book_ok Z M b" "dict_get (bk_orders b) (od_id o1) = None"
  shows "ladder s (insert_order o1 o1 b) =
    (if s = od_side o1
     then filter (\<lambda>(j, q, r). price_rank s q \<le> price_rank s (od_price o1)) (ladder s b) @
       [(od_id o1, od_price o1, remaining o1)] @
       filter (\<lambda>(j, q, r). price_rank s (od_price o1) < price_rank s q) (ladder s b)
     else ladder s b)"
proof -
  let ?b = "insert_order o1 o1 b" and ?d = "levels_of s b" and ?p = "od_price o1"
  have lf: "left ?b i = left b i" if "dict_get ?d p = Some l" "i \<in> set (lv_queue l)" for i p l
    using queue_order [OF assms(1) that] assms(2) by (auto simp: left_insert)
  have other: "rung ?b (levels_of s ?b) p = rung b ?d p" if "s \<noteq> od_side o1 \<or> p \<noteq> ?p" for p
    using that lf by (auto simp: rung_def split: option.split)
  show ?thesis
  proof (cases "s = od_side o1")
    case True
    have dk: "dict_ok ?d" by (rule book_okD(2) [OF assms(1)])
    have new: "rung ?b (levels_of s ?b) ?p = (if ?p \<in> keys ?d then rung b ?d ?p else []) @ [(od_id o1, ?p, remaining o1)]"
      using True lf by (auto simp: rung_def level_at_def level_init_def lv_push_back_def left_insert keys_iff
          split: option.split)
    have rest: "concat (map (rung ?b (levels_of s ?b)) (filter P (prices s ?d))) =
        concat (map (rung b ?d) (filter P (prices s ?d)))" if "\<not> P ?p" for P
      by (intro arg_cong [where f = concat] map_cong refl other) (use that in auto)
    have pr: "prices s (levels_of s ?b) = filter (\<lambda>q. price_rank s q < price_rank s ?p) (prices s ?d) @
        [?p] @ filter (\<lambda>q. price_rank s ?p < price_rank s q) (prices s ?d)"
      using prices_insert [OF dk] True by simp
    have "ladder s ?b = concat (map (rung b ?d) (filter (\<lambda>q. price_rank s q < price_rank s ?p) (prices s ?d))) @
        rung ?b (levels_of s ?b) ?p @
        concat (map (rung b ?d) (filter (\<lambda>q. price_rank s ?p < price_rank s q) (prices s ?d)))"
      unfolding ladder_def pr by (simp add: rest del: insert_levels)
    also have "\<dots> = concat (map (rung b ?d) (filter (\<lambda>q. price_rank s q \<le> price_rank s ?p) (prices s ?d))) @
        [(od_id o1, ?p, remaining o1)] @
        concat (map (rung b ?d) (filter (\<lambda>q. price_rank s ?p < price_rank s q) (prices s ?d)))"
      unfolding new filter_le_prices [OF dk] by simp
    finally show ?thesis unfolding filter_ladder using True by simp
  next
    case False
    then show ?thesis using ladder_cong [of s ?b b] other by simp
  qed
qed

end
