(* ===== verification/Match_Refinement.thy ===== *)
theory Match_Refinement
  imports Book_Operations
begin

text \<open>
  The matching loop implements price-time priority: it ends, and what it does to the two ladders and
  to the history of fills is what \<open>spec_match\<close> says.
\<close>

section \<open>Price-time priority\<close>

type_synonym rungs = "(int \<times> int \<times> int) list"

text \<open>
  What matching promises, on the ladder alone: the incoming quantity \<open>q\<close> is traded against the orders
  within reach from the top of the ladder down, each trade at the resting order's price. The result is
  the quantity left, the ladder left and the trades.
\<close>

fun spec_match :: "(int \<Rightarrow> bool) \<Rightarrow> int \<Rightarrow> rungs \<Rightarrow> int \<times> rungs \<times> rungs" where
  "spec_match reach q [] = (q, [], [])"
| "spec_match reach q ((i, p, r) # ls) =
     (if q \<le> 0 \<or> \<not> reach p then (q, (i, p, r) # ls, [])
      else if r \<le> q then (case spec_match reach (q - r) ls of (q', ls', fs) \<Rightarrow> (q', ls', (i, p, r) # fs))
      else (0, (i, p, r - q) # ls, [(i, p, q)]))"

definition fill_of :: "fee_schedule \<Rightarrow> int \<Rightarrow> int \<times> int \<times> int \<Rightarrow> fill_event" where
  "fill_of fs tid = (\<lambda>(i, p, q). \<lparr>fe_maker = i, fe_taker = tid, fe_price = p, fe_quantity = q,
     fe_maker_fee = - maker_rebate fs p q, fe_taker_fee = taker_fee fs p q\<rparr>)"

definition take_from :: "int \<Rightarrow> int \<Rightarrow> rungs \<Rightarrow> rungs" where
  "take_from tid q = map (\<lambda>(j, p, r). (j, p, if j = tid then r - q else r))"

lemma take_from_simps: "take_from tid q (take_from tid q' ls) = take_from tid (q' + q) ls" "take_from tid 0 ls = ls"
  by (auto simp: take_from_def intro!: map_idI)

lemma take_from_Cons: "take_from tid q ((j, p, r) # ls) = (j, p, if j = tid then r - q else r) # take_from tid q ls"
  by (simp add: take_from_def)

lemma take_from_absent: "tid \<notin> fst ` set ls \<Longrightarrow> take_from tid q ls = ls"
  by (force simp: take_from_def intro!: map_idI)

lemma other_side:
  assumes "book_ok Z M b" "dict_get (bk_orders b) i = Some o1" "od_side o1 \<noteq> s"
  shows "i \<notin> fst ` set (ladder s b)"
proof
  assume "i \<in> fst ` set (ladder s b)"
  then obtain p r where "(i, p, r) \<in> set (ladder s b)" by auto
  then show False using ladder_entry [OF assms(1)] assms(2,3) by fastforce
qed

text \<open>The state of the loop: only the incoming order \<open>t\<close> may be filled or a market order.\<close>

definition matching :: "int set \<Rightarrow> order \<Rightarrow> order_book \<Rightarrow> bool" where
  "matching M t b \<longleftrightarrow> book_ok {od_id t} M b \<and> M \<subseteq> {od_id t} \<and> dict_get (bk_orders b) (od_id t) = Some t"

lemma matching_prices:
  assumes "matching M t b" "p \<in> keys (levels_of (opposite (od_side t)) b)"
  shows "0 < p"
proof -
  have "book_ok {od_id t} M b" using assms(1) by (simp add: matching_def)
  then show ?thesis by (rule valid_prices [OF _ assms(2)]) (use assms(1) in \<open>auto simp: matching_def\<close>)
qed

lemma matching_empty:
  assumes "matching M t b"
  shows "best_price (opposite (od_side t)) b = INVALID_PRICE \<longleftrightarrow> ladder (opposite (od_side t)) b = []"
proof -
  let ?s = "opposite (od_side t)"
  have ok: "book_ok {od_id t} M b" using assms by (simp add: matching_def)
  have bo: "best_ok ?s (levels_of ?s b) (best_price ?s b)" by (rule book_okD(5) [OF ok])
  show ?thesis
  proof
    assume e: "best_price ?s b = INVALID_PRICE"
    have "INVALID_PRICE \<notin> keys (levels_of ?s b)"
      using matching_prices [OF assms] INVALID_PRICE_neg by fastforce
    then have "levels_of ?s b = []" using bo e by (auto simp: best_ok_def split: if_split_asm)
    then show "ladder ?s b = []" by (simp add: ladder_Nil [OF ok])
  next
    assume "ladder ?s b = []"
    then show "best_price ?s b = INVALID_PRICE" using bo by (simp add: ladder_Nil [OF ok] best_ok_def)
  qed
qed

lemma matching_front:
  assumes "matching M t b" "ladder (opposite (od_side t)) b = (i, p, r) # ls"
  obtains m where "best_order (opposite (od_side t)) b = Some m" "od_id m = i" "od_price m = p" "remaining m = r"
    "od_side m = opposite (od_side t)" "dict_get (bk_orders b) i = Some m" "best_price (opposite (od_side t)) b = p"
    "i \<noteq> od_id t" "od_type m \<noteq> ICEBERG" "0 < r"
proof -
  let ?s = "opposite (od_side t)"
  have ok: "book_ok {od_id t} M b" and t: "dict_get (bk_orders b) (od_id t) = Some t"
    using assms by (simp_all add: matching_def)
  have v: "best_price ?s b \<noteq> INVALID_PRICE" "levels_of ?s b \<noteq> []"
    using matching_empty [OF assms(1)] ladder_Nil [OF ok, of ?s] assms(2) by simp_all
  obtain m ls' where m: "best_order ?s b = Some m" "ladder ?s b = (od_id m, od_price m, remaining m) # ls'"
    "od_side m = ?s" "od_price m = best_price ?s b" "dict_get (bk_orders b) (od_id m) = Some m"
    using ladder_front [OF ok v(2,1)] by blast
  have n: "od_id m \<noteq> od_id t"
  proof
    assume "od_id m = od_id t"
    with t have "dict_get (bk_orders b) (od_id m) = Some t" by (simp only:)
    from trans [OF m(5) [symmetric] this] have "od_side m = od_side t" by (simp only: option.inject)
    then show False unfolding m(3) by (rule notE [OF opposite_simps(1)])
  qed
  have "order_ok {od_id t} M b (od_id m) m" by (rule book_okD(6) [OF ok m(5)])
  then have "od_type m \<noteq> ICEBERG" "0 < remaining m" using n by (simp_all add: order_ok_def)
  moreover have e: "od_id m = i" "od_price m = p" "remaining m = r" using m(2) assms(2) by simp_all
  ultimately have r: "od_type m \<noteq> ICEBERG" "0 < r" by simp_all
  have "dict_get (bk_orders b) i = Some m" "best_price ?s b = p" "i \<noteq> od_id t"
    using m(4,5) n unfolding e by simp_all
  with r show thesis by (intro that [OF m(1) e m(3)])
qed

section \<open>The loop\<close>

text \<open>One round trades with the order at the top.\<close>

definition trade :: "int \<Rightarrow> order \<Rightarrow> order \<Rightarrow> order_book \<Rightarrow> order_book" where
  "trade qty m t b = resized qty (grown qty t) (resized qty (grown qty m) b)"

lemma trade_ok:
  assumes "matching M t b" "dict_get (bk_orders b) (od_id m) = Some m" "od_id m \<noteq> od_id t"
    "0 \<le> qty" "qty \<le> remaining t" "qty \<le> remaining m"
  shows "book_ok {od_id m, od_id t} M (trade qty m t b)"
    "dict_get (bk_orders (trade qty m t b)) (od_id t) = Some (grown qty t)"
    "dict_get (bk_orders (trade qty m t b)) (od_id m) = Some (grown qty m)"
    "ladder s (trade qty m t b) = take_from (od_id t) qty (take_from (od_id m) qty (ladder s b))"
proof -
  let ?b = "resized qty (grown qty m) b"
  have ok: "book_ok {od_id t} M b" and t: "dict_get (bk_orders b) (od_id t) = Some t"
    using assms(1) by (simp_all add: matching_def)
  have t1: "dict_get (bk_orders ?b) (od_id t) = Some t" using assms(3) t by simp
  have "book_ok {od_id m, od_id t} M ?b"
    using resized_ok [OF ok assms(2) smaller_grown, of qty] assms(6) by simp
  from resized_ok [OF this t1 smaller_grown, of qty] show "book_ok {od_id m, od_id t} M (trade qty m t b)"
    using assms(5) by (simp add: trade_def insert_commute)
  show "dict_get (bk_orders (trade qty m t b)) (od_id t) = Some (grown qty t)"
    "dict_get (bk_orders (trade qty m t b)) (od_id m) = Some (grown qty m)"
    using assms(3) by (simp_all add: trade_def)
  show "ladder s (trade qty m t b) = take_from (od_id t) qty (take_from (od_id m) qty (ladder s b))"
    using resized_ladder [OF t1 smaller_grown, of s qty] resized_ladder [OF assms(2) smaller_grown, of s qty]
    by (simp add: trade_def take_from_def)
qed

text \<open>The maker leaves the book when nothing is left of it.\<close>

definition settled :: "iteration \<Rightarrow> int \<Rightarrow> order \<Rightarrow> order_book \<Rightarrow> order_book" where
  "settled iter qty m b = (if remaining m \<le> qty then removed iter (grown qty m) b else b)"

lemma settled_matching:
  assumes "iter_ok iter" "matching M t b" "dict_get (bk_orders b) (od_id m) = Some m" "od_side m = opposite (od_side t)"
    "od_id m \<noteq> od_id t" "0 \<le> qty" "qty \<le> remaining t" "qty \<le> remaining m"
  shows "matching M (grown qty t) (settled iter qty m (trade qty m t b))"
proof -
  note T = trade_ok [OF assms(2,3,5-8)]
  have M: "M \<subseteq> {od_id t}" using assms(2) by (simp add: matching_def)
  show ?thesis
  proof (cases "remaining m \<le> qty")
    case True
    have "INVALID_PRICE \<notin> keys (levels_of (opposite (od_side t)) (trade qty m t b))"
      using matching_prices [OF assms(2)] INVALID_PRICE_neg by (fastforce simp: trade_def resized_keys)
    then have "book_ok ({od_id m, od_id t} - {od_id m}) (M - {od_id m}) (removed iter (grown qty m) (trade qty m t b))"
      using removed_ok [OF assms(1) T(1), of "grown qty m"] T(3) assms(4) by auto
    moreover have "{od_id m, od_id t} - {od_id m} = {od_id t}" "M - {od_id m} = M" using assms(5) M by auto
    ultimately show ?thesis using True T(2) assms(5) M by (simp add: matching_def settled_def)
  next
    case False
    then have "0 < left (trade qty m t b) (od_id m)" using T(3) by (simp add: left_def)
    then have "book_ok {od_id t} M (trade qty m t b)" by (intro book_ok_shrink [OF T(1)]) auto
    then show ?thesis using False T(2) M by (simp add: matching_def settled_def)
  qed
qed

lemma settled_ladders:
  assumes "matching M t b" "dict_get (bk_orders b) i = Some m" "od_id m = i" "od_side m = opposite (od_side t)"
    "i \<noteq> od_id t" "0 \<le> qty" "qty \<le> remaining t" "qty \<le> remaining m"
    "ladder (opposite (od_side t)) b = (i, p, remaining m) # ls"
  shows "ladder (opposite (od_side t)) (settled iter qty m (trade qty m t b)) =
      (if remaining m \<le> qty then ls else (i, p, remaining m - qty) # ls)"
    "ladder (od_side t) (settled iter qty m (trade qty m t b)) = take_from (od_id t) qty (ladder (od_side t) b)"
proof -
  let ?s = "opposite (od_side t)" and ?b = "trade qty m t b"
  have ok: "book_ok {od_id t} M b" and t: "dict_get (bk_orders b) (od_id t) = Some t"
    using assms(1) by (simp_all add: matching_def)
  have d: "dict_get (bk_orders b) (od_id m) = Some m" and ne: "od_id m \<noteq> od_id t" using assms(2,3,5) by simp_all
  note T = trade_ok [OF assms(1) d ne assms(6-8), unfolded assms(3)]
  have kept: "ladder s (settled iter qty m ?b) =
      (if remaining m \<le> qty then filter (\<lambda>(j, p, r). j \<noteq> i) (ladder s ?b) else ladder s ?b)" for s
    using removed_ladder [OF T(1), of "grown qty m" s iter] T(3) assms(3) by (simp add: settled_def)
  have n: "i \<notin> fst ` set ls" using ladder_distinct [OF ok, of ?s] assms(9) by simp
  have "od_id t \<notin> fst ` set (ladder ?s b)" by (rule other_side [OF ok t]) simp
  then have "ladder ?s ?b = (i, p, remaining m - qty) # ls"
    using n assms(5) unfolding T(4) assms(9) by (simp add: take_from_Cons take_from_absent)
  then show "ladder ?s (settled iter qty m ?b) = (if remaining m \<le> qty then ls else (i, p, remaining m - qty) # ls)"
    using n by (auto simp: kept filter_id_conv image_iff)
  have o: "i \<notin> fst ` set (ladder (od_side t) b)" by (rule other_side [OF ok assms(2)]) (simp add: assms(4))
  then have "ladder (od_side t) ?b = take_from (od_id t) qty (ladder (od_side t) b)"
    unfolding T(4) by (simp add: take_from_absent)
  then show "ladder (od_side t) (settled iter qty m ?b) = take_from (od_id t) qty (ladder (od_side t) b)"
    using o by (auto simp: kept filter_id_conv take_from_def image_iff)
qed

lemma match_round_some:
  assumes "iter_ok iter" "matching M t b" "od_type t \<noteq> ICEBERG" "0 < remaining t" "mx_book e = b"
    "ladder (opposite (od_side t)) b = (i, p, r) # ls" "\<not> out_of_reach t p"
  defines "qty \<equiv> min (remaining t) r"
  obtains e' where "match_round iter (od_id t) e = Some e'" "matching M (grown qty t) (mx_book e')"
    "ladder (opposite (od_side t)) (mx_book e') = (if r \<le> remaining t then ls else (i, p, r - qty) # ls)"
    "ladder (od_side t) (mx_book e') = take_from (od_id t) qty (ladder (od_side t) b)"
    "mx_fills e' = mx_fills e @ [fill_of (mx_fees e) (od_id t) (i, p, qty)]" "mx_fees e' = mx_fees e"
    "mx_out e' = mx_out e"
proof -
  let ?s = "opposite (od_side t)" and ?t = "od_id t"
  have t: "dict_get (bk_orders b) ?t = Some t" using assms(2) by (simp add: matching_def)
  obtain m where m: "best_order ?s b = Some m" "od_id m = i" "od_price m = p" "remaining m = r"
    "od_side m = ?s" "dict_get (bk_orders b) i = Some m" "best_price ?s b = p" "i \<noteq> ?t" "od_type m \<noteq> ICEBERG" "0 < r"
    by (rule matching_front [OF assms(2,6)])
  have q: "0 \<le> qty" "qty \<le> remaining t" "qty \<le> remaining m" "remaining m \<le> qty \<longleftrightarrow> r \<le> remaining t"
    using m(4,10) assms(4) by (auto simp: qty_def)
  have v: "p \<noteq> INVALID_PRICE" using matching_empty [OF assms(2)] assms(6) m(7) by simp
  define e' where "e' = settle_maker iter (grown qty m) (execute_fill m t qty e)"
  have round: "match_round iter ?t e = Some e'"
    using t assms(3-5,7) v m by (simp add: match_round_def maker_available_def Let_def qty_def e'_def grown_def)
  have book: "mx_book e' = settled iter qty m (trade qty m t b)"
    using m(9) by (simp add: e'_def settle_maker_def is_filled_grown on_book_def settled_def trade_def
        execute_fill_book assms(5) removed_def)
  have d: "dict_get (bk_orders b) (od_id m) = Some m" and ne: "od_id m \<noteq> ?t" using m(2,6,8) by simp_all
  have "ladder ?s b = (i, p, remaining m) # ls" using assms(6) m(4) by simp
  note L = settled_ladders [OF assms(2) m(6,2,5,8) q(1-3) this, of iter]
  have "mx_fills e' = mx_fills e @ [fill_of (mx_fees e) ?t (i, p, qty)]" "mx_fees e' = mx_fees e" "mx_out e' = mx_out e"
    using m(2,3,9) by (simp_all add: e'_def settle_maker_def execute_fill_def Let_def on_book_def fill_of_def)
  with that [OF round] show thesis
    using L settled_matching [OF assms(1,2) d m(5) ne q(1-3)] q(4) m(4) unfolding book by simp
qed

lemma out_of_reach_grown [simp]: "out_of_reach (grown q t) p = out_of_reach t p"
  by (simp add: out_of_reach_def)

text \<open>The loop ends when the order is filled, the other side is empty, or its best price is out of reach.\<close>

lemma match_round_none:
  assumes "matching M t (mx_book e)"
    "remaining t \<le> 0 \<or> ladder (opposite (od_side t)) (mx_book e) = [] \<or>
     (\<exists>i p r ls. ladder (opposite (od_side t)) (mx_book e) = (i, p, r) # ls \<and> out_of_reach t p)"
  shows "match_round iter (od_id t) e = None"
proof -
  have t: "dict_get (bk_orders (mx_book e)) (od_id t) = Some t" using assms(1) by (simp add: matching_def)
  from assms(2) consider "remaining t \<le> 0" | "ladder (opposite (od_side t)) (mx_book e) = []"
    | i p r ls where "ladder (opposite (od_side t)) (mx_book e) = (i, p, r) # ls" "out_of_reach t p" by blast
  then show ?thesis
  proof cases
    case 1
    then show ?thesis using t by (simp add: match_round_def Let_def)
  next
    case 2
    then show ?thesis using t matching_empty [OF assms(1)] by (simp add: match_round_def Let_def)
  next
    case (3 i p r ls)
    from matching_front [OF assms(1) 3(1)] have "best_price (opposite (od_side t)) (mx_book e) = p" by metis
    then show ?thesis using t 3(2) by (simp add: match_round_def Let_def)
  qed
qed

definition match_result :: "iteration \<Rightarrow> int set \<Rightarrow> order \<Rightarrow> engine \<Rightarrow> int \<Rightarrow> rungs \<Rightarrow> rungs \<Rightarrow> engine \<Rightarrow> bool" where
  "match_result iter M t e q ls fs e' \<longleftrightarrow> match_order iter (od_id t) e = Some e' \<and>
     matching M (grown (remaining t - q) t) (mx_book e') \<and>
     ladder (opposite (od_side t)) (mx_book e') = ls \<and>
     ladder (od_side t) (mx_book e') = take_from (od_id t) (remaining t - q) (ladder (od_side t) (mx_book e)) \<and>
     mx_fills e' = mx_fills e @ map (fill_of (mx_fees e) (od_id t)) fs \<and> mx_fees e' = mx_fees e \<and>
     mx_out e' = mx_out e"

lemma match_stop:
  assumes "matching M t (mx_book e)" "match_round iter (od_id t) e = None"
  shows "match_result iter M t e (remaining t) (ladder (opposite (od_side t)) (mx_book e)) [] e"
  using assms by (subst match_result_def, subst match_order.simps) (simp add: take_from_simps)

lemma match_continue:
  assumes "match_round iter (od_id t) e = Some e1" "match_result iter M (grown k t) e1 q ls fs e'"
    "mx_fills e1 = mx_fills e @ [fill_of (mx_fees e) (od_id t) f]" "mx_fees e1 = mx_fees e" "mx_out e1 = mx_out e"
    "ladder (od_side t) (mx_book e1) = take_from (od_id t) k (ladder (od_side t) (mx_book e))"
  shows "match_result iter M t e q ls (f # fs) e'"
proof -
  have "match_order iter (od_id t) e = match_order iter (od_id t) e1"
    using assms(1) by (subst match_order.simps) simp
  then show ?thesis using assms(2-) by (simp add: match_result_def take_from_simps)
qed

lemma match_order_refines:
  assumes "iter_ok iter" "od_type t \<noteq> ICEBERG" "matching M t (mx_book e)"
    "spec_match (\<lambda>p. \<not> out_of_reach t p) (remaining t) (ladder (opposite (od_side t)) (mx_book e)) = (q, ls, fs)"
  shows "\<exists>e'. match_result iter M t e q ls fs e'"
  using assms(2-)
proof (induction "ladder (opposite (od_side t)) (mx_book e)" arbitrary: t e q ls fs)
  case Nil
  then have "match_round iter (od_id t) e = None" by (intro match_round_none) simp_all
  from match_stop [OF Nil(3) this] show ?case using Nil by (simp flip: Nil(1)) blast
next
  case (Cons x xs)
  obtain i p r where x: "x = (i, p, r)" by (cases x)
  have lad: "ladder (opposite (od_side t)) (mx_book e) = (i, p, r) # xs" using Cons(2) x by simp
  show ?case
  proof (cases "remaining t \<le> 0 \<or> out_of_reach t p")
    case True
    then have "match_round iter (od_id t) e = None"
      using lad by (intro match_round_none [OF Cons(4)]) auto
    from match_stop [OF Cons(4) this] show ?thesis using Cons(5) True unfolding lad by auto
  next
    case False
    then have pos: "0 < remaining t" "\<not> out_of_reach t p" by simp_all
    let ?qty = "min (remaining t) r"
    obtain e1 where e1: "match_round iter (od_id t) e = Some e1" "matching M (grown ?qty t) (mx_book e1)"
      "ladder (opposite (od_side t)) (mx_book e1) = (if r \<le> remaining t then xs else (i, p, r - ?qty) # xs)"
      "ladder (od_side t) (mx_book e1) = take_from (od_id t) ?qty (ladder (od_side t) (mx_book e))"
      "mx_fills e1 = mx_fills e @ [fill_of (mx_fees e) (od_id t) (i, p, ?qty)]" "mx_fees e1 = mx_fees e"
      "mx_out e1 = mx_out e"
      by (rule match_round_some [OF assms(1) Cons(4,3) pos(1) refl lad pos(2)])
    show ?thesis
    proof (cases "r \<le> remaining t")
      case True
      then obtain fs' where fs': "spec_match (\<lambda>p. \<not> out_of_reach t p) (remaining t - r) xs = (q, ls, fs')"
        "fs = (i, p, r) # fs'"
        using Cons(5) pos lad by (auto split: prod.split_asm)
      have "\<exists>e'. match_result iter M (grown ?qty t) e1 q ls fs' e'"
        by (rule Cons(1)) (use True e1(2,3) fs'(1) Cons(3) in \<open>simp_all add: min_absorb2\<close>)
      then obtain e' where "match_result iter M (grown ?qty t) e1 q ls fs' e'" by blast
      from match_continue [OF e1(1) this e1(5,6,7,4)] show ?thesis using True fs'(2) by (auto simp: min_absorb2)
    next
      case False
      then have res: "q = 0" "ls = (i, p, r - remaining t) # xs" "fs = [(i, p, remaining t)]"
        using Cons(5) pos lad by simp_all
      have "match_round iter (od_id (grown ?qty t)) e1 = None"
        using False by (intro match_round_none [OF e1(2)]) simp
      from match_continue [OF e1(1) match_stop [OF e1(2) this] e1(5,6,7,4)] show ?thesis
        using False e1(3) by (auto simp: res min_absorb1)
    qed
  qed
qed

end
