(* ===== verification/Engine_Commands.thy ===== *)
theory Engine_Commands
  imports Match_Refinement
begin

text \<open>
  What each command of the matching engine does to the two ladders: a limit order is matched and the
  rest of it queued, a market order is matched, a cancellation takes one order off, a modification
  lowers a quantity in place or moves the order.
\<close>

section \<open>The abstract book\<close>

type_synonym book_view = "side \<Rightarrow> rungs"

definition view :: "order_book \<Rightarrow> book_view" where
  "view b = (\<lambda>s. ladder s b)"

definition reaches :: "side \<Rightarrow> int \<Rightarrow> int \<Rightarrow> bool" where
  "reaches side price p \<longleftrightarrow> (if side = BID then p \<le> price else price \<le> p)"

definition spec_insert :: "side \<Rightarrow> int \<Rightarrow> int \<Rightarrow> int \<Rightarrow> rungs \<Rightarrow> rungs" where
  "spec_insert side oid price q ls =
     filter (\<lambda>(j, p, r). price_rank side p \<le> price_rank side price) ls @ [(oid, price, q)] @
     filter (\<lambda>(j, p, r). price_rank side price < price_rank side p) ls"

definition spec_limit :: "int \<Rightarrow> side \<Rightarrow> int \<Rightarrow> int \<Rightarrow> book_view \<Rightarrow> book_view \<times> rungs" where
  "spec_limit oid side price qty V =
     (case spec_match (reaches side price) qty (V (opposite side)) of
        (q, ls, fs) \<Rightarrow>
          (V(opposite side := ls, side := (if 0 < q then spec_insert side oid price q (V side) else V side)), fs))"

lemma reaches_reach: "od_type t = LIMIT \<Longrightarrow> \<not> out_of_reach t p \<longleftrightarrow> reaches (od_side t) (od_price t) p"
  by (auto simp: out_of_reach_def reaches_def)

lemma reaches_rank: "reaches s price p \<Longrightarrow> price_rank (opposite s) p' \<le> price_rank (opposite s) p \<Longrightarrow> reaches s price p'"
  by (cases s) (auto simp: reaches_def price_rank_def)

lemma ladder_ranks: "sorted (map (\<lambda>(j, p, r). price_rank s p) (ladder s b))"
proof -
  have step: "sorted (map (\<lambda>(j, p, r). price_rank s p) (concat (map (rung b d) ps)))" if "sorted (map (price_rank s) ps)" for d ps
    using that
  proof (induction ps)
    case (Cons p ps)
    have "map (\<lambda>(j, p, r). price_rank s p) (rung b d p) = replicate (length (rung b d p)) (price_rank s p)"
      by (auto simp: rung_def comp_def map_replicate_const split: option.split)
    moreover have "\<forall>x \<in> set (concat (map (rung b d) ps)). price_rank s p \<le> (case x of (j, q, r) \<Rightarrow> price_rank s q)"
      using Cons.prems by (auto dest!: in_rung)
    ultimately show ?case using Cons by (auto simp: sorted_append)
  qed simp
  show ?thesis unfolding ladder_def by (rule step [OF sorted_prices])
qed

lemma sorted_two: "sorted (map f xs) \<Longrightarrow> filter (\<lambda>x. f x \<le> (a::int)) xs @ filter (\<lambda>x. a < f x) xs = xs"
proof (induction xs)
  case (Cons x xs)
  show ?case
  proof (cases "f x \<le> a")
    case False
    then have "\<forall>y \<in> set xs. a < f y" using Cons.prems by force
    then have "filter (\<lambda>x. f x \<le> a) xs = []" "filter (\<lambda>x. a < f x) xs = xs"
      by (auto simp: filter_empty_conv filter_id_conv)
    then show ?thesis using False by simp
  qed (use Cons in simp)
qed simp

lemma ladder_two:
  "filter (\<lambda>(j, p, r). price_rank s p \<le> a) (ladder s b) @ filter (\<lambda>(j, p, r). a < price_rank s p) (ladder s b) = ladder s b"
  using sorted_two [OF ladder_ranks [of s b], of a] by (simp add: case_prod_unfold)

lemma take_from_insert:
  assumes "oid \<notin> fst ` set ls"
  shows "take_from oid k (spec_insert side oid price q ls) = spec_insert side oid price (q - k) ls"
proof -
  have "take_from oid k (filter P ls) = filter P ls" for P
    using assms by (intro take_from_absent) auto
  then show ?thesis by (simp add: spec_insert_def take_from_def)
qed

lemma drop_insert:
  assumes "oid \<notin> fst ` set (ladder side b)"
  shows "filter (\<lambda>(j, p, r). j \<noteq> oid) (spec_insert side oid price q (ladder side b)) = ladder side b"
proof -
  have f: "filter (\<lambda>(j, p, r). j \<noteq> oid) (filter P (ladder side b)) = filter P (ladder side b)" for P
    using assms by (intro filter_True) force
  show ?thesis unfolding spec_insert_def filter_append f using ladder_two by simp
qed

section \<open>Limit orders\<close>

lemma crosses_iff:
  assumes "matching M t b" "od_type t = LIMIT"
  shows "crosses (od_side t) (od_price t) b \<longleftrightarrow>
    (\<exists>i p r ls. ladder (opposite (od_side t)) b = (i, p, r) # ls \<and> \<not> out_of_reach t p)"
proof (cases "ladder (opposite (od_side t)) b")
  case Nil
  then have "best_price (opposite (od_side t)) b = INVALID_PRICE" using matching_empty [OF assms(1)] by simp
  then show ?thesis using Nil by (cases "od_side t") (simp_all add: crosses_def)
next
  case (Cons x ls)
  obtain i p r where x: "x = (i, p, r)" by (cases x)
  have lad: "ladder (opposite (od_side t)) b = (i, p, r) # ls" using Cons x by simp
  have "best_price (opposite (od_side t)) b = p" using matching_front [OF assms(1) lad] by metis
  moreover have "best_price (opposite (od_side t)) b \<noteq> INVALID_PRICE"
    using matching_empty [OF assms(1)] lad by simp
  ultimately show ?thesis using lad assms(2)
    by (cases "od_side t") (simp_all add: crosses_def out_of_reach_def not_less)
qed

text \<open>The engine's test whether the order crosses only saves a call that would do nothing.\<close>

lemma resting_match:
  assumes "matching {} t b1" "od_type t = LIMIT" "t = limit_order oid side price qty ts" "0 < qty"
    "add_order oid side price qty ts (mx_book e) = Some b1"
  shows "process_resting iter oid side LIMIT price qty ts dq e =
    (case match_order iter oid (e\<lparr>mx_book := b1\<rparr>) of
       None \<Rightarrow> None
     | Some e2 \<Rightarrow> if left_of oid e2 \<le> 0 then Some (None, drop_order iter oid e2) else Some (Some oid, e2))"
proof (cases "crosses side price b1")
  case False
  let ?e1 = "e\<lparr>mx_book := b1\<rparr>"
  have t: "od_id t = oid" "od_side t = side" "od_price t = price" "remaining t = qty"
    by (simp_all add: assms(3) limit_order_def remaining_def)
  have m: "matching {} t (mx_book ?e1)" using assms(1) by simp
  have "match_round iter oid ?e1 = None"
  proof (cases "ladder (opposite side) b1")
    case Nil
    then show ?thesis using match_round_none [OF m, of iter] t by simp
  next
    case (Cons x ls)
    then show ?thesis using match_round_none [OF m, of iter] crosses_iff [OF assms(1,2)] False t by (cases x) simp
  qed
  then have "match_order iter oid ?e1 = Some ?e1" by (subst match_order.simps) simp
  moreover have "left_of oid ?e1 = qty" using assms(1) t by (simp add: left_of_def matching_def)
  ultimately show ?thesis using False assms(4,5) by (simp add: process_resting_def)
qed (simp add: process_resting_def assms(5))

lemma matching_insert:
  assumes "book_ok {} {} b" "dict_get (bk_orders b) oid = None" "0 < bk_free b" "0 < qty" "0 < price"
  shows "matching {} (limit_order oid side price qty ts)
    (insert_order (limit_order oid side price qty ts) (limit_order oid side price qty ts) b)"
proof -
  let ?t = "limit_order oid side price qty ts"
  have t: "od_id ?t = oid" "od_type ?t = LIMIT" "od_price ?t = price" "remaining ?t = qty"
    by (simp_all add: limit_order_def remaining_def)
  have "book_ok {} {} (insert_order ?t ?t b)" by (rule insert_ok [OF assms(1)]) (simp_all add: t assms)
  then have "book_ok {oid} {} (insert_order ?t ?t b)" by (rule book_ok_mono) simp_all
  then show ?thesis by (simp add: matching_def t)
qed

text \<open>An order of the loop that leaves the book takes the exceptions with it.\<close>

lemma matching_removed:
  assumes "iter_ok iter" "matching M t b"
  shows "book_ok {} {} (removed iter t b)"
    "ladder s (removed iter t b) = filter (\<lambda>(j, p, r). j \<noteq> od_id t) (ladder s b)"
proof -
  have ok: "book_ok {od_id t} M b" and M: "M \<subseteq> {od_id t}" and t: "dict_get (bk_orders b) (od_id t) = Some t"
    using assms(2) by (simp_all add: matching_def)
  have "\<forall>p \<in> keys (levels_of (od_side t) b). p \<noteq> od_price t \<longrightarrow> p \<noteq> INVALID_PRICE"
  proof (intro ballI impI)
    fix p assume p: "p \<in> keys (levels_of (od_side t) b)" "p \<noteq> od_price t"
    have "0 < p" by (rule valid_prices [OF ok p(1)]) (use M t p(2) in auto)
    then show "p \<noteq> INVALID_PRICE" using INVALID_PRICE_neg by auto
  qed
  from removed_ok [OF assms(1) ok t this] show "book_ok {} {} (removed iter t b)"
    using M by (simp add: Diff_eq_empty_iff [THEN iffD2])
  show "ladder s (removed iter t b) = filter (\<lambda>(j, p, r). j \<noteq> od_id t) (ladder s b)"
    by (rule removed_ladder [OF ok t])
qed

text \<open>What every command keeps of the rest of the engine, and what it appends to the history of fills.\<close>

definition filled_from :: "engine \<Rightarrow> int \<Rightarrow> rungs \<Rightarrow> engine \<Rightarrow> bool" where
  "filled_from e oid fs e' \<longleftrightarrow> mx_fills e' = mx_fills e @ map (fill_of (mx_fees e) oid) fs \<and>
     mx_fees e' = mx_fees e \<and> mx_out e' = mx_out e"

lemma drop_order_removed:
  "dict_get (bk_orders (mx_book e)) oid = Some t \<Longrightarrow> mx_book (drop_order iter oid e) = removed iter t (mx_book e)"
  by (simp add: drop_order_def on_book_def removed_def)

lemma drop_order_fields [simp]:
  "mx_fills (drop_order iter oid e) = mx_fills e" "mx_fees (drop_order iter oid e) = mx_fees e"
  "mx_out (drop_order iter oid e) = mx_out e"
  by (simp_all add: drop_order_def on_book_def split: option.split)

lemma view_eqI: "ladder side b = V side \<Longrightarrow> ladder (opposite side) b = V (opposite side) \<Longrightarrow> view b = V"
  using side_cases [of _ side] by (fastforce simp: view_def)

text \<open>An order that was added to the book \<open>b\<close> and has been through the matching loop.\<close>

definition added :: "int set \<Rightarrow> order \<Rightarrow> order_book \<Rightarrow> order_book \<Rightarrow> bool" where
  "added M t b b1 \<longleftrightarrow> book_ok {} {} b \<and> dict_get (bk_orders b) (od_id t) = None \<and> matching M t b1 \<and>
     ladder (opposite (od_side t)) b1 = ladder (opposite (od_side t)) b \<and>
     ladder (od_side t) b1 = spec_insert (od_side t) (od_id t) (od_price t) (remaining t) (ladder (od_side t) b)"

lemma added_fresh:
  assumes "added M t b b1"
  shows "od_id t \<notin> fst ` set (ladder s b)"
proof -
  have "book_ok {} {} b" "dict_get (bk_orders b) (od_id t) = None" using assms by (simp_all add: added_def)
  then show ?thesis using ladder_entry by fastforce
qed

lemma added_matched:
  assumes "added M t b (mx_book e1)" "match_result iter M t e1 q ls fs e2"
  shows "0 \<le> q" "left_of (od_id t) e2 = q"
    "dict_get (bk_orders (mx_book e2)) (od_id t) = Some (grown (remaining t - q) t)"
    "ladder (opposite (od_side t)) (mx_book e2) = ls"
    "ladder (od_side t) (mx_book e2) = spec_insert (od_side t) (od_id t) (od_price t) q (ladder (od_side t) b)"
    "book_ok {od_id t} M (mx_book e2)"
proof -
  have g: "matching M (grown (remaining t - q) t) (mx_book e2)" using assms(2) by (simp add: match_result_def)
  then show d: "dict_get (bk_orders (mx_book e2)) (od_id t) = Some (grown (remaining t - q) t)" and
      ok: "book_ok {od_id t} M (mx_book e2)" by (simp_all add: matching_def)
  show "0 \<le> q" using book_okD(6) [OF ok d] by (simp add: order_ok_def)
  show "left_of (od_id t) e2 = q" using d by (simp add: left_of_def)
  show "ladder (opposite (od_side t)) (mx_book e2) = ls" using assms(2) by (simp add: match_result_def)
  have "ladder (od_side t) (mx_book e2) = take_from (od_id t) (remaining t - q) (ladder (od_side t) (mx_book e1))"
    using assms(2) by (simp add: match_result_def)
  then show "ladder (od_side t) (mx_book e2) = spec_insert (od_side t) (od_id t) (od_price t) q (ladder (od_side t) b)"
    using take_from_insert [OF added_fresh [OF assms(1)]] assms(1) by (simp add: added_def)
qed

lemma added_dropped:
  assumes "iter_ok iter" "added M t b (mx_book e1)" "match_result iter M t e1 q ls fs e2"
  shows "book_ok {} {} (mx_book (drop_order iter (od_id t) e2))"
    "ladder (opposite (od_side t)) (mx_book (drop_order iter (od_id t) e2)) = ls"
    "ladder (od_side t) (mx_book (drop_order iter (od_id t) e2)) = ladder (od_side t) b"
proof -
  let ?t = "grown (remaining t - q) t"
  note A = added_matched [OF assms(2,3)]
  have g: "matching M ?t (mx_book e2)" using assms(3) by (simp add: match_result_def)
  have e: "mx_book (drop_order iter (od_id t) e2) = removed iter ?t (mx_book e2)" by (rule drop_order_removed [OF A(3)])
  show "book_ok {} {} (mx_book (drop_order iter (od_id t) e2))"
    unfolding e by (rule matching_removed(1) [OF assms(1) g])
  have l: "ladder s (mx_book (drop_order iter (od_id t) e2)) = filter (\<lambda>(j, p, r). j \<noteq> od_id t) (ladder s (mx_book e2))" for s
    using matching_removed(2) [OF assms(1) g] by (simp add: e)
  have "od_id t \<notin> fst ` set ls" using other_side [OF A(6,3), of "opposite (od_side t)"] A(4) by simp
  then show "ladder (opposite (od_side t)) (mx_book (drop_order iter (od_id t) e2)) = ls"
    unfolding l A(4) by (force intro!: filter_True)
  show "ladder (od_side t) (mx_book (drop_order iter (od_id t) e2)) = ladder (od_side t) b"
    unfolding l A(5) by (rule drop_insert [OF added_fresh [OF assms(2)]])
qed

lemma process_resting_refines:
  assumes "iter_ok iter" "book_ok {} {} (mx_book e)" "dict_get (bk_orders (mx_book e)) oid = None"
    "0 < bk_free (mx_book e)" "0 < qty" "0 < price"
    "spec_limit oid side price qty (view (mx_book e)) = (V, fs)"
  shows "\<exists>e'. process_resting iter oid side LIMIT price qty ts dq e =
      Some (if oid \<in> fst ` set (V side) then Some oid else None, e') \<and>
    book_ok {} {} (mx_book e') \<and> view (mx_book e') = V \<and> filled_from e oid fs e'"
proof -
  define t where "t = limit_order oid side price qty ts"
  let ?b = "mx_book e" and ?e = "e\<lparr>mx_book := insert_order t t (mx_book e)\<rparr>"
  have t: "od_id t = oid" "od_side t = side" "od_price t = price" "remaining t = qty" "od_type t = LIMIT"
    by (simp_all add: t_def limit_order_def remaining_def)
  have m: "matching {} t (mx_book ?e)" unfolding t_def using matching_insert [OF assms(2-6)] by simp
  have a: "added {} t ?b (mx_book ?e)"
    using m assms(2,3) insert_ladder [OF assms(2), of t] by (simp add: added_def t spec_insert_def)
  obtain q ls where sp: "spec_match (reaches side price) qty (ladder (opposite side) ?b) = (q, ls, fs)"
    and V: "V = (view ?b)(opposite side := ls, side := (if 0 < q then spec_insert side oid price q (ladder side ?b) else ladder side ?b))"
    using assms(7) by (auto simp: spec_limit_def view_def split: prod.split_asm)
  have "(\<lambda>p. \<not> out_of_reach t p) = reaches side price" using reaches_reach [OF t(5)] t by auto
  then obtain e2 where e2: "match_result iter {} t ?e q ls fs e2"
    using match_order_refines [OF assms(1), of t "{}" ?e q ls fs] m sp t a by (auto simp: added_def)
  note A = added_matched [OF a e2, unfolded t] and D = added_dropped [OF assms(1) a e2, unfolded t]
  have f: "filled_from e oid fs e2" using e2 by (simp add: match_result_def filled_from_def t)
  have "add_order oid side price qty ts ?b = Some (mx_book ?e)"
    using assms(3,4) by (simp add: add_order_def t_def Let_def)
  then have run: "process_resting iter oid side LIMIT price qty ts dq e =
      (if q \<le> 0 then Some (None, drop_order iter oid e2) else Some (Some oid, e2))"
    using resting_match [OF m t(5) t_def assms(5), of e iter dq] e2 A(2) by (simp add: match_result_def t)
  show ?thesis
  proof (cases "0 < q")
    case True
    then have "left (mx_book e2) oid = q" using A(3) by (simp add: left_def t)
    then have "book_ok {} {} (mx_book e2)" using True by (intro book_ok_shrink [OF A(6)]) simp
    moreover have "oid \<in> fst ` set (V side)" using True by (simp add: V spec_insert_def)
    moreover have "view (mx_book e2) = V" using A True by (intro view_eqI [of side]) (simp_all add: V)
    ultimately show ?thesis using run True f by auto
  next
    case False
    then have "view (mx_book (drop_order iter oid e2)) = V" using D by (intro view_eqI [of side]) (simp_all add: V)
    moreover have "oid \<notin> fst ` set (V side)" using False added_fresh [OF a, unfolded t] by (simp add: V)
    ultimately show ?thesis using run False f D(1) by (auto simp: filled_from_def)
  qed
qed

lemma limit_refines:
  assumes "iter_ok iter" "book_ok {} {} (mx_book e)" "dict_get (bk_orders (mx_book e)) oid = None"
    "0 < bk_free (mx_book e)" "0 < qty" "0 < price"
    "spec_limit oid side price qty (view (mx_book e)) = (V, fs)"
  shows "\<exists>e'. process_new_order iter oid side LIMIT price qty ts dq e =
      Some (if oid \<in> fst ` set (V side) then Some oid else None, e') \<and>
    book_ok {} {} (mx_book e') \<and> view (mx_book e') = V \<and> filled_from e oid fs e'"
proof -
  let ?e = "e\<lparr>mx_total_orders := mx_total_orders e + 1\<rparr>"
  have "process_new_order iter oid side LIMIT price qty ts dq e = process_resting iter oid side LIMIT price qty ts dq ?e"
    using assms(5,6) by (simp add: process_new_order_def)
  moreover have "filled_from ?e oid fs = filled_from e oid fs" by (simp add: filled_from_def fun_eq_iff)
  ultimately show ?thesis using process_resting_refines [of iter ?e oid qty price side V fs ts dq] assms by simp
qed

section \<open>Market orders\<close>

lemma set_type_levels [simp]:
  "levels_of s (set_type oid ty b) = levels_of s b" "best_price s (set_type oid ty b) = best_price s b"
  "bk_free (set_type oid ty b) = bk_free b"
  by (simp_all add: set_type_def split: option.split)

lemma set_type_orders:
  assumes "dict_get (bk_orders b) oid = Some t"
  shows "bk_orders (set_type oid ty b) = dict_set oid (t\<lparr>od_type := ty\<rparr>) (bk_orders b)"
  using assms by (simp add: set_type_def)

lemma remaining_type [simp]: "remaining (t\<lparr>od_type := ty\<rparr>) = remaining t"
  by (simp add: remaining_def)

lemma left_set_type [simp]: "left (set_type oid ty b) = left b"
proof
  fix i show "left (set_type oid ty b) i = left b i"
    by (cases "dict_get (bk_orders b) oid") (simp_all add: left_def set_type_def)
qed

lemma ladder_set_type [simp]: "ladder s (set_type oid ty b) = ladder s b"
  unfolding ladder_def rung_def [abs_def] left_set_type set_type_levels ..

lemma set_type_ok:
  assumes "book_ok Z M b" "dict_get (bk_orders b) oid = Some t" "oid \<in> M"
  shows "book_ok Z M (set_type oid MARKET b)"
proof -
  let ?b = "set_type oid MARKET b"
  have os: "dict_get (bk_orders ?b) i = (if i = oid then Some (t\<lparr>od_type := MARKET\<rparr>) else dict_get (bk_orders b) i)" for i
    using assms(2) by (simp add: set_type_orders)
  have "level_ok ?b s p l" if "level_ok b s p l" for s p l
    using that assms(2) unfolding level_ok_def by (auto simp: os)
  then have sides: "side_ok s ?b" for s
    using book_okD(1) [OF assms(1), of s] unfolding side_ok_def by fastforce
  have orders: "order_ok Z M ?b i o1" if "dict_get (bk_orders ?b) i = Some o1" for i o1
  proof (cases "i = oid")
    case True
    then have e: "o1 = t\<lparr>od_type := MARKET\<rparr>" using that os by simp
    show ?thesis using book_okD(6) [OF assms(1,2)] assms(3) unfolding True e order_ok_def by simp
  next
    case False
    then show ?thesis using book_okD(6) [OF assms(1), of i o1] that by (simp add: os order_ok_def)
  qed
  have dk: "dict_ok (bk_orders ?b)" using book_okD(3) [OF assms(1)] assms(2) by (simp add: set_type_orders)
  have "\<forall>(i, o1) \<in> set (bk_orders ?b). order_ok Z M ?b i o1"
    using orders by (auto simp: dict_get_iff [OF dk])
  then show ?thesis using sides dk book_okD(7) [OF assms(1)] assms(2)
    by (simp add: book_ok_def length_dict_set set_type_orders)
qed

text \<open>A market order trades with whatever is there. What is left of it leaves the book; the engine has
  no such step for an order that was filled.\<close>

definition market_order :: "int \<Rightarrow> side \<Rightarrow> int \<Rightarrow> int \<Rightarrow> order" where
  "market_order oid side qty ts = (limit_order oid side (market_price side) qty ts)\<lparr>od_type := MARKET\<rparr>"

lemma market_refines:
  assumes "iter_ok iter" "book_ok {} {} (mx_book e)" "dict_get (bk_orders (mx_book e)) oid = None"
    "0 < bk_free (mx_book e)" "0 < qty"
    "spec_match (\<lambda>p. True) qty (ladder (opposite side) (mx_book e)) = (q, ls, fs)"
  shows "\<exists>e'. process_new_order iter oid side MARKET price qty ts dq e = Some (None, e') \<and>
    filled_from e oid fs e' \<and> ladder (opposite side) (mx_book e') = ls \<and> 0 \<le> q \<and>
    (if 0 < q then book_ok {} {} (mx_book e') \<and> ladder side (mx_book e') = ladder side (mx_book e)
     else matching {oid} (grown qty (market_order oid side qty ts)) (mx_book e') \<and>
       ladder side (mx_book e') = spec_insert side oid (market_price side) 0 (ladder side (mx_book e)))"
proof -
  define t0 where "t0 = limit_order oid side (market_price side) qty ts"
  define t where "t = market_order oid side qty ts"
  let ?b = "mx_book e" and ?bi = "insert_order t0 t0 (mx_book e)"
  let ?e = "e\<lparr>mx_total_orders := mx_total_orders e + 1, mx_book := set_type oid MARKET ?bi\<rparr>"
  have t0: "od_id t0 = oid" "od_side t0 = side" "od_price t0 = market_price side" "remaining t0 = qty" "od_type t0 = LIMIT"
    by (simp_all add: t0_def limit_order_def remaining_def)
  have t: "od_id t = oid" "od_side t = side" "od_price t = market_price side" "remaining t = qty" "od_type t = MARKET"
    and tt: "t = t0\<lparr>od_type := MARKET\<rparr>"
    using t0 by (simp_all add: t_def market_order_def t0_def [symmetric])
  have ok0: "book_ok {} {oid} ?bi" by (rule insert_ok [OF assms(2)]) (simp_all add: t0 assms)
  have d0: "dict_get (bk_orders ?bi) oid = Some t0" by (simp add: t0)
  have "book_ok {} {oid} (set_type oid MARKET ?bi)" by (rule set_type_ok [OF ok0 d0]) simp
  then have "book_ok {oid} {oid} (set_type oid MARKET ?bi)" by (rule book_ok_mono) simp_all
  then have m: "matching {oid} t (mx_book ?e)" using d0 t0(1) by (simp add: matching_def t(1) set_type_orders tt)
  have a: "added {oid} t ?b (mx_book ?e)"
    using m assms(2,3) insert_ladder [OF assms(2), of t0] t0 by (simp add: added_def t spec_insert_def)
  have "(\<lambda>p. \<not> out_of_reach t p) = (\<lambda>p. True)" by (simp add: out_of_reach_def t)
  then obtain e2 where e2: "match_result iter {oid} t ?e q ls fs e2"
    using match_order_refines [OF assms(1), of t "{oid}" ?e q ls fs] m assms(6) t a by (auto simp: added_def)
  note A = added_matched [OF a e2, unfolded t] and D = added_dropped [OF assms(1) a e2, unfolded t]
  have f: "filled_from e oid fs e2" using e2 by (simp add: match_result_def filled_from_def t)
  have "add_order oid side (market_price side) qty ts ?b = Some ?bi"
    using assms(3,4) by (simp add: add_order_def t0_def Let_def)
  then have run: "process_new_order iter oid side MARKET price qty ts dq e =
      Some (None, if 0 < q then drop_order iter oid e2 else e2)"
    using assms(5) e2 A(2) by (simp add: process_new_order_def process_market_def match_result_def t)
  show ?thesis
  proof (cases "0 < q")
    case True
    then show ?thesis using run f D by (auto simp: filled_from_def)
  next
    case False
    then have "q = 0" using A(1) by simp
    moreover have "matching {oid} (grown (qty - q) t) (mx_book e2)" using e2 by (simp add: match_result_def t)
    ultimately show ?thesis using run f A(4,5) by (simp add: t_def)
  qed
qed

section \<open>Cancellations\<close>

lemma matching_order:
  assumes "book_ok {} {} b" "dict_get (bk_orders b) oid = Some o1"
  shows "matching {} o1 b" "od_id o1 = oid" "0 < remaining o1" "od_type o1 = LIMIT" "0 < od_price o1"
proof -
  have ok: "order_ok {} {} b oid o1" by (rule book_okD(6) [OF assms])
  then show "od_id o1 = oid" "0 < remaining o1" "od_type o1 = LIMIT" "0 < od_price o1" by (simp_all add: order_ok_def)
  have "book_ok {oid} {} b" by (rule book_ok_mono [OF assms(1)]) simp_all
  then show "matching {} o1 b" using assms(2) ok by (simp add: matching_def order_ok_def)
qed

definition spec_cancel :: "int \<Rightarrow> book_view \<Rightarrow> book_view" where
  "spec_cancel oid V = (\<lambda>s. filter (\<lambda>(j, p, r). j \<noteq> oid) (V s))"

lemma spec_cancel_absent:
  assumes "book_ok Z M b" "dict_get (bk_orders b) oid = None"
  shows "spec_cancel oid (view b) = view b"
proof
  fix s
  have "oid \<notin> fst ` set (ladder s b)" using ladder_entry [OF assms(1)] assms(2) by fastforce
  then show "spec_cancel oid (view b) s = view b s"
    by (force simp: spec_cancel_def view_def intro!: filter_True)
qed

lemma cancel_refines:
  assumes "iter_ok iter" "book_ok {} {} (mx_book e)"
  shows "\<exists>e'. process_cancel iter oid e = (has_order oid e, e') \<and> book_ok {} {} (mx_book e') \<and>
    view (mx_book e') = spec_cancel oid (view (mx_book e)) \<and> \<not> has_order oid e' \<and> filled_from e oid [] e'"
proof (cases "dict_get (bk_orders (mx_book e)) oid")
  case None
  then show ?thesis using assms(2) spec_cancel_absent [OF assms(2) None]
    by (simp add: process_cancel_def cancel_order_def has_order_def get_order_def filled_from_def)
next
  case (Some o1)
  note m = matching_order [OF assms(2) Some]
  have "view (removed iter o1 (mx_book e)) = spec_cancel oid (view (mx_book e))"
    using matching_removed(2) [OF assms(1) m(1)] m(2) by (simp add: view_def spec_cancel_def)
  then show ?thesis using Some matching_removed(1) [OF assms(1) m(1)] m(2)
    by (simp add: process_cancel_def cancel_order_def has_order_def get_order_def filled_from_def removed_def [symmetric])
qed

section \<open>Modifications\<close>

lemma modify_in_place_resized:
  assumes "dict_get (levels_of (od_side o1) b) (od_price o1) \<noteq> None"
  shows "modify_in_place o1 q b = resized (remaining o1 - q) (o1\<lparr>od_quantity := od_filled o1 + q\<rparr>) b"
  using assms by (cases "od_side o1")
    (auto simp: modify_in_place_def resized_def reduce_level_def lv_modify_qty_down_def lv_reduce_quantity_def
       remaining_def Let_def split: option.split)

lemma modify_same_price:
  assumes "book_ok {} {} b" "dict_get (bk_orders b) oid = Some o1" "0 < q" "q < remaining o1"
  shows "book_ok {} {} (modify_in_place o1 q b)"
    "ladder s (modify_in_place o1 q b) = take_from oid (remaining o1 - q) (ladder s b)"
proof -
  note m = matching_order [OF assms(1,2)]
  let ?o = "o1\<lparr>od_quantity := od_filled o1 + q\<rparr>" and ?k = "remaining o1 - q"
  have d: "dict_get (bk_orders b) (od_id o1) = Some o1" using assms(2) m(2) by simp
  have sm: "smaller ?k o1 ?o" by (simp add: smaller_def remaining_def)
  have r: "remaining ?o = q" by (simp add: remaining_def)
  have e: "modify_in_place o1 q b = resized ?k ?o b"
    by (rule modify_in_place_resized) (use book_okD(6) [OF assms(1,2)] in \<open>auto simp: order_ok_def\<close>)
  have ok: "book_ok {oid} {} (resized ?k ?o b)" using resized_ok [OF assms(1) d sm] r assms(3) m(2) by simp
  have "left (resized ?k ?o b) oid = q" using m(2) r by (simp add: left_def)
  then show "book_ok {} {} (modify_in_place o1 q b)"
    unfolding e using assms(3) by (intro book_ok_shrink [OF ok]) simp
  show "ladder s (modify_in_place o1 q b) = take_from oid ?k (ladder s b)"
    unfolding e take_from_def using resized_ladder [OF d sm, of s] m(2) by simp
qed

lemma modify_new_price:
  assumes "iter_ok iter" "book_ok {} {} b" "dict_get (bk_orders b) oid = Some o1" "0 < q" "0 < p"
  defines "b' \<equiv> readd_order o1 p q (removed iter o1 b)"
  shows "book_ok {} {} b'" "ladder s b' =
    (if s = od_side o1 then spec_insert s oid p q (spec_cancel oid (view b) s) else spec_cancel oid (view b) s)"
proof -
  note m = matching_order [OF assms(2,3)]
  let ?b = "removed iter o1 b" and ?o = "limit_order oid (od_side o1) p q (od_timestamp o1)"
  have o: "od_id ?o = oid" "od_side ?o = od_side o1" "od_price ?o = p" "remaining ?o = q" "od_type ?o = LIMIT"
    by (simp_all add: limit_order_def remaining_def)
  have ok: "book_ok {} {} ?b" by (rule matching_removed(1) [OF assms(1) m(1)])
  have n: "dict_get (bk_orders ?b) (od_id ?o) = None" using m(2) o(1) by simp
  have f: "0 < bk_free ?b" by (simp add: removed_def release_order_def)
  have b': "b' = insert_order ?o ?o ?b"
    using n f m(2,4) o(1) by (simp add: b'_def readd_order_def add_order_def Let_def)
  show "book_ok {} {} b'" unfolding b' by (rule insert_ok [OF ok n f]) (simp_all add: o assms)
  have "ladder s ?b = spec_cancel oid (view b) s" for s
    using matching_removed(2) [OF assms(1) m(1)] m(2) by (simp add: spec_cancel_def view_def)
  then show "ladder s b' = (if s = od_side o1 then spec_insert s oid p q (spec_cancel oid (view b) s) else spec_cancel oid (view b) s)"
    unfolding b' insert_ladder [OF ok n] o by (simp add: spec_insert_def)
qed

definition spec_modify :: "int \<Rightarrow> side \<Rightarrow> int \<Rightarrow> int \<Rightarrow> int \<Rightarrow> int \<Rightarrow> book_view \<Rightarrow> book_view" where
  "spec_modify oid side price rem new_price new_qty V =
     (if new_price = price then (\<lambda>s. take_from oid (rem - new_qty) (V s))
      else (spec_cancel oid V)(side := spec_insert side oid new_price new_qty (spec_cancel oid V side)))"

lemma modify_refines:
  assumes "iter_ok iter" "book_ok {} {} (mx_book e)" "dict_get (bk_orders (mx_book e)) oid = Some o1"
    "0 < q" "q \<le> remaining o1" "0 < p"
  shows "\<exists>e'. process_modify iter oid p q e = (True, e') \<and> book_ok {} {} (mx_book e') \<and>
    view (mx_book e') = spec_modify oid (od_side o1) (od_price o1) (remaining o1) p q (view (mx_book e)) \<and>
    filled_from e oid [] e'"
proof -
  let ?b = "mx_book e"
  obtain b' where b': "modify_order iter oid p q ?b = (True, b')" "book_ok {} {} b'"
    "view b' = spec_modify oid (od_side o1) (od_price o1) (remaining o1) p q (view ?b)"
  proof (cases "p = od_price o1")
    case True
    show thesis
    proof (cases "q < remaining o1")
      case lt: True
      show thesis
        by (rule that [of "modify_in_place o1 q ?b"])
          (use True lt assms(3-5) modify_same_price [OF assms(2-4) lt] in
            \<open>simp_all add: modify_order_def view_def spec_modify_def\<close>)
    next
      case False
      then have "remaining o1 - q = 0" using assms(5) by simp
      then show thesis
        by (intro that [of ?b]) (use True False assms(2-5) in
            \<open>simp_all add: modify_order_def view_def spec_modify_def take_from_simps\<close>)
    qed
  next
    case False
    show thesis
      by (rule that [of "readd_order o1 p q (removed iter o1 ?b)"])
        (use False assms(3-5) modify_new_price [OF assms(1-4,6)] in
          \<open>simp_all add: modify_order_def view_def spec_modify_def removed_def fun_eq_iff\<close>)
  qed
  then show ?thesis by (simp add: process_modify_def filled_from_def)
qed

lemma modify_rejected:
  assumes "case dict_get (bk_orders (mx_book e)) oid of None \<Rightarrow> True | Some o1 \<Rightarrow> q \<le> 0 \<or> remaining o1 < q"
  shows "process_modify iter oid p q e = (False, e)"
  using assms by (auto simp: process_modify_def modify_order_def split: option.splits)

end
