(* ===== verification/Engine_Total.thy ===== *)
theory Engine_Total
  imports Engine_Commands
begin

text \<open>
  The engine answers every command, whatever the orders are: limit, market or iceberg. The invariant
  is weaker than \<open>book_ok\<close>, which market orders and icebergs break: every queued identifier has an
  order of that side and price, and no order is filled beyond its quantity.
\<close>

section \<open>The weak invariant\<close>

definition orders_safe :: "order_book \<Rightarrow> bool" where
  "orders_safe b \<longleftrightarrow> dict_ok (bk_orders b) \<and>
     (\<forall>i o1. dict_get (bk_orders b) i = Some o1 \<longrightarrow>
        od_id o1 = i \<and> 0 \<le> remaining o1 \<and> (od_type o1 = ICEBERG \<longrightarrow> 0 < od_display o1))"

definition queues_safe :: "order_book \<Rightarrow> bool" where
  "queues_safe b \<longleftrightarrow> (\<forall>s p l. dict_get (levels_of s b) p = Some l \<longrightarrow> distinct (lv_queue l) \<and>
     (\<forall>i \<in> set (lv_queue l). \<exists>o1. dict_get (bk_orders b) i = Some o1 \<and> od_side o1 = s \<and> od_price o1 = p))"

definition safe :: "order_book \<Rightarrow> bool" where
  "safe b \<longleftrightarrow> orders_safe b \<and> queues_safe b"

lemma safeD:
  assumes "safe b"
  shows "dict_ok (bk_orders b)" "dict_get (bk_orders b) i = Some o1 \<Longrightarrow> od_id o1 = i"
    "dict_get (bk_orders b) i = Some o1 \<Longrightarrow> 0 \<le> remaining o1"
    "dict_get (bk_orders b) i = Some o1 \<Longrightarrow> od_type o1 = ICEBERG \<Longrightarrow> 0 < od_display o1"
    "dict_get (levels_of s b) p = Some l \<Longrightarrow> distinct (lv_queue l)"
    "dict_get (levels_of s b) p = Some l \<Longrightarrow> i \<in> set (lv_queue l) \<Longrightarrow>
       \<exists>o1. dict_get (bk_orders b) i = Some o1 \<and> od_side o1 = s \<and> od_price o1 = p"
  using assms unfolding safe_def orders_safe_def queues_safe_def by blast+

lemma safe_init: "safe book_init"
proof -
  have "levels_of s book_init = []" for s by (cases s) (simp_all add: book_init_def)
  then show ?thesis by (simp add: safe_def orders_safe_def queues_safe_def book_init_def dict_get_def)
qed

text \<open>An order as the engine adds one.\<close>

definition order_safe :: "order \<Rightarrow> bool" where
  "order_safe o1 \<longleftrightarrow> 0 \<le> remaining o1 \<and> (od_type o1 = ICEBERG \<longrightarrow> 0 < od_display o1)"

lemma safe_insert:
  assumes "safe b" "dict_get (bk_orders b) (od_id o1) = None" "order_safe o1" "od_id q = od_id o1"
  shows "safe (insert_order q o1 b)"
proof -
  let ?b = "insert_order q o1 b" and ?i = "od_id o1"
  have "orders_safe ?b" using safeD(1-4) [OF assms(1)] assms(3)
    by (auto simp: orders_safe_def order_safe_def split: if_split_asm)
  moreover have "queues_safe ?b" unfolding queues_safe_def
  proof (intro allI impI)
    fix s p l
    assume l: "dict_get (levels_of s ?b) p = Some l"
    have old: "distinct (lv_queue k) \<and> ?i \<notin> set (lv_queue k) \<and>
        (\<forall>i \<in> set (lv_queue k). \<exists>o2. dict_get (bk_orders ?b) i = Some o2 \<and> od_side o2 = s \<and> od_price o2 = p)"
      if "dict_get (levels_of s b) p = Some k" for k
      using safeD(5,6) [OF assms(1) that] assms(2) by fastforce
    show "distinct (lv_queue l) \<and>
        (\<forall>i \<in> set (lv_queue l). \<exists>o2. dict_get (bk_orders ?b) i = Some o2 \<and> od_side o2 = s \<and> od_price o2 = p)"
    proof (cases "s = od_side o1 \<and> p = od_price o1")
      case True
      then have "lv_queue l = lv_queue (level_at s p b) @ [?i]" using l assms(4) by (auto simp: lv_push_back_def)
      then show ?thesis using old True
        by (cases "dict_get (levels_of s b) p") (auto simp: level_at_def level_init_def)
    next
      case False
      then have "dict_get (levels_of s b) p = Some l" using l by (auto split: if_split_asm)
      then show ?thesis using old by blast
    qed
  qed
  ultimately show ?thesis by (simp add: safe_def)
qed

lemma safe_removed:
  assumes "safe b" "dict_get (bk_orders b) (od_id o1) = Some o2" "od_side o2 = od_side o1" "od_price o2 = od_price o1"
  shows "safe (removed iter o1 b)"
proof -
  let ?b = "removed iter o1 b" and ?i = "od_id o1"
  have "orders_safe ?b" using safeD(1-4) [OF assms(1)] by (auto simp: orders_safe_def split: if_split_asm)
  moreover have "queues_safe ?b" unfolding queues_safe_def
  proof (intro allI impI)
    fix s p l
    assume l: "dict_get (levels_of s ?b) p = Some l"
    have "\<exists>k. dict_get (levels_of s b) p = Some k \<and> distinct (lv_queue l) \<and> set (lv_queue l) = set (lv_queue k) - {?i}"
    proof (cases "dict_get (levels_of (od_side o1) b) (od_price o1)")
      case None
      have e: "levels_of s ?b = levels_of s b" for s
        using None by (simp add: remove_order_from_level_def Let_def)
      then have k: "dict_get (levels_of s b) p = Some l" using l by simp
      have "?i \<notin> set (lv_queue l)"
        using safeD(6) [OF assms(1) k] assms(2-4) None k by fastforce
      then show ?thesis using k safeD(5) [OF assms(1) k] by auto
    next
      case (Some k)
      show ?thesis
      proof (cases "s = od_side o1 \<and> p = od_price o1")
        case True
        then have "l = lv_remove o1 k" using l by (auto simp: remove_levels [OF Some] split: if_split_asm)
        then show ?thesis using True Some safeD(5) [OF assms(1) Some] by (auto simp: lv_remove_def)
      next
        case False
        then have k: "dict_get (levels_of s b) p = Some l"
          using l by (auto simp: remove_levels [OF Some] split: if_split_asm)
        have "?i \<notin> set (lv_queue l)" using safeD(6) [OF assms(1) k] assms(2-4) False by fastforce
        then show ?thesis using k safeD(5) [OF assms(1) k] by auto
      qed
    qed
    then obtain k where k: "dict_get (levels_of s b) p = Some k" "distinct (lv_queue l)" "set (lv_queue l) = set (lv_queue k) - {?i}"
      by blast
    then show "distinct (lv_queue l) \<and>
        (\<forall>i \<in> set (lv_queue l). \<exists>o2. dict_get (bk_orders ?b) i = Some o2 \<and> od_side o2 = s \<and> od_price o2 = p)"
      using safeD(6) [OF assms(1) k(1)] by auto
  qed
  ultimately show ?thesis by (simp add: safe_def)
qed

lemma safe_resized:
  assumes "safe b" "dict_get (bk_orders b) (od_id o1) = Some o1" "smaller qty o1 o2" "order_safe o2"
  shows "safe (resized qty o2 b)"
proof -
  have id: "od_id o2 = od_id o1" "od_side o2 = od_side o1" "od_price o2 = od_price o1"
    using assms(3) by (simp_all add: smaller_def)
  have "orders_safe (resized qty o2 b)" using safeD(1-4) [OF assms(1)] assms(4) id(1)
    by (auto simp: orders_safe_def order_safe_def split: if_split_asm)
  moreover have "queues_safe (resized qty o2 b)" unfolding queues_safe_def
  proof (intro allI impI)
    fix s p l
    assume "dict_get (levels_of s (resized qty o2 b)) p = Some l"
    then obtain k where k: "dict_get (levels_of s b) p = Some k" "lv_queue l = lv_queue k"
      using resized_queue by blast
    show "distinct (lv_queue l) \<and> (\<forall>i \<in> set (lv_queue l).
        \<exists>o3. dict_get (bk_orders (resized qty o2 b)) i = Some o3 \<and> od_side o3 = s \<and> od_price o3 = p)"
      using safeD(5,6) [OF assms(1) k(1)] assms(2) id k(2) by fastforce
  qed
  ultimately show ?thesis by (simp add: safe_def)
qed

lemma safe_set_type:
  assumes "safe b" "ty \<noteq> ICEBERG"
  shows "safe (set_type oid ty b)"
proof (cases "dict_get (bk_orders b) oid")
  case (Some t)
  have "orders_safe (set_type oid ty b)" using safeD(1-3) [OF assms(1)] safeD(4) [OF assms(1)] assms(2) Some
    by (auto simp: orders_safe_def set_type_orders split: if_split_asm)
  moreover have "queues_safe (set_type oid ty b)"
    using safeD(5,6) [OF assms(1)] Some by (fastforce simp: queues_safe_def set_type_orders)
  ultimately show ?thesis by (simp add: safe_def)
qed (use assms(1) in \<open>simp add: set_type_def\<close>)

section \<open>The matching loop ends\<close>

text \<open>The replenishing branch is never taken: what is displayed is never used up.\<close>

lemma settle_maker_cases:
  assumes "od_type maker = ICEBERG \<longrightarrow> 0 < od_display maker"
  shows "settle_maker iter maker e = (if is_filled maker then on_book (removed iter maker) e else e)"
proof -
  have "od_filled maker mod od_display maker < od_display maker" if "od_type maker = ICEBERG"
    using assms that by (simp add: pos_mod_bound)
  then show ?thesis by (auto simp: settle_maker_def removed_def [abs_def] on_book_def Let_def)
qed

definition work :: "int \<Rightarrow> engine \<Rightarrow> nat" where
  "work tid e = nat (left_of tid e) + length (bk_orders (mx_book e))"

lemma match_round_someE:
  assumes "match_round iter tid e = Some e'"
  obtains t m qty where "dict_get (bk_orders (mx_book e)) tid = Some t" "0 < remaining t"
    "best_order (opposite (od_side t)) (mx_book e) = Some m" "qty = min (remaining t) (maker_available m)"
    "e' = settle_maker iter (grown qty m) (execute_fill m t qty e)"
  using assms by (auto simp: match_round_def Let_def grown_def split: option.split_asm if_split_asm)

lemma best_order_queue:
  assumes "safe b" "best_order s b = Some m"
  shows "dict_get (bk_orders b) (od_id m) = Some m" "od_side m = s"
proof -
  obtain l i where l: "dict_get (levels_of s b) (best_price s b) = Some l" "i \<in> set (lv_queue l)"
    "dict_get (bk_orders b) i = Some m"
    using assms(2)
    by (fastforce simp: best_order_def lv_front_def split: option.split_asm if_split_asm list.split_asm)
  then show "dict_get (bk_orders b) (od_id m) = Some m" using safeD(2) [OF assms(1) l(3)] by simp
  show "od_side m = s" using safeD(6) [OF assms(1) l(1,2)] l(3) by auto
qed

lemma match_round_progress:
  assumes "safe (mx_book e)" "match_round iter tid e = Some e'"
  shows "safe (mx_book e') \<and> work tid e' < work tid e \<and> mx_out e' = mx_out e"
proof -
  let ?b = "mx_book e"
  obtain t m qty where r: "dict_get (bk_orders ?b) tid = Some t" "0 < remaining t"
    "best_order (opposite (od_side t)) ?b = Some m" "qty = min (remaining t) (maker_available m)"
    "e' = settle_maker iter (grown qty m) (execute_fill m t qty e)"
    by (rule match_round_someE [OF assms(2)])
  note m = best_order_queue [OF assms(1) r(3)]
  have t: "od_id t = tid" by (rule safeD(2) [OF assms(1) r(1)])
  have ne: "od_id m \<noteq> tid"
  proof
    assume "od_id m = tid"
    then have "Some m = Some t" using m(1) r(1) by (simp only:)
    then have "od_side m = od_side t" by (simp only: option.inject)
    then show False unfolding m(2) by (rule notE [OF opposite_simps(1)])
  qed
  have ice: "od_type m = ICEBERG \<longrightarrow> 0 < od_display m" "od_type t = ICEBERG \<longrightarrow> 0 < od_display t"
    using safeD(4) [OF assms(1)] m(1) r(1) by blast+
  have rm: "0 \<le> remaining m" by (rule safeD(3) [OF assms(1) m(1)])
  have q: "0 \<le> qty" "qty \<le> remaining t" "qty \<le> remaining m" "qty = 0 \<Longrightarrow> remaining m = 0"
    using r(2,4) rm ice(1) by (auto simp: maker_available_def min_def split: if_split_asm)
  let ?b1 = "resized qty (grown qty m) ?b"
  let ?b2 = "resized qty (grown qty t) ?b1"
  have m1: "dict_get (bk_orders ?b1) (od_id t) = Some t" using r(1) t ne by simp
  have s1: "safe ?b1" by (rule safe_resized [OF assms(1) m(1) smaller_grown]) (use q ice in \<open>simp add: order_safe_def\<close>)
  have s2: "safe ?b2" by (rule safe_resized [OF s1 m1 smaller_grown]) (use q ice in \<open>simp add: order_safe_def\<close>)
  have m2: "dict_get (bk_orders ?b2) tid = Some (grown qty t)" "dict_get (bk_orders ?b2) (od_id m) = Some (grown qty m)"
    using t ne by simp_all
  have len: "length (bk_orders ?b2) = length (bk_orders ?b)" using r(1) m(1) t ne by (simp add: length_dict_set)
  have e': "e' = (if remaining m \<le> qty then on_book (removed iter (grown qty m)) (execute_fill m t qty e) else execute_fill m t qty e)"
    unfolding r(5) using ice(1) by (subst settle_maker_cases) (simp_all add: is_filled_grown)
  have out: "mx_out e' = mx_out e" by (simp add: e' on_book_def execute_fill_def Let_def)
  show ?thesis
  proof (cases "remaining m \<le> qty")
    case True
    then have b: "mx_book e' = removed iter (grown qty m) ?b2" by (simp add: e' on_book_def execute_fill_book)
    have "safe (mx_book e')" unfolding b by (rule safe_removed [OF s2, of _ "grown qty m"]) (use m2 in simp_all)
    moreover have "left_of tid e' = remaining t - qty" using m2 ne by (simp add: left_of_def b)
    moreover have "Suc (length (bk_orders (mx_book e'))) = length (bk_orders ?b)"
      using length_dict_pop [OF safeD(1) [OF s2] m2(2)] len by (simp add: b)
    ultimately show ?thesis using out q r(1,2) by (simp add: work_def left_of_def)
  next
    case False
    then have b: "mx_book e' = ?b2" by (simp add: e' execute_fill_book)
    have "0 < qty" using False q(1,4) by fastforce
    moreover have "left_of tid e' = remaining t - qty" using m2 by (simp add: left_of_def b)
    ultimately show ?thesis using out q r(1,2) s2 len by (simp add: work_def left_of_def b)
  qed
qed

lemma match_order_total:
  "safe (mx_book e) \<Longrightarrow> \<exists>e'. match_order iter tid e = Some e' \<and> safe (mx_book e') \<and> mx_out e' = mx_out e"
proof (induction "work tid e" arbitrary: e rule: less_induct)
  case less
  show ?case
  proof (cases "match_round iter tid e")
    case None
    then show ?thesis using less.prems by (subst match_order.simps) simp
  next
    case (Some e1)
    note p = match_round_progress [OF less.prems Some]
    have "match_order iter tid e = match_order iter tid e1" using Some by (subst match_order.simps) simp
    then show ?thesis using less.hyps [of e1] p by auto
  qed
qed

section \<open>Every command is answered\<close>

lemma safe_add_order:
  assumes "safe b" "add_order oid side price qty ts b = Some b'" "0 < qty"
  shows "safe b'"
proof -
  have "dict_get (bk_orders b) oid = None" and
      b': "b' = insert_order (limit_order oid side price qty ts) (limit_order oid side price qty ts) b"
    using assms(2) by (auto simp: add_order_def Let_def split: if_split_asm)
  then show ?thesis unfolding b' using assms(3)
    by (intro safe_insert [OF assms(1)]) (simp_all add: limit_order_def order_safe_def remaining_def)
qed

lemma safe_add_iceberg:
  assumes "safe b" "add_iceberg_order oid side price qty dq ts b = Some b'" "0 < qty" "0 < dq"
  shows "safe b'"
proof -
  let ?o = "iceberg_order oid side price qty dq ts"
  have "dict_get (bk_orders b) oid = None" and b': "b' = insert_order (?o\<lparr>od_quantity := dq\<rparr>) ?o b"
    using assms(2) by (auto simp: add_iceberg_order_def Let_def split: if_split_asm)
  then show ?thesis unfolding b' using assms(3,4)
    by (intro safe_insert [OF assms(1)]) (simp_all add: iceberg_order_def order_safe_def remaining_def)
qed

lemma safe_drop:
  assumes "safe (mx_book e)"
  shows "safe (mx_book (drop_order iter oid e))"
proof (cases "dict_get (bk_orders (mx_book e)) oid")
  case (Some t)
  then have "od_id t = oid" by (rule safeD(2) [OF assms])
  then show ?thesis using safe_removed [OF assms, of t t iter] Some by (simp add: drop_order_removed [OF Some])
qed (use assms in \<open>simp add: drop_order_def\<close>)

lemma process_market_total:
  assumes "safe (mx_book e)" "0 < qty"
  shows "\<exists>r e'. process_market iter oid side qty ts e = Some (r, e') \<and> safe (mx_book e') \<and> mx_out e' = mx_out e"
proof (cases "add_order oid side (market_price side) qty ts (mx_book e)")
  case (Some b)
  let ?e = "e\<lparr>mx_book := set_type oid MARKET b\<rparr>"
  have "safe (mx_book ?e)" using safe_set_type [OF safe_add_order [OF assms(1) Some assms(2)]] by simp
  from match_order_total [OF this] obtain e' where
    e': "match_order iter oid ?e = Some e'" "safe (mx_book e')" "mx_out e' = mx_out ?e" by blast
  then show ?thesis using Some safe_drop [OF e'(2)] by (simp add: process_market_def)
qed (use assms in \<open>simp add: process_market_def\<close>)

lemma process_resting_total:
  assumes "safe (mx_book e)" "0 < qty" "ty = ICEBERG \<longrightarrow> 0 < dq"
  shows "\<exists>r e'. process_resting iter oid side ty price qty ts dq e = Some (r, e') \<and> safe (mx_book e') \<and> mx_out e' = mx_out e"
proof -
  let ?add = "if ty = ICEBERG then add_iceberg_order oid side price qty dq ts (mx_book e)
    else add_order oid side price qty ts (mx_book e)"
  show ?thesis
  proof (cases ?add)
    case None
    then show ?thesis using assms(1) by (simp add: process_resting_def)
  next
    case (Some b)
    let ?e = "e\<lparr>mx_book := b\<rparr>"
    have s: "safe (mx_book ?e)"
      using Some assms safe_add_order [OF assms(1)] safe_add_iceberg [OF assms(1)] by (auto split: if_split_asm)
    from match_order_total [OF this] obtain e' where
      e': "match_order iter oid ?e = Some e'" "safe (mx_book e')" "mx_out e' = mx_out ?e" by blast
    then show ?thesis using Some s safe_drop [OF e'(2)] by (simp add: process_resting_def Let_def)
  qed
qed

lemma process_new_order_total:
  assumes "safe (mx_book e)"
  shows "\<exists>r e'. process_new_order iter oid side ty price qty ts dq e = Some (r, e') \<and> safe (mx_book e') \<and> mx_out e' = mx_out e"
proof -
  let ?e = "e\<lparr>mx_total_orders := mx_total_orders e + 1\<rparr>"
  have s: "safe (mx_book ?e)" using assms by simp
  consider "qty \<le> 0 \<or> ty = LIMIT \<and> price \<le> 0 \<or> ty = ICEBERG \<and> (price \<le> 0 \<or> dq \<le> 0)"
    | "0 < qty" "ty = MARKET" | "0 < qty" "ty \<noteq> MARKET" "ty = ICEBERG \<longrightarrow> 0 < dq" "ty = LIMIT \<longrightarrow> 0 < price"
       "ty = ICEBERG \<longrightarrow> 0 < price" by force
  then show ?thesis
  proof cases
    case 1
    then show ?thesis using assms by (auto simp: process_new_order_def Let_def)
  next
    case 2
    then show ?thesis using process_market_total [OF s 2(1), of iter oid side ts]
      by (simp add: process_new_order_def Let_def)
  next
    case 3
    then show ?thesis using process_resting_total [OF s 3(1,3), of iter oid side price ts]
      by (auto simp: process_new_order_def Let_def)
  qed
qed

lemma process_cancel_safe:
  assumes "safe (mx_book e)" "process_cancel iter oid e = (ok, e')"
  shows "safe (mx_book e') \<and> mx_out e' = mx_out e"
proof (cases "dict_get (bk_orders (mx_book e)) oid")
  case (Some t)
  then have "od_id t = oid" by (rule safeD(2) [OF assms(1)])
  then have "safe (removed iter t (mx_book e))" using safe_removed [OF assms(1), of t t iter] Some by simp
  then show ?thesis using assms(2) Some
    by (auto simp: process_cancel_def cancel_order_def removed_def)
qed (use assms in \<open>auto simp: process_cancel_def cancel_order_def\<close>)

lemma safe_modify:
  assumes "safe b" "dict_get (bk_orders b) oid = Some t" "0 < q"
  shows "safe (modify_in_place t q b)" "safe (readd_order t p q (removed iter t b))"
proof -
  have id: "od_id t = oid" by (rule safeD(2) [OF assms(1,2)])
  have ice: "od_type t = ICEBERG \<longrightarrow> 0 < od_display t" using safeD(4) [OF assms(1,2)] by blast
  let ?o = "t\<lparr>od_quantity := od_filled t + q\<rparr>"
  have "safe (resized (remaining t - q) ?o b)"
    by (rule safe_resized [OF assms(1), of t]) (use id ice assms(2,3) in \<open>simp_all add: smaller_def order_safe_def remaining_def\<close>)
  then show "safe (modify_in_place t q b)"
    using modify_in_place_resized [of t b q] assms(1)
    by (cases "dict_get (levels_of (od_side t) b) (od_price t)") (simp_all add: modify_in_place_def)
  have s: "safe (removed iter t b)" using safe_removed [OF assms(1), of t t iter] assms(2) id by simp
  show "safe (readd_order t p q (removed iter t b))"
    unfolding readd_order_def using s ice assms(3) safe_add_order [OF s] safe_add_iceberg [OF s]
    by (auto split: option.split)
qed

lemma process_modify_safe:
  assumes "safe (mx_book e)" "process_modify iter oid p q e = (ok, e')"
  shows "safe (mx_book e') \<and> mx_out e' = mx_out e"
proof (cases "dict_get (bk_orders (mx_book e)) oid")
  case (Some t)
  show ?thesis
  proof (cases "0 < q")
    case True
    then show ?thesis using assms Some safe_modify [OF assms(1) Some True]
      by (auto simp: process_modify_def modify_order_def removed_def split: if_split_asm)
  qed (use assms Some in \<open>auto simp: process_modify_def modify_order_def\<close>)
qed (use assms in \<open>auto simp: process_modify_def modify_order_def\<close>)

lemma command_total:
  assumes "safe (mx_book e)"
  shows "\<exists>e' ev. process_client_command iter cmd e = Some e' \<and> safe (mx_book e') \<and> mx_out e' = mx_out e @ [ev]"
proof (cases cmd)
  case (New_Command c oid side ty price qty dq)
  then show ?thesis using process_new_order_total [OF assms, of iter oid side ty price qty 0 dq]
    by (auto simp: send_update_def emit_def)
next
  case (Cancel_Command c oid)
  then show ?thesis using process_cancel_safe [OF assms]
    by (cases "process_cancel iter oid e") (auto simp: send_update_def emit_def)
next
  case (Modify_Command c oid p q)
  then show ?thesis using process_modify_safe [OF assms]
    by (cases "process_modify iter oid p q e") (auto simp: send_update_def emit_def)
qed

end
