(* ===== verification/Engine_Runs.thy ===== *)
theory Engine_Runs
  imports Engine_Total
begin

text \<open>
  Facts about the abstract matching, what a snapshot of the book shows, and runs of the engine's
  thread over a sequence of commands.
\<close>

section \<open>The abstract matching\<close>

definition volume :: "rungs \<Rightarrow> int" where
  "volume ls = sum_list (map (\<lambda>(i, p, r). r) ls)"

lemma volume_simps [simp]: "volume [] = 0" "volume ((i, p, r) # ls) = r + volume ls"
  by (simp_all add: volume_def)

lemma spec_match_conserves:
  "spec_match reach q ls = (q', ls', fs) \<Longrightarrow> q' + volume fs = q \<and> volume ls' + volume fs = volume ls"
  by (induction reach q ls arbitrary: q' ls' fs rule: spec_match.induct)
    (auto split: if_split_asm prod.split_asm)

lemma spec_match_prices:
  "spec_match reach q ls = (q', ls', fs) \<Longrightarrow> (i, p, r) \<in> set ls' \<Longrightarrow> \<exists>j r'. (j, p, r') \<in> set ls"
  by (induction reach q ls arbitrary: q' ls' fs rule: spec_match.induct)
    (fastforce split: if_split_asm prod.split_asm)+

lemma spec_match_fills:
  "spec_match reach q ls = (q', ls', fs) \<Longrightarrow> (i, p, r) \<in> set fs \<Longrightarrow> reach p"
  by (induction reach q ls arbitrary: q' ls' fs rule: spec_match.induct)
    (auto split: if_split_asm prod.split_asm)

lemma spec_match_rest:
  assumes "\<And>p p'. reach p \<Longrightarrow> price_rank s p' \<le> price_rank s p \<Longrightarrow> reach p'"
  shows "spec_match reach q ls = (q', ls', fs) \<Longrightarrow> sorted (map (\<lambda>(j, p, r). price_rank s p) ls) \<Longrightarrow> 0 < q' \<Longrightarrow>
    (i, p, r) \<in> set ls' \<Longrightarrow> \<not> reach p"
proof (induction ls arbitrary: q q' ls' fs)
  case (Cons x ls)
  obtain j a k where x: "x = (j, a, k)" by (cases x)
  consider "q \<le> 0" | "0 < q" "\<not> reach a" | "0 < q" "reach a" "k \<le> q" | "0 < q" "reach a" "q < k" by linarith
  then show ?case
  proof cases
    case 1
    then show ?thesis using Cons.prems x by simp
  next
    case 2
    then have "ls' = x # ls" using Cons.prems x by simp
    then have "price_rank s a \<le> price_rank s p" using Cons.prems(2,4) x by auto
    then show ?thesis using assms 2(2) by blast
  next
    case 3
    then obtain fs' where "spec_match reach (q - k) ls = (q', ls', fs')"
      using Cons.prems(1) x by (auto split: prod.split_asm)
    from Cons.IH [OF this _ Cons.prems(3,4)] show ?thesis using Cons.prems(2) x by simp
  next
    case 4
    then show ?thesis using Cons.prems x by simp
  qed
qed simp

lemma spec_match_all:
  assumes "\<forall>(i, p, r) \<in> set ls. 0 < r" "0 \<le> q" "q \<le> volume ls" "spec_match (\<lambda>p. True) q ls = (q', ls', fs)"
  shows "q' = 0"
  using assms
proof (induction ls arbitrary: q q' ls' fs)
  case (Cons x ls)
  obtain i p r where x: "x = (i, p, r)" by (cases x)
  show ?case
  proof (cases "0 < q \<and> r \<le> q")
    case True
    then obtain fs' where "spec_match (\<lambda>p. True) (q - r) ls = (q', ls', fs')"
      using Cons.prems(4) x by (auto split: prod.split_asm)
    then show ?thesis using Cons.IH [of "q - r" q' ls' fs'] Cons.prems True x by simp
  qed (use Cons.prems x in \<open>auto split: if_split_asm\<close>)
qed simp

section \<open>Uncrossed books\<close>

definition uncrossed :: "book_view \<Rightarrow> bool" where
  "uncrossed V \<longleftrightarrow> (\<forall>(i, p, r) \<in> set (V BID). \<forall>(j, q, k) \<in> set (V ASK). p < q)"

lemma uncrossed_iff:
  "uncrossed V \<longleftrightarrow> (\<forall>i p r j q k. (i, p, r) \<in> set (V s) \<longrightarrow> (j, q, k) \<in> set (V (opposite s)) \<longrightarrow> \<not> reaches s p q)"
  by (cases s) (fastforce simp: uncrossed_def reaches_def not_le)+

lemma spec_limit_uncrossed:
  assumes "spec_limit oid s price qty V = (V', fs)" "uncrossed V"
    "sorted (map (\<lambda>(j, p, r). price_rank (opposite s) p) (V (opposite s)))"
  shows "uncrossed V'"
proof -
  obtain q ls where m: "spec_match (reaches s price) qty (V (opposite s)) = (q, ls, fs)"
    and V': "V' = V(opposite s := ls, s := (if 0 < q then spec_insert s oid price q (V s) else V s))"
    using assms(1) by (auto simp: spec_limit_def split: prod.split_asm)
  have old: "\<not> reaches s p a" if "(i, p, r) \<in> set (V s)" "(j, a, k) \<in> set ls" for i p r j a k
    using spec_match_prices [OF m that(2)] assms(2) that(1) unfolding uncrossed_iff [of _ s] by blast
  have new: "\<not> reaches s price a" if "0 < q" "(j, a, k) \<in> set ls" for j a k
    by (rule spec_match_rest [OF _ m assms(3) that]) (rule reaches_rank)
  show ?thesis unfolding uncrossed_iff [of _ s]
  proof (intro allI impI)
    fix i p r j a k
    assume "(i, p, r) \<in> set (V' s)" "(j, a, k) \<in> set (V' (opposite s))"
    then have "(i, p, r) \<in> set (V s) \<or> 0 < q \<and> p = price" "(j, a, k) \<in> set ls"
      by (auto simp: V' spec_insert_def split: if_split_asm)
    then show "\<not> reaches s p a" using old new by blast
  qed
qed

lemma spec_cancel_uncrossed: "uncrossed V \<Longrightarrow> uncrossed (spec_cancel oid V)"
  by (fastforce simp: uncrossed_def spec_cancel_def)

section \<open>Snapshots\<close>

definition spec_depth :: "rungs \<Rightarrow> (int \<times> int) list" where
  "spec_depth ls = map (\<lambda>p. (p, volume (filter (\<lambda>(i, q, r). q = p) ls))) (remdups (map (\<lambda>(i, p, r). p) ls))"

definition spec_top :: "rungs \<Rightarrow> int" where
  "spec_top ls = (case ls of [] \<Rightarrow> INVALID_PRICE | (i, p, r) # _ \<Rightarrow> p)"

lemma remdups_replicate_append:
  "remdups (replicate n p @ ys) = (if n = 0 \<or> p \<in> set ys then remdups ys else p # remdups ys)"
  by (induction n) auto

lemma rung_prices: "map (\<lambda>(i, p, r). p) (rung b d p) = replicate (length (rung b d p)) p"
  by (auto simp: rung_def comp_def map_replicate_const split: option.split)

lemma ladder_price_set:
  assumes "book_ok Z M b" "p \<in> keys (levels_of s b)"
  shows "rung b (levels_of s b) p \<noteq> []" "volume (rung b (levels_of s b) p) = lv_total (level_at s p b)"
proof -
  obtain l where l: "dict_get (levels_of s b) p = Some l" using assms(2) keys_iff by blast
  then have "level_ok b s p l" by (rule book_okD(4) [OF assms(1)])
  then show "rung b (levels_of s b) p \<noteq> []" "volume (rung b (levels_of s b) p) = lv_total (level_at s p b)"
    using l by (simp_all add: rung_def level_ok_def level_at_def volume_def comp_def)
qed

lemma remdups_rungs:
  assumes "distinct ps" "\<forall>p \<in> set ps. rung b d p \<noteq> []"
  shows "remdups (map (\<lambda>(i, p, r). p) (concat (map (rung b d) ps))) = ps"
  using assms
proof (induction ps)
  case (Cons p ps)
  have "p \<notin> (\<lambda>(i, p, r). p) ` set (concat (map (rung b d) ps))"
    using Cons.prems(1) by (auto dest!: in_rung)
  then have "p \<notin> set (map (\<lambda>(i, p, r). p) (concat (map (rung b d) ps)))" by simp
  then have "remdups (replicate (length (rung b d p)) p @ map (\<lambda>(i, p, r). p) (concat (map (rung b d) ps))) =
      p # remdups (map (\<lambda>(i, p, r). p) (concat (map (rung b d) ps)))"
    unfolding remdups_replicate_append using Cons.prems(2) by simp
  then show ?case using Cons by (simp add: rung_prices)
qed simp

lemma spec_depth_ladder:
  assumes "book_ok Z M b"
  shows "spec_depth (ladder s b) = map (\<lambda>p. (p, lv_total (level_at s p b))) (prices s (levels_of s b))"
proof -
  let ?d = "levels_of s b"
  have ps: "remdups (map (\<lambda>(i, p, r). p) (ladder s b)) = prices s ?d"
    unfolding ladder_def using distinct_prices [OF book_okD(2) [OF assms], of s s] ladder_price_set(1) [OF assms]
    by (intro remdups_rungs) simp_all
  have f: "filter (\<lambda>(i, q, r). q = p) (ladder s b) = rung b ?d p" if "p \<in> keys ?d" for p
  proof -
    have "filter (\<lambda>q. q = p) (prices s ?d) = [p]"
      using filter_eq_distinct [OF distinct_prices [OF book_okD(2) [OF assms], of s s], of p] that by simp
    then show ?thesis unfolding filter_ladder by simp
  qed
  show ?thesis unfolding spec_depth_def ps
    by (intro map_cong refl) (simp add: f ladder_price_set(2) [OF assms])
qed

lemma get_depth_spec:
  assumes "iter_ok iter" "book_ok Z M b"
  shows "get_depth iter s n b = take n (spec_depth (ladder s b))"
proof -
  let ?d = "levels_of s b"
  have dk: "dict_ok ?d" by (rule book_okD(2) [OF assms(2)])
  have m: "mset (iter ?d) = mset ?d" using assms(1) by (simp add: iter_ok_def)
  have ne: "filter (\<lambda>(p, l). lv_queue l \<noteq> []) (iter ?d) = iter ?d"
    using book_okD(1) [OF assms(2), of s] mset_eq_setD [OF m]
    by (intro filter_True) (fastforce simp: side_ok_def level_ok_def)
  let ?g = "\<lambda>p. (p, lv_total (level_at s p b))" and ?h = "\<lambda>(p, l). (p, lv_total l)"
  have g: "map ?g (map fst ?d) = map ?h ?d"
    using dk by (auto simp: level_at_def dict_get_iff [THEN iffD2, OF dk])
  have "mset (map ?h (iter ?d)) = mset (map ?g (prices s ?d))"
    unfolding prices_def mset_map mset_sort m by (metis g mset_map)
  moreover have "inj_on (\<lambda>(p, q). price_rank s p) (set (map ?h (iter ?d)))"
  proof (rule inj_onI)
    fix x y assume x: "x \<in> set (map ?h (iter ?d))" and y: "y \<in> set (map ?h (iter ?d))"
      and e: "(case x of (p, q) \<Rightarrow> price_rank s p) = (case y of (p, q) \<Rightarrow> price_rank s p)"
    then have "x \<in> set (map ?g (map fst ?d))" "y \<in> set (map ?g (map fst ?d))"
      using g mset_eq_setD [OF m] by simp_all
    then show "x = y" using e by auto
  qed
  moreover have "sorted (map (\<lambda>(p, q). price_rank s p) (map ?g (prices s ?d)))"
    using sorted_prices [of s ?d] by (simp add: comp_def)
  ultimately have "sort_key (\<lambda>(p, q). price_rank s p) (map ?h (iter ?d)) = map ?g (prices s ?d)"
    by (rule sort_key_inj_key_eq)
  then show ?thesis by (simp add: get_depth_def ne spec_depth_ladder [OF assms(2)])
qed

section \<open>Runs\<close>

text \<open>The loop of \<open>MatchingEngine::start\<close> over the commands it takes from its input queue.\<close>

fun run_engine :: "iteration \<Rightarrow> command list \<Rightarrow> engine \<Rightarrow> engine option" where
  "run_engine iter [] e = Some e"
| "run_engine iter (cmd # cmds) e =
     (case process_client_command iter cmd e of None \<Rightarrow> None | Some e' \<Rightarrow> run_engine iter cmds e')"

lemma run_engine_total:
  "safe (mx_book e) \<Longrightarrow> \<exists>e' evs. run_engine iter cmds e = Some e' \<and> safe (mx_book e') \<and>
     mx_out e' = mx_out e @ evs \<and> length evs = length cmds"
proof (induction cmds arbitrary: e)
  case (Cons cmd cmds)
  obtain e1 ev where e1: "process_client_command iter cmd e = Some e1" "safe (mx_book e1)" "mx_out e1 = mx_out e @ [ev]"
    using command_total [OF Cons.prems] by blast
  obtain e' evs where "run_engine iter cmds e1 = Some e'" "safe (mx_book e')" "mx_out e' = mx_out e1 @ evs" "length evs = length cmds"
    using Cons.IH [OF e1(2)] by blast
  then show ?case using e1 by (intro exI [of _ e'] exI [of _ "ev # evs"]) simp
qed simp

text \<open>Commands with neither market nor iceberg orders; the server lets no other price through.\<close>

fun plain_command :: "command \<Rightarrow> bool" where
  "plain_command (New_Command c oid side ty price qty dq) \<longleftrightarrow> ty = LIMIT"
| "plain_command (Cancel_Command c oid) \<longleftrightarrow> True"
| "plain_command (Modify_Command c oid p q) \<longleftrightarrow> 0 < p"

fun moves_no_order :: "command \<Rightarrow> bool" where
  "moves_no_order (Modify_Command c oid p q) \<longleftrightarrow> False"
| "moves_no_order _ \<longleftrightarrow> True"

lemma view_send [simp]: "mx_book (send_update iter e) = mx_book e" "mx_book (emit ev e) = mx_book e"
  by (simp_all add: send_update_def emit_def)

lemma limit_any:
  assumes "iter_ok iter" "book_ok {} {} (mx_book e)"
    "process_new_order iter oid side LIMIT price qty ts dq e = Some (r, e')"
  shows "book_ok {} {} (mx_book e') \<and> (uncrossed (view (mx_book e)) \<longrightarrow> uncrossed (view (mx_book e')))"
proof (cases "0 < qty \<and> 0 < price \<and> dict_get (bk_orders (mx_book e)) oid = None \<and> 0 < bk_free (mx_book e)")
  case True
  obtain V fs where sp: "spec_limit oid side price qty (view (mx_book e)) = (V, fs)" by (cases "spec_limit oid side price qty (view (mx_book e))")
  have "book_ok {} {} (mx_book e')" "view (mx_book e') = V"
    using limit_refines [OF assms(1,2) _ _ _ _ sp, of ts dq] True assms(3) by auto
  moreover have "sorted (map (\<lambda>(j, p, r). price_rank (opposite side) p) (view (mx_book e) (opposite side)))"
    using ladder_ranks by (simp add: view_def)
  ultimately show ?thesis using spec_limit_uncrossed [OF sp] by blast
next
  case False
  then have "mx_book e' = mx_book e"
    using assms(3) by (auto simp: process_new_order_def process_resting_def add_order_def Let_def split: if_split_asm)
  then show ?thesis using assms(2) by simp
qed

lemma plain_step:
  assumes "iter_ok iter" "book_ok {} {} (mx_book e)" "plain_command cmd" "process_client_command iter cmd e = Some e'"
  shows "book_ok {} {} (mx_book e') \<and>
    (moves_no_order cmd \<and> uncrossed (view (mx_book e)) \<longrightarrow> uncrossed (view (mx_book e')))"
proof (cases cmd)
  case (New_Command c oid side ty price qty dq)
  then obtain r e1 where "process_new_order iter oid side LIMIT price qty 0 dq e = Some (r, e1)" "mx_book e' = mx_book e1"
    using assms(3,4) by (auto split: option.split_asm prod.split_asm)
  then show ?thesis using limit_any [OF assms(1,2)] by metis
next
  case (Cancel_Command c oid)
  obtain e1 where "process_cancel iter oid e = (has_order oid e, e1)" "book_ok {} {} (mx_book e1)"
    "view (mx_book e1) = spec_cancel oid (view (mx_book e))"
    using cancel_refines [OF assms(1,2)] by blast
  then show ?thesis using Cancel_Command assms(4) spec_cancel_uncrossed by auto
next
  case (Modify_Command c oid p q)
  show ?thesis
  proof (cases "case dict_get (bk_orders (mx_book e)) oid of None \<Rightarrow> True | Some o1 \<Rightarrow> q \<le> 0 \<or> remaining o1 < q")
    case True
    then show ?thesis using modify_rejected [OF True] assms(2,4) Modify_Command by auto
  next
    case False
    then obtain o1 where o1: "dict_get (bk_orders (mx_book e)) oid = Some o1" "0 < q" "q \<le> remaining o1"
      by (cases "dict_get (bk_orders (mx_book e)) oid") auto
    have "0 < p" using assms(3) Modify_Command by simp
    from modify_refines [OF assms(1,2) o1 this] show ?thesis using assms(4) Modify_Command by auto
  qed
qed

lemma plain_run:
  assumes "iter_ok iter" "book_ok {} {} (mx_book e)" "list_all plain_command cmds" "run_engine iter cmds e = Some e'"
  shows "book_ok {} {} (mx_book e') \<and>
    (list_all moves_no_order cmds \<and> uncrossed (view (mx_book e)) \<longrightarrow> uncrossed (view (mx_book e')))"
  using assms(2-)
proof (induction cmds arbitrary: e)
  case (Cons cmd cmds)
  then obtain e1 where e1: "process_client_command iter cmd e = Some e1" "run_engine iter cmds e1 = Some e'"
    by (auto split: option.split_asm)
  have "book_ok {} {} (mx_book e1) \<and> (moves_no_order cmd \<and> uncrossed (view (mx_book e)) \<longrightarrow> uncrossed (view (mx_book e1)))"
    using plain_step [OF assms(1) Cons.prems(1) _ e1(1)] Cons.prems(2) by simp
  then show ?case using Cons.IH [of e1] e1(2) Cons.prems(2) by simp
qed simp

section \<open>What the clients are sent\<close>

fun event_ok :: "engine_event \<Rightarrow> bool" where
  "event_ok (Book_Event u) \<longleftrightarrow> engine_book_ok u"
| "event_ok (Reject_Event c oid r) \<longleftrightarrow> True"

lemma depth_array_length [simp]: "length (depth_array xs) = MAX_DEPTH_LEVELS"
  by (simp add: depth_array_def)

lemma snapshot_ok: "engine_book_ok (get_book_snapshot iter e)"
  by (simp add: engine_book_ok_def get_book_snapshot_def Let_def)

lemma command_events:
  assumes "safe (mx_book e)" "list_all event_ok (mx_out e)" "process_client_command iter cmd e = Some e'"
  shows "list_all event_ok (mx_out e')"
proof (cases cmd)
  case (New_Command c oid side ty price qty dq)
  then show ?thesis using process_new_order_total [OF assms(1), of iter oid side ty price qty 0 dq] assms(2,3)
    by (auto simp: send_update_def emit_def snapshot_ok)
next
  case (Cancel_Command c oid)
  then show ?thesis using process_cancel_safe [OF assms(1)] assms(2,3)
    by (cases "process_cancel iter oid e") (auto simp: send_update_def emit_def snapshot_ok split: if_split_asm)
next
  case (Modify_Command c oid p q)
  then show ?thesis using process_modify_safe [OF assms(1)] assms(2,3)
    by (cases "process_modify iter oid p q e") (auto simp: send_update_def emit_def snapshot_ok split: if_split_asm)
qed

lemma run_events:
  assumes "safe (mx_book e)" "list_all event_ok (mx_out e)" "run_engine iter cmds e = Some e'"
  shows "list_all event_ok (mx_out e')"
  using assms
proof (induction cmds arbitrary: e)
  case (Cons cmd cmds)
  obtain e1 ev where e1: "process_client_command iter cmd e = Some e1" "safe (mx_book e1)"
    using command_total [OF Cons.prems(1)] by blast
  then show ?case using Cons.IH [OF e1(2) command_events [OF Cons.prems(1,2) e1(1)]] Cons.prems(3) by simp
qed simp

lemma client_events:
  "event_ok ev \<Longrightarrow> list_all engine_msg_ok (event_messages c ev)"
  "m \<in> set (concat (map client_messages (event_messages c ev))) \<Longrightarrow> fst m = BOOK_UPDATE"
  by (cases ev; auto)+

lemma engine_stream:
  "list_all event_ok evs \<Longrightarrow> list_all engine_msg_ok (concat (map (event_messages c) evs))"
  using client_events(1) by (induction evs) auto

end
