(* ===== verification/Engine_Theorems.thy ===== *)
theory Engine_Theorems
  imports Engine_Runs
begin

text \<open>The properties of the matching engine.\<close>

section \<open>A sample book\<close>

definition demo_book :: order_book where
  "demo_book =
     (let bid = limit_order 1 BID 99 5 0; ask = limit_order 2 ASK 101 5 0; ask2 = limit_order 3 ASK 102 4 0
      in insert_order ask2 ask2 (insert_order ask ask (insert_order bid bid book_init)))"

definition demo_engine :: engine where
  "demo_engine = engine_init\<lparr>mx_book := demo_book\<rparr>"

lemma iter_ok_id: "iter_ok (\<lambda>d. d)"
  by (simp add: iter_ok_def)

lemma demo_book_ok: "book_ok {} {} (mx_book demo_engine)"
proof -
  have "book_ok {} {} demo_book" unfolding demo_book_def Let_def
    by (intro insert_ok book_init_ok)
      (simp_all add: limit_order_def remaining_def book_init_def MAX_ORDERS_def dict_get_def)
  then show ?thesis by (simp add: demo_engine_def)
qed

lemma demo_orders:
  "bk_orders (mx_book demo_engine) =
     [(1, limit_order 1 BID 99 5 0), (2, limit_order 2 ASK 101 5 0), (3, limit_order 3 ASK 102 4 0)]"
  "0 < bk_free (mx_book demo_engine)"
  by (simp_all add: demo_engine_def demo_book_def book_init_def limit_order_def MAX_ORDERS_def Let_def)

lemma demo_levels:
  "levels_of BID (mx_book demo_engine) = [(99, \<lparr>lv_queue = [1], lv_total = 5, lv_count = 1\<rparr>)]"
  "levels_of ASK (mx_book demo_engine) =
     [(101, \<lparr>lv_queue = [2], lv_total = 5, lv_count = 1\<rparr>), (102, \<lparr>lv_queue = [3], lv_total = 4, lv_count = 1\<rparr>)]"
  by (simp_all add: demo_engine_def demo_book_def book_init_def limit_order_def Let_def level_at_def
      level_init_def lv_push_back_def remaining_def dict_get_def)

lemma demo_ladders:
  "ladder BID (mx_book demo_engine) = [(1, 99, 5)]"
  "ladder ASK (mx_book demo_engine) = [(2, 101, 5), (3, 102, 4)]"
  by (simp_all add: ladder_def prices_def rung_def left_def demo_levels demo_orders price_rank_def
      dict_get_def limit_order_def remaining_def del: levels_of.simps)

lemmas demo_facts = iter_ok_id demo_book_ok demo_orders demo_ladders

section \<open>Price-time priority\<close>

text \<open>
  C33. A new limit order is executed by price-time priority. It trades against the resting orders of
  the other side within its limit, from the best price on and at one price from the oldest on, each
  trade at the resting order's price and with the fees of the schedule; what is left is queued behind
  every order at its own or a better price, and is what the engine returns. Nothing else of
  the book changes, the loop ends, and the book stays well formed.
\<close>

theorem limit_order_price_time:
  assumes "iter_ok iter" "book_ok {} {} (mx_book e)" "get_order oid (mx_book e) = None"
    "0 < bk_free (mx_book e)" "0 < qty" "0 < price"
    "spec_limit oid side price qty (view (mx_book e)) = (V, fs)"
  shows "\<exists>e'. process_new_order iter oid side LIMIT price qty ts dq e =
      Some (if oid \<in> fst ` set (V side) then Some oid else None, e') \<and>
    view (mx_book e') = V \<and> mx_fills e' = mx_fills e @ map (fill_of (mx_fees e) oid) fs \<and>
    book_ok {} {} (mx_book e')"
proof -
  have "dict_get (bk_orders (mx_book e)) oid = None" using assms(3) by (simp add: get_order_def)
  from limit_refines [OF assms(1,2) this assms(4-7), of ts dq] show ?thesis
    unfolding filled_from_def by blast
qed

theorem limit_order_price_time_witness:
  "\<exists>e'. process_new_order (\<lambda>d. d) 9 BID LIMIT 102 7 0 0 demo_engine = Some (None, e') \<and>
    ladder BID (mx_book e') = [(1, 99, 5)] \<and> ladder ASK (mx_book e') = [(3, 102, 2)] \<and>
    map fe_price (mx_fills e') = [101, 102]"
proof -
  obtain V fs where sp: "spec_limit 9 BID 102 7 (view (mx_book demo_engine)) = (V, fs)" by fastforce
  then have V: "V BID = [(1, 99, 5)]" "V ASK = [(3, 102, 2)]" "fs = [(2, 101, 5), (3, 102, 2)]"
    by (auto simp: spec_limit_def view_def demo_facts reaches_def)
  have n: "get_order 9 (mx_book demo_engine) = None" by (simp add: get_order_def demo_facts dict_get_def)
  obtain e' where "process_new_order (\<lambda>d. d) 9 BID LIMIT 102 7 0 0 demo_engine =
      Some (if 9 \<in> fst ` set (V BID) then Some 9 else None, e')" "view (mx_book e') = V"
    "mx_fills e' = mx_fills demo_engine @ map (fill_of (mx_fees demo_engine) 9) fs"
    using limit_order_price_time [OF iter_ok_id demo_book_ok n demo_orders(2) _ _ sp] by auto
  then show ?thesis
    by (intro exI [of _ e']) (simp add: V view_def fun_eq_iff fill_of_def demo_engine_def engine_init_def)
qed

text \<open>
  C34. Whatever sequence of limit orders, cancellations and modifications the engine is given, its
  book stays well formed: the best prices are those of the best levels, no level is empty, every
  level's count and total agree with the orders in it, every order is in the queue of its side and
  price, none is filled, and no pool slot is lost. As long as no order is modified, no bid is at or
  above an ask.
\<close>

theorem engine_book_invariant:
  assumes "iter_ok iter" "list_all plain_command cmds"
  shows "\<exists>e'. run_engine iter cmds engine_init = Some e' \<and> book_ok {} {} (mx_book e') \<and>
    (list_all moves_no_order cmds \<longrightarrow> uncrossed (view (mx_book e')))"
proof -
  have i: "mx_book engine_init = book_init" by (simp add: engine_init_def)
  obtain e' where e': "run_engine iter cmds engine_init = Some e'"
    using run_engine_total [of engine_init iter cmds] safe_init i by auto
  have "view book_init BID = []" by (simp add: view_def ladder_Nil [OF book_init_ok]) (simp add: book_init_def)
  then have u: "uncrossed (view book_init)" by (simp add: uncrossed_def)
  have "book_ok {} {} (mx_book engine_init)" using book_init_ok i by simp
  from plain_run [OF assms(1) this assms(2) e'] show ?thesis using e' u i by auto
qed

theorem engine_book_invariant_witness:
  "\<exists>e'. run_engine (\<lambda>d. d) [New_Command 0 1 BID LIMIT 100 5 0, New_Command 0 2 ASK LIMIT 99 3 0, Cancel_Command 0 1]
      engine_init = Some e' \<and> book_ok {} {} (mx_book e') \<and> uncrossed (view (mx_book e'))"
  using engine_book_invariant [OF iter_ok_id, of "[New_Command 0 1 BID LIMIT 100 5 0, New_Command 0 2 ASK LIMIT 99 3 0, Cancel_Command 0 1]"]
  by simp


lemma hd_ladder_best:
  assumes "book_ok Z M b" "ladder s b = (i, p, r) # ls"
  shows "best_price s b = p"
proof -
  let ?d = "levels_of s b"
  have ne: "?d \<noteq> []" using ladder_Nil [OF assms(1), of s] assms(2) by simp
  have h: "hd (prices s ?d) = best_price s b" by (rule hd_prices [OF book_okD(5) [OF assms(1)] ne])
  obtain ps where ps: "prices s ?d = best_price s b # ps"
    using h ne prices_Nil [of s ?d] by (cases "prices s ?d") auto
  have "best_price s b \<in> keys ?d" using ps set_prices [of s ?d] by auto
  then obtain x xs where x: "rung b ?d (best_price s b) = x # xs"
    using ladder_price_set(1) [OF assms(1)] by (cases "rung b ?d (best_price s b)") auto
  then have "x = (i, p, r)" using assms(2) ps by (simp add: ladder_def)
  then show ?thesis using in_rung [of i p r b ?d "best_price s b"] x by simp
qed

lemma stale_best_ask:
  assumes "matching M t b" "ladder ASK b = (i, p, r) # ls"
  shows "bk_best_ask b = p"
proof -
  have "book_ok {od_id t} M b" using assms(1) by (simp add: matching_def)
  from hd_ladder_best [OF this assms(2)] show ?thesis by simp
qed

lemma no_ask_no_trade:
  assumes "bk_best_ask (mx_book e) = INVALID_PRICE" "0 < q" "0 < p" "get_order i (mx_book e) = None" "0 < bk_free (mx_book e)"
  shows "\<exists>e'. process_new_order iter i BID LIMIT p q ts dq e = Some (Some i, e') \<and> mx_fills e' = mx_fills e"
proof -
  let ?o = "limit_order i BID p q ts"
  have "bk_best_ask (insert_order ?o ?o (mx_book e)) = INVALID_PRICE"
    using insert_best [of ASK ?o ?o "mx_book e"] assms(1) by (simp add: limit_order_def)
  then show ?thesis using assms(2-)
    by (simp add: process_new_order_def process_resting_def add_order_def get_order_def crosses_def Let_def)
qed

section \<open>Commands\<close>

text \<open>
  C36. A market sell order that is filled completely is not removed: it stays in the book with
  nothing left, at the head of the ask side at the price that means "no price". The best ask is then
  reported as missing whatever asks there are, and a following buy limit order rests without a
  trade however high its price.
\<close>

theorem filled_market_sell_stays:
  assumes "iter_ok iter" "book_ok {} {} (mx_book e)" "get_order oid (mx_book e) = None"
    "0 < bk_free (mx_book e)" "0 < qty" "qty \<le> volume (ladder BID (mx_book e))"
  shows "\<exists>e'. process_new_order iter oid ASK MARKET price qty ts dq e = Some (None, e') \<and>
    ladder ASK (mx_book e') = (oid, INVALID_PRICE, 0) # ladder ASK (mx_book e) \<and>
    bk_best_ask (mx_book e') = INVALID_PRICE \<and>
    (\<forall>i p q. 0 < q \<and> 0 < p \<and> get_order i (mx_book e') = None \<and> 0 < bk_free (mx_book e') \<longrightarrow>
      (\<exists>e''. process_new_order iter i BID LIMIT p q ts dq e' = Some (Some i, e'') \<and> mx_fills e'' = mx_fills e'))"
proof -
  let ?b = "mx_book e"
  obtain q ls fs where sp: "spec_match (\<lambda>p. True) qty (ladder (opposite ASK) ?b) = (q, ls, fs)"
    by (metis prod_cases3)
  have "\<forall>(i, p, r) \<in> set (ladder BID ?b). 0 < r"
    using ladder_entry [OF assms(2)] matching_order(3) [OF assms(2)] by fastforce
  then have q: "q = 0" using spec_match_all [of "ladder BID ?b" qty] assms(5,6) sp by simp
  have d: "dict_get (bk_orders ?b) oid = None" using assms(3) by (simp add: get_order_def)
  from market_refines [OF assms(1,2) d assms(4,5) sp, of price ts dq] q obtain e' where
    e': "process_new_order iter oid ASK MARKET price qty ts dq e = Some (None, e')"
      "matching {oid} (grown qty (market_order oid ASK qty ts)) (mx_book e')"
      "ladder ASK (mx_book e') = spec_insert ASK oid (market_price ASK) 0 (ladder ASK ?b)" by auto
  have pos: "INVALID_PRICE < p" if "(i, p, r) \<in> set (ladder ASK ?b)" for i p r
    using ladder_entry [OF assms(2) that] matching_order(5) [OF assms(2)] INVALID_PRICE_neg by fastforce
  have "filter (\<lambda>(j, p, r). p \<le> INVALID_PRICE) (ladder ASK ?b) = []"
    "filter (\<lambda>(j, p, r). INVALID_PRICE < p) (ladder ASK ?b) = ladder ASK ?b"
    using pos by (fastforce simp: filter_empty_conv intro!: filter_True)+
  then have l: "ladder ASK (mx_book e') = (oid, INVALID_PRICE, 0) # ladder ASK ?b"
    unfolding e'(3) by (simp add: spec_insert_def market_price_def price_rank_def)
  have best: "bk_best_ask (mx_book e') = INVALID_PRICE" by (rule stale_best_ask [OF e'(2) l])
  have "\<exists>e''. process_new_order iter i BID LIMIT p q ts dq e' = Some (Some i, e'') \<and> mx_fills e'' = mx_fills e'"
    if "0 < q" "0 < p" "get_order i (mx_book e') = None" "0 < bk_free (mx_book e')" for i p q
    using that best no_ask_no_trade by blast
  then show ?thesis using e'(1) l best by blast
qed

theorem filled_market_sell_stays_witness:
  "\<exists>e'. process_new_order (\<lambda>d. d) 9 ASK MARKET 0 5 0 0 demo_engine = Some (None, e') \<and>
    ladder ASK (mx_book e') = [(9, INVALID_PRICE, 0), (2, 101, 5), (3, 102, 4)] \<and>
    bk_best_ask (mx_book e') = INVALID_PRICE"
proof -
  have n: "get_order 9 (mx_book demo_engine) = None" by (simp add: get_order_def demo_facts dict_get_def)
  show ?thesis
    using filled_market_sell_stays [OF iter_ok_id demo_book_ok n demo_orders(2), of 5 0 0 0]
    by (auto simp: demo_ladders)
qed

text \<open>
  C37. A modification to no more than what is left of an order succeeds. At the same price it lowers
  the quantity and leaves the order where it stands in the queue; at another price the order goes to
  the back of the queue there. It is never matched: no fill is reported, and a bid moved to the
  price of an ask, or above it, leaves the book crossed.
\<close>

theorem modify_moves_without_matching:
  assumes "iter_ok iter" "book_ok {} {} (mx_book e)" "get_order oid (mx_book e) = Some o1"
    "0 < q" "q \<le> remaining o1" "0 < p"
  shows "\<exists>e'. process_modify iter oid p q e = (True, e') \<and> book_ok {} {} (mx_book e') \<and>
    view (mx_book e') = spec_modify oid (od_side o1) (od_price o1) (remaining o1) p q (view (mx_book e)) \<and>
    mx_fills e' = mx_fills e \<and>
    (od_side o1 = BID \<and> p \<noteq> od_price o1 \<and> (\<exists>(j, a, r) \<in> set (ladder ASK (mx_book e)). a \<le> p) \<longrightarrow>
       \<not> uncrossed (view (mx_book e')))"
proof -
  have d: "dict_get (bk_orders (mx_book e)) oid = Some o1" using assms(3) by (simp add: get_order_def)
  obtain e' where e': "process_modify iter oid p q e = (True, e')" "book_ok {} {} (mx_book e')"
    "view (mx_book e') = spec_modify oid (od_side o1) (od_price o1) (remaining o1) p q (view (mx_book e))"
    "filled_from e oid [] e'"
    using modify_refines [OF assms(1,2) d assms(4-6)] by blast
  have "\<not> uncrossed (view (mx_book e'))"
    if c: "od_side o1 = BID" "p \<noteq> od_price o1" "(j, a, r) \<in> set (ladder ASK (mx_book e))" "a \<le> p" for j a r
  proof -
    have "j \<noteq> oid" using other_side [OF assms(2) d, of ASK] c(1,3) by force
    then have "(oid, p, q) \<in> set (view (mx_book e') BID)" "(j, a, r) \<in> set (view (mx_book e') ASK)"
      unfolding e'(3) using c by (simp_all add: spec_modify_def spec_insert_def spec_cancel_def view_def)
    then show ?thesis using c(4) by (fastforce simp: uncrossed_def)
  qed
  then show ?thesis using e' by (fastforce simp: filled_from_def)
qed

theorem modify_moves_without_matching_witness:
  "\<exists>e'. process_modify (\<lambda>d. d) 1 101 5 demo_engine = (True, e') \<and> mx_fills e' = [] \<and>
    ladder BID (mx_book e') = [(1, 101, 5)] \<and> \<not> uncrossed (view (mx_book e'))"
proof -
  have o: "get_order 1 (mx_book demo_engine) = Some (limit_order 1 BID 99 5 0)"
    by (simp add: get_order_def demo_facts dict_get_def)
  have "od_side (limit_order 1 BID 99 5 0) = BID" "od_price (limit_order 1 BID 99 5 0) = 99"
    "remaining (limit_order 1 BID 99 5 0) = 5" "mx_fills demo_engine = []"
    by (simp_all add: limit_order_def remaining_def demo_engine_def engine_init_def)
  note s = this
  obtain e' where "process_modify (\<lambda>d. d) 1 101 5 demo_engine = (True, e')"
    "view (mx_book e') = spec_modify 1 BID 99 5 101 5 (view (mx_book demo_engine))" "mx_fills e' = []"
    "\<not> uncrossed (view (mx_book e'))"
    using modify_moves_without_matching [OF iter_ok_id demo_book_ok o, of 5 101] by (auto simp: s demo_ladders)
  then show ?thesis
    by (intro exI [of _ e'])
      (simp add: view_def fun_eq_iff spec_modify_def spec_cancel_def spec_insert_def demo_ladders)
qed

text \<open>
  C38. A cancellation succeeds exactly when the order is in the book, and then takes that order and
  nothing else off; an unknown identifier changes neither ladder. Either way the order is gone
  afterwards, nothing is filled and the book stays well formed.
\<close>

theorem cancel_removes_exactly:
  assumes "iter_ok iter" "book_ok {} {} (mx_book e)"
  shows "\<exists>e'. process_cancel iter oid e = (has_order oid e, e') \<and>
    view (mx_book e') = spec_cancel oid (view (mx_book e)) \<and> \<not> has_order oid e' \<and>
    mx_fills e' = mx_fills e \<and> book_ok {} {} (mx_book e') \<and>
    mx_total_cancels e' = mx_total_cancels e + (if has_order oid e then 1 else 0)"
proof -
  obtain e' where e': "process_cancel iter oid e = (has_order oid e, e')" "book_ok {} {} (mx_book e')"
    "view (mx_book e') = spec_cancel oid (view (mx_book e))" "\<not> has_order oid e'" "filled_from e oid [] e'"
    using cancel_refines [OF assms] by blast
  then have "mx_total_cancels e' = mx_total_cancels e + (if has_order oid e then 1 else 0)"
    by (auto simp: process_cancel_def split: prod.split_asm)
  then show ?thesis using e' by (simp add: filled_from_def)
qed

theorem cancel_removes_exactly_witness:
  "\<exists>e'. process_cancel (\<lambda>d. d) 2 demo_engine = (True, e') \<and> ladder ASK (mx_book e') = [(3, 102, 4)] \<and>
    ladder BID (mx_book e') = [(1, 99, 5)]"
proof -
  obtain e' where "process_cancel (\<lambda>d. d) 2 demo_engine = (has_order 2 demo_engine, e')"
    "view (mx_book e') = spec_cancel 2 (view (mx_book demo_engine))"
    using cancel_removes_exactly [OF iter_ok_id demo_book_ok, of 2] by blast
  then show ?thesis
    by (intro exI [of _ e'])
      (simp add: view_def fun_eq_iff spec_cancel_def demo_ladders has_order_def get_order_def demo_orders dict_get_def)
qed

section \<open>What the clients see\<close>

text \<open>
  C39. A book update shows the book: its best prices are those at the tops of the ladders, or
  the value for no price; its levels are the best ten prices of each side in order, each with the
  sum of what is left of the orders there, and the rest of each array is zero. The order
  in which the hash maps are walked does not matter.
\<close>

theorem snapshot_shows_book:
  assumes "iter_ok iter" "book_ok {} {} (mx_book e)"
  shows "let u = get_book_snapshot iter e; V = view (mx_book e);
      shown = (\<lambda>s. take MAX_DEPTH_LEVELS (spec_depth (V s)))
    in eb_best_bid u = word_of_int (spec_top (V BID)) \<and> eb_best_ask u = word_of_int (spec_top (V ASK)) \<and>
    eb_num_bid_levels u = of_nat (length (shown BID)) \<and> eb_num_ask_levels u = of_nat (length (shown ASK)) \<and>
    eb_bid_prices u = depth_array (map fst (shown BID)) \<and> eb_bid_quantities u = depth_array (map snd (shown BID)) \<and>
    eb_ask_prices u = depth_array (map fst (shown ASK)) \<and> eb_ask_quantities u = depth_array (map snd (shown ASK)) \<and>
    (\<forall>s. sorted (map (price_rank s) (map fst (shown s))) \<and> distinct (map fst (shown s)))"
proof -
  have top: "best_price s (mx_book e) = spec_top (ladder s (mx_book e))" for s
  proof (cases "ladder s (mx_book e)")
    case Nil
    then show ?thesis using best_valid [OF assms(2), of s] ladder_Nil [OF assms(2), of s] by (simp add: spec_top_def)
  next
    case (Cons x ls)
    then show ?thesis using hd_ladder_best [OF assms(2), of s] by (cases x) (simp add: spec_top_def)
  qed
  have depth: "get_depth iter s n (mx_book e) = take n (spec_depth (ladder s (mx_book e)))" for s n
    by (rule get_depth_spec [OF assms(1,2)])
  have "map fst (spec_depth (ladder s (mx_book e))) = prices s (levels_of s (mx_book e))" for s
    by (simp add: spec_depth_ladder [OF assms(2)] comp_def)
  then have sh: "map fst (take n (spec_depth (ladder s (mx_book e)))) = take n (prices s (levels_of s (mx_book e)))" for s n
    by (simp flip: take_map)
  have "sorted (map (price_rank s) (map fst (take n (spec_depth (ladder s (mx_book e)))))) \<and>
      distinct (map fst (take n (spec_depth (ladder s (mx_book e)))))" for s n
    unfolding sh using sorted_wrt_take [OF sorted_prices, of n s]
      distinct_prices [OF book_okD(2) [OF assms(2)], of s s] by (simp add: take_map)
  note shown = this
  show ?thesis using top [of BID] top [of ASK] shown
    by (simp add: get_book_snapshot_def depth view_def Let_def)
qed

theorem snapshot_shows_book_witness:
  "eb_best_bid (get_book_snapshot (\<lambda>d. d) demo_engine) = 99 \<and>
   eb_ask_prices (get_book_snapshot (\<lambda>d. d) demo_engine) = [101, 102] @ replicate 8 0 \<and>
   eb_ask_quantities (get_book_snapshot (\<lambda>d. d) demo_engine) = [5, 4] @ replicate 8 0"
  using snapshot_shows_book [OF iter_ok_id demo_book_ok]
  by (simp add: demo_ladders spec_depth_def spec_top_def view_def depth_array_def MAX_DEPTH_LEVELS_def Let_def)

text \<open>
  The engine's clients never learn of a trade. Whatever commands the engine has processed,
  and in whatever pieces TCP delivers what it queued for a client since, the client decodes one book
  update for each book update the engine made and nothing else; in particular no fill.
\<close>

lemma clients_see_only_books:
  assumes "run_engine iter cmds engine_init = Some e"
    "concat pieces = concat (map engine_msg_bytes (concat (map (event_messages k) (mx_out e))))"
    "\<forall>d \<in> set pieces. d \<noteq> [] \<and> length d \<le> 4096"
    "sock c = Some s" "connected s" "recv_script s = map Received pieces @ later" "recv_buffer c = []"
  shows "\<exists>ms c'. polls (length pieces) c = (Inr ms, c') \<and> recv_buffer c' = [] \<and>
    ms = concat (map (\<lambda>ev. case ev of Book_Event u \<Rightarrow> [(BOOK_UPDATE, Book_Message (client_book u))]
      | Reject_Event _ _ _ \<Rightarrow> []) (mx_out e))"
proof -
  let ?msgs = "concat (map (event_messages k) (mx_out e))"
  have "list_all event_ok (mx_out e)"
    by (rule run_events [OF _ _ assms(1)]) (simp_all add: engine_init_def safe_init)
  then have "list_all engine_msg_ok ?msgs" by (rule engine_stream)
  moreover have empty: "poll_loop [] = ([], [], None)" by (rule poll_loop_short) simp
  ultimately have "poll_loop (concat pieces) = ([], concat (map client_messages ?msgs), None)"
    using poll_engine_stream [of ?msgs "[]"] assms(2) by simp
  moreover have "concat (map client_messages (concat (map (event_messages k) evs))) =
      concat (map (\<lambda>ev. case ev of Book_Event u \<Rightarrow> [(BOOK_UPDATE, Book_Message (client_book u))]
        | Reject_Event _ _ _ \<Rightarrow> []) evs)" for evs
  proof (induction evs)
    case (Cons ev evs)
    then show ?case by (cases ev) simp_all
  qed simp
  ultimately show ?thesis
    using polls_segments [OF assms(4-6,3), of "[]"] assms(7) empty by simp
qed

end
