(* ===== verification/Object_Pool.thy ===== *)
theory Object_Pool
  imports Arena_Prelude
begin

text \<open>
  The object pool of \<open>engine/include/object_pool.hpp\<close>: a block of slots, each either a live object or a
  node of the free list. A slot is a union, so the link of a live slot is gone, and reading it is
  undefined behaviour: that outcome is \<open>None\<close>.
\<close>

section \<open>Slots and the free list\<close>

datatype 'a slot = Free_Node "nat option" | Live 'a

record 'a object_pool =
  op_storage :: "'a slot list"
  op_head :: "nat option"
  op_allocated :: nat

text \<open>The loop of the constructor over the slots from \<open>i\<close> on.\<close>

fun link_slots :: "nat \<Rightarrow> nat \<Rightarrow> 'a slot list" where
  "link_slots 0 i = []"
| "link_slots (Suc n) i = Free_Node (if n = 0 then None else Some (i + 1)) # link_slots n (i + 1)"

definition pool_init :: "nat \<Rightarrow> 'a object_pool" where
  "pool_init capacity = \<lparr>op_storage = link_slots capacity 0, op_head = Some 0, op_allocated = 0\<rparr>"

definition allocate :: "'a \<Rightarrow> 'a object_pool \<Rightarrow> (nat option \<times> 'a object_pool) option" where
  "allocate fresh p =
     (case op_head p of
        None \<Rightarrow> Some (None, p)
      | Some i \<Rightarrow>
          (if i < length (op_storage p)
           then (case op_storage p ! i of
                   Free_Node nxt \<Rightarrow> Some (Some i, p\<lparr>op_head := nxt, op_allocated := op_allocated p + 1,
                     op_storage := (op_storage p)[i := Live fresh]\<rparr>)
                 | Live _ \<Rightarrow> None)
           else None))"

definition owns :: "nat \<Rightarrow> 'a object_pool \<Rightarrow> bool" where
  "owns i p \<longleftrightarrow> i < length (op_storage p)"

text \<open>The count is unsigned; the destructor runs on whatever is in the slot.\<close>

definition deallocate :: "nat \<Rightarrow> 'a object_pool \<Rightarrow> 'a object_pool option" where
  "deallocate i p =
     (if owns i p
      then (case op_storage p ! i of
              Live _ \<Rightarrow> Some (p\<lparr>op_storage := (op_storage p)[i := Free_Node (op_head p)], op_head := Some i,
                op_allocated := nat ((int (op_allocated p) - 1) mod 2 ^ 64)\<rparr>)
            | Free_Node _ \<Rightarrow> None)
      else None)"

definition pool_available :: "'a object_pool \<Rightarrow> nat" where
  "pool_available p = length (op_storage p) - op_allocated p"

section \<open>What the list holds\<close>

fun free_path :: "'a slot list \<Rightarrow> nat option \<Rightarrow> nat list \<Rightarrow> bool" where
  "free_path st h [] \<longleftrightarrow> h = None"
| "free_path st h (i # is) \<longleftrightarrow> h = Some i \<and> i < length st \<and> (\<exists>nxt. st ! i = Free_Node nxt \<and> free_path st nxt is)"

definition is_live :: "'a slot \<Rightarrow> bool" where
  "is_live s = (case s of Live _ \<Rightarrow> True | Free_Node _ \<Rightarrow> False)"

definition live_slots :: "'a object_pool \<Rightarrow> nat set" where
  "live_slots p = {i. i < length (op_storage p) \<and> is_live (op_storage p ! i)}"

definition pool_ok :: "nat \<Rightarrow> nat list \<Rightarrow> 'a object_pool \<Rightarrow> bool" where
  "pool_ok capacity free p \<longleftrightarrow> length (op_storage p) = capacity \<and> capacity < 2 ^ 64 \<and> distinct free \<and>
     free_path (op_storage p) (op_head p) free \<and> live_slots p = {..<capacity} - set free \<and> set free \<subseteq> {..<capacity} \<and>
     op_allocated p = capacity - length free"

lemma free_path_update: "i \<notin> set is \<Longrightarrow> free_path (st[i := s]) h is = free_path st h is"
  by (induction "is" arbitrary: h) auto

lemma free_path_slots: "free_path st h is \<Longrightarrow> j \<in> set is \<Longrightarrow> j < length st \<and> \<not> is_live (st ! j)"
  by (induction "is" arbitrary: h) (auto simp: is_live_def)

lemma length_link [simp]: "length (link_slots n i) = n"
  by (induction n arbitrary: i) auto

lemma nth_link: "j < n \<Longrightarrow> link_slots n i ! j = Free_Node (if j + 1 < n then Some (i + j + 1) else None)"
proof (induction n arbitrary: i j)
  case (Suc n)
  then show ?case by (cases j) auto
qed simp

lemma link_path:
  assumes "j \<le> n"
  shows "free_path (link_slots n 0) (if j < n then Some j else None) [j..<n]"
  using assms
proof (induction rule: inc_induct)
  case (step m)
  then have "[m..<n] = m # [Suc m..<n]" by (simp add: upt_conv_Cons)
  then show ?case using step by (auto simp: nth_link)
qed simp

lemma pool_init_ok:
  assumes "0 < capacity" "capacity < 2 ^ 64"
  shows "pool_ok capacity [0..<capacity] (pool_init capacity :: 'a object_pool)"
proof -
  have "\<not> is_live ((link_slots capacity 0 :: 'a slot list) ! i)" if "i < capacity" for i
    using that by (simp add: nth_link is_live_def)
  then have "live_slots (pool_init capacity :: 'a object_pool) = {}" by (simp add: live_slots_def pool_init_def)
  then show ?thesis using assms link_path [of 0 capacity] by (auto simp: pool_ok_def pool_init_def)
qed

lemma allocate_some:
  assumes "pool_ok capacity (i # free) p"
  shows "\<exists>p'. allocate x p = Some (Some i, p') \<and> pool_ok capacity free p' \<and> op_storage p' ! i = Live x \<and>
    (\<forall>j. j \<noteq> i \<longrightarrow> op_storage p' ! j = op_storage p ! j)"
proof -
  let ?st = "op_storage p"
  obtain nxt where n: "op_head p = Some i" "i < length ?st" "?st ! i = Free_Node nxt" "free_path ?st nxt free" "i \<notin> set free"
    using assms by (auto simp: pool_ok_def)
  let ?p = "p\<lparr>op_head := nxt, op_allocated := op_allocated p + 1, op_storage := ?st[i := Live x]\<rparr>"
  have "live_slots ?p = insert i (live_slots p)"
    using n(2) by (auto simp: live_slots_def nth_list_update is_live_def)
  moreover have "length (i # free) \<le> capacity"
    using assms card_mono [of "{..<capacity}" "set (i # free)"] by (auto simp: pool_ok_def distinct_card)
  ultimately have "pool_ok capacity free ?p"
    using assms n by (auto simp: pool_ok_def free_path_update)
  then show ?thesis using n by (auto simp: allocate_def)
qed

lemma allocate_none: "pool_ok capacity [] p \<Longrightarrow> allocate x p = Some (None, p)"
  by (simp add: pool_ok_def allocate_def)

lemma deallocate_live:
  assumes "pool_ok capacity free p" "i \<in> live_slots p"
  shows "\<exists>p'. deallocate i p = Some p' \<and> pool_ok capacity (i # free) p' \<and> (\<forall>j. j \<noteq> i \<longrightarrow> op_storage p' ! j = op_storage p ! j)"
proof -
  let ?st = "op_storage p"
  obtain x where x: "i < length ?st" "?st ! i = Live x"
    using assms(2) by (auto simp: live_slots_def is_live_def split: slot.split_asm)
  let ?p = "p\<lparr>op_storage := ?st[i := Free_Node (op_head p)], op_head := Some i,
    op_allocated := nat ((int (op_allocated p) - 1) mod 2 ^ 64)\<rparr>"
  have i: "i \<notin> set free" "i < capacity" using assms by (auto simp: pool_ok_def)
  have "live_slots ?p = live_slots p - {i}"
    using x by (auto simp: live_slots_def nth_list_update is_live_def split: if_split_asm)
  moreover have len: "length free < capacity"
    using assms(1) i psubset_card_mono [of "{..<capacity}" "set free"] by (auto simp: pool_ok_def distinct_card)
  then have a: "op_allocated p = capacity - length free" "op_allocated p < 2 ^ 64" "0 < op_allocated p"
    using assms(1) by (auto simp: pool_ok_def)
  then have "nat ((int (op_allocated p) - 1) mod 2 ^ 64) = capacity - length (i # free)"
    by (simp add: nat_diff_distrib)
  ultimately have "pool_ok capacity (i # free) ?p"
    using assms(1) i x by (auto simp: pool_ok_def free_path_update)
  then show ?thesis using x by (auto simp: deallocate_def owns_def)
qed

section \<open>The allocator's contract\<close>

text \<open>
  What the order book relies on: an address handed out is not in use, an object stays what it is
  until its own address is given back, and an allocation fails only when every slot is in use.
\<close>

datatype 'a pool_op = Alloc 'a | Dealloc nat

fun run_pool :: "('a \<Rightarrow> 's \<Rightarrow> (nat option \<times> 's) option) \<Rightarrow> (nat \<Rightarrow> 's \<Rightarrow> 's option) \<Rightarrow> 'a pool_op list \<Rightarrow> 's \<Rightarrow>
    (nat option list \<times> 's) option" where
  "run_pool al de [] s = Some ([], s)"
| "run_pool al de (Alloc x # ops) s =
     (case al x s of None \<Rightarrow> None
      | Some (r, s') \<Rightarrow> (case run_pool al de ops s' of None \<Rightarrow> None | Some (rs, s'') \<Rightarrow> Some (r # rs, s'')))"
| "run_pool al de (Dealloc i # ops) s = (case de i s of None \<Rightarrow> None | Some s' \<Rightarrow> run_pool al de ops s')"

text \<open>The client gives back only what it holds.\<close>

fun guarded :: "('a \<Rightarrow> 's \<Rightarrow> (nat option \<times> 's) option) \<Rightarrow> (nat \<Rightarrow> 's \<Rightarrow> 's option) \<Rightarrow> ('s \<Rightarrow> nat \<rightharpoonup> 'a) \<Rightarrow>
    'a pool_op list \<Rightarrow> 's \<Rightarrow> bool" where
  "guarded al de held [] s \<longleftrightarrow> True"
| "guarded al de held (Alloc x # ops) s \<longleftrightarrow>
     (case al x s of None \<Rightarrow> True | Some (r, s') \<Rightarrow> guarded al de held ops s')"
| "guarded al de held (Dealloc i # ops) s \<longleftrightarrow>
     held s i \<noteq> None \<and> (case de i s of None \<Rightarrow> True | Some s' \<Rightarrow> guarded al de held ops s')"

text \<open>The allocator keeps its promises, and what the client holds in the end.\<close>

fun replay :: "nat \<Rightarrow> 'a pool_op list \<Rightarrow> nat option list \<Rightarrow> (nat \<rightharpoonup> 'a) \<Rightarrow> (nat \<rightharpoonup> 'a) option" where
  "replay cap [] [] m = Some m"
| "replay cap (Alloc x # ops) (Some i # outs) m =
     (if i < cap \<and> m i = None then replay cap ops outs (m(i \<mapsto> x)) else None)"
| "replay cap (Alloc x # ops) (None # outs) m =
     (if card (dom m) = cap then replay cap ops outs m else None)"
| "replay cap (Dealloc i # ops) outs m = replay cap ops outs (m(i := None))"
| "replay cap _ _ m = None"

locale allocator =
  fixes al :: "'a \<Rightarrow> 's \<Rightarrow> (nat option \<times> 's) option" and de :: "nat \<Rightarrow> 's \<Rightarrow> 's option"
    and held :: "'s \<Rightarrow> (nat \<rightharpoonup> 'a)" and inv :: "'s \<Rightarrow> bool" and cap :: nat
  assumes al_law: "inv s \<Longrightarrow> (\<exists>i s'. al x s = Some (Some i, s') \<and> inv s' \<and> i < cap \<and> held s i = None \<and> held s' = (held s)(i \<mapsto> x)) \<or>
      al x s = Some (None, s) \<and> card (dom (held s)) = cap"
    and de_law: "inv s \<Longrightarrow> held s i \<noteq> None \<Longrightarrow> \<exists>s'. de i s = Some s' \<and> inv s' \<and> held s' = (held s)(i := None)"
begin

lemma run_replays:
  assumes "inv s" "guarded al de held ops s"
  shows "\<exists>outs s'. run_pool al de ops s = Some (outs, s') \<and> inv s' \<and> replay cap ops outs (held s) = Some (held s')"
  using assms
proof (induction ops arbitrary: s)
  case (Cons op ops)
  show ?case
  proof (cases op)
    case (Alloc x)
    consider (ok) i s' where "al x s = Some (Some i, s')" "inv s'" "i < cap" "held s i = None" "held s' = (held s)(i \<mapsto> x)"
      | (full) "al x s = Some (None, s)" "card (dom (held s)) = cap"
      using al_law [OF Cons.prems(1)] by blast
    then show ?thesis
    proof cases
      case ok
      then have "guarded al de held ops s'" using Cons.prems(2) Alloc by simp
      from Cons.IH [OF ok(2) this] obtain outs s2 where
        "run_pool al de ops s' = Some (outs, s2)" "inv s2" "replay cap ops outs (held s') = Some (held s2)" by blast
      then show ?thesis using ok Alloc by (intro exI [of _ "Some i # outs"] exI [of _ s2]) simp
    next
      case full
      then have "guarded al de held ops s" using Cons.prems(2) Alloc by simp
      from Cons.IH [OF Cons.prems(1) this] obtain outs s2 where
        "run_pool al de ops s = Some (outs, s2)" "inv s2" "replay cap ops outs (held s) = Some (held s2)" by blast
      then show ?thesis using full Alloc by (intro exI [of _ "None # outs"] exI [of _ s2]) simp
    qed
  next
    case (Dealloc i)
    then obtain s' where s': "de i s = Some s'" "inv s'" "held s' = (held s)(i := None)"
      using de_law [OF Cons.prems(1), of i] Cons.prems(2) by auto
    then have "guarded al de held ops s'" using Cons.prems(2) Dealloc by simp
    from Cons.IH [OF s'(2) this] obtain outs s2 where
      "run_pool al de ops s' = Some (outs, s2)" "inv s2" "replay cap ops outs (held s') = Some (held s2)" by blast
    then show ?thesis using s' Dealloc by (intro exI [of _ outs] exI [of _ s2]) simp
  qed
qed simp

end

section \<open>The pool keeps the contract\<close>

definition contents :: "'a object_pool \<Rightarrow> (nat \<rightharpoonup> 'a)" where
  "contents p i = (if i < length (op_storage p)
     then (case op_storage p ! i of Live x \<Rightarrow> Some x | Free_Node _ \<Rightarrow> None) else None)"

lemma dom_contents: "dom (contents p) = live_slots p"
  by (auto simp: contents_def live_slots_def is_live_def split: slot.splits if_splits)

lemma contents_change:
  assumes "length (op_storage p') = length (op_storage p)" "\<forall>j. j \<noteq> i \<longrightarrow> op_storage p' ! j = op_storage p ! j"
    "contents p' i = v"
  shows "contents p' = (contents p)(i := v)"
  using assms by (auto simp: contents_def fun_eq_iff)

definition pool_inv :: "nat \<Rightarrow> 'a object_pool \<Rightarrow> bool" where
  "pool_inv capacity p \<longleftrightarrow> (\<exists>free. pool_ok capacity free p)"

lemma pool_available_live:
  assumes "pool_ok capacity free p"
  shows "pool_available p = length free" "card (live_slots p) = capacity - length free" "length free \<le> capacity"
proof -
  have f: "set free \<subseteq> {..<capacity}" "card (set free) = length free" using assms by (simp_all add: pool_ok_def distinct_card)
  then show l: "length free \<le> capacity" using card_mono [of "{..<capacity}" "set free"] by simp
  then show "pool_available p = length free" using assms by (simp add: pool_available_def pool_ok_def)
  show "card (live_slots p) = capacity - length free" using assms f by (simp add: pool_ok_def card_Diff_subset)
qed

interpretation pool: allocator allocate deallocate contents "pool_inv capacity" capacity for capacity
proof
  fix p :: "'a object_pool" and x
  assume "pool_inv capacity p"
  then obtain free where ok: "pool_ok capacity free p" by (auto simp: pool_inv_def)
  show "(\<exists>i p'. allocate x p = Some (Some i, p') \<and> pool_inv capacity p' \<and> i < capacity \<and> contents p i = None \<and>
      contents p' = (contents p)(i \<mapsto> x)) \<or> allocate x p = Some (None, p) \<and> card (dom (contents p)) = capacity"
  proof (cases free)
    case Nil
    then show ?thesis using ok allocate_none [of capacity p x] pool_available_live(2) [OF ok]
      by (simp add: dom_contents)
  next
    case (Cons i rest)
    then obtain p' where p': "allocate x p = Some (Some i, p')" "pool_ok capacity rest p'" "op_storage p' ! i = Live x"
      "\<forall>j. j \<noteq> i \<longrightarrow> op_storage p' ! j = op_storage p ! j"
      using allocate_some [of capacity i rest p x] ok by auto
    have l: "length (op_storage p') = length (op_storage p)" "i < length (op_storage p')" "i < capacity" "i \<notin> live_slots p"
      using ok p'(2) Cons by (auto simp: pool_ok_def)
    have "contents p' = (contents p)(i \<mapsto> x)"
      by (rule contents_change [OF l(1) p'(4)]) (use l(2) p'(3) in \<open>simp add: contents_def\<close>)
    moreover have "contents p i = None" using l(4) dom_contents [of p] by auto
    ultimately show ?thesis using p' l(3) by (auto simp: pool_inv_def)
  qed
next
  fix p :: "'a object_pool" and i
  assume "pool_inv capacity p" and h: "contents p i \<noteq> None"
  then obtain free where ok: "pool_ok capacity free p" by (auto simp: pool_inv_def)
  have "i \<in> live_slots p" using h dom_contents [of p] by blast
  then obtain p' where p': "deallocate i p = Some p'" "pool_ok capacity (i # free) p'"
    "\<forall>j. j \<noteq> i \<longrightarrow> op_storage p' ! j = op_storage p ! j"
    using deallocate_live [OF ok] by blast
  have l: "length (op_storage p') = length (op_storage p)" "i \<notin> live_slots p'" using ok p'(2) by (auto simp: pool_ok_def)
  have "contents p' = (contents p)(i := None)"
    by (rule contents_change [OF l(1) p'(3)]) (use l(2) dom_contents [of p'] in auto)
  then show "\<exists>p'. deallocate i p = Some p' \<and> pool_inv capacity p' \<and> contents p' = (contents p)(i := None)"
    using p' by (auto simp: pool_inv_def)
qed

text \<open>
  C22. The object pool hands out each slot once. Whatever sequence of allocations and
  deallocations runs on a new pool, as long as only live objects are given back: nothing undefined
  happens, an address handed out is in the block and not in use, an allocation fails exactly when
  every slot is in use, no live object is overwritten, and the count of free slots is right.
\<close>

theorem pool_hands_out_once:
  assumes "0 < capacity" "capacity < 2 ^ 64" "guarded allocate deallocate contents ops (pool_init capacity)"
  shows "\<exists>outs p. run_pool allocate deallocate ops (pool_init capacity) = Some (outs, p) \<and>
    replay capacity ops outs Map.empty = Some (contents p) \<and>
    pool_available p = capacity - card (dom (contents p))"
proof -
  have ok: "pool_ok capacity [0..<capacity] (pool_init capacity :: 'a object_pool)" by (rule pool_init_ok [OF assms(1,2)])
  then have "live_slots (pool_init capacity :: 'a object_pool) = {}" by (auto simp: pool_ok_def)
  then have e: "contents (pool_init capacity :: 'a object_pool) = Map.empty" using dom_contents by (metis dom_eq_empty_conv)
  have "pool_inv capacity (pool_init capacity :: 'a object_pool)" using ok by (auto simp: pool_inv_def)
  from pool.run_replays [OF this assms(3)] e obtain outs p where
    r: "run_pool allocate deallocate ops (pool_init capacity) = Some (outs, p)" "pool_inv capacity p"
      "replay capacity ops outs Map.empty = Some (contents p)" by auto
  then obtain free where "pool_ok capacity free p" by (auto simp: pool_inv_def)
  note A = pool_available_live [OF this]
  have "pool_available p = capacity - card (dom (contents p))" using A by (simp add: dom_contents)
  then show ?thesis using r by blast
qed

theorem pool_hands_out_once_witness:
  "\<exists>p. run_pool allocate deallocate [Alloc CHR ''x'', Alloc CHR ''y'', Alloc CHR ''z'', Dealloc 0, Alloc CHR ''w''] (pool_init 2) =
    Some ([Some 0, Some 1, None, Some 0], p) \<and> pool_available p = 0"
proof -
  let ?ops = "[Alloc CHR ''x'', Alloc CHR ''y'', Alloc CHR ''z'', Dealloc 0, Alloc CHR ''w'']"
  note d = allocate_def deallocate_def pool_init_def owns_def contents_def numeral_2_eq_2
  have g: "guarded allocate deallocate contents ?ops (pool_init 2)" by (simp add: d)
  have r: "\<exists>p. run_pool allocate deallocate ?ops (pool_init 2) = Some ([Some 0, Some 1, None, Some 0], p)"
    by (simp add: d)
  obtain outs p where p: "run_pool allocate deallocate ?ops (pool_init 2) = Some (outs, p)"
    "replay 2 ?ops outs Map.empty = Some (contents p)" "pool_available p = 2 - card (dom (contents p))"
    using pool_hands_out_once [OF _ _ g] by auto
  have o: "outs = [Some 0, Some 1, None, Some 0]" using r p(1) by auto
  have "contents p = [1 \<mapsto> CHR ''y'', 0 \<mapsto> CHR ''w'']" using p(2) unfolding o by (auto split: if_split_asm)
  then show ?thesis using p o by (auto simp: card_insert_if)
qed

end
