(* ===== verification/Spsc_Queue.thy ===== *)
theory Spsc_Queue
  imports Arena_Prelude "HOL-Library.Sublist"
begin

text \<open>
  The lock-free queue of \<open>engine/include/spsc_queue.hpp\<close> between the I/O thread and the engine's thread,
  with the single memory accesses of \<open>push\<close> and \<open>pop\<close> as steps. An atomic index is the list of the
  values stored in it, the newest last: a thread reads its own index as it left it, and the other
  thread's index as any value that is not older than the one it read before, which is all that
  acquire and release promise.
\<close>

section \<open>The queue\<close>

type_synonym atomic = "nat list"

record 'a spsc_queue =
  sq_buffer :: "'a list"
  sq_write :: atomic
  sq_read :: atomic

definition spsc_init :: "nat \<Rightarrow> 'a \<Rightarrow> 'a spsc_queue" where
  "spsc_init capacity d = \<lparr>sq_buffer = replicate (capacity + 1) d, sq_write = [0], sq_read = [0]\<rparr>"

definition next_slot :: "'a spsc_queue \<Rightarrow> nat \<Rightarrow> nat" where
  "next_slot q i = (i + 1) mod length (sq_buffer q)"

text \<open>The two operations when no other thread is running.\<close>

definition spsc_push :: "'a \<Rightarrow> 'a spsc_queue \<Rightarrow> bool \<times> 'a spsc_queue" where
  "spsc_push item q =
     (let write_pos = last (sq_write q); next_write_pos = next_slot q write_pos
      in if next_write_pos = last (sq_read q) then (False, q)
         else (True, q\<lparr>sq_buffer := (sq_buffer q)[write_pos := item], sq_write := sq_write q @ [next_write_pos]\<rparr>))"

definition spsc_pop :: "'a spsc_queue \<Rightarrow> 'a option \<times> 'a spsc_queue" where
  "spsc_pop q =
     (let read_pos = last (sq_read q)
      in if read_pos = last (sq_write q) then (None, q)
         else (Some (sq_buffer q ! read_pos), q\<lparr>sq_read := sq_read q @ [next_slot q read_pos]\<rparr>))"

section \<open>Two threads\<close>

text \<open>Where the producer is in \<open>push\<close> and the consumer in \<open>pop\<close>, with their local variables.\<close>

datatype 'a push_pc = Push_Idle | Push_Check 'a nat | Push_Store 'a nat nat | Push_Publish 'a nat
datatype 'a pop_pc = Pop_Idle | Pop_Check nat | Pop_Load nat | Pop_Publish 'a nat

text \<open>\<open>sy_seen_read\<close> and \<open>sy_seen_write\<close> are the positions up to which a thread knows the other's index.\<close>

record 'a spsc_system =
  sy_queue :: "'a spsc_queue"
  sy_push :: "'a push_pc"
  sy_pop :: "'a pop_pc"
  sy_seen_read :: nat
  sy_seen_write :: nat

definition system_init :: "nat \<Rightarrow> 'a \<Rightarrow> 'a spsc_system" where
  "system_init capacity d = \<lparr>sy_queue = spsc_init capacity d, sy_push = Push_Idle, sy_pop = Pop_Idle,
     sy_seen_read = 0, sy_seen_write = 0\<rparr>"

text \<open>What a thread sees of a step: the result of a call, or nothing.\<close>

datatype 'a spsc_event = Internal | Pushed 'a | Push_Full 'a | Popped 'a | Pop_Empty

inductive spsc_step :: "'a spsc_system \<Rightarrow> 'a spsc_event \<Rightarrow> 'a spsc_system \<Rightarrow> bool" where
  push_begin: "sy_push s = Push_Idle \<Longrightarrow>
     spsc_step s Internal (s\<lparr>sy_push := Push_Check item (last (sq_write (sy_queue s)))\<rparr>)"
| push_full: "sy_push s = Push_Check item w \<Longrightarrow> sy_seen_read s \<le> i \<Longrightarrow> i < length (sq_read (sy_queue s)) \<Longrightarrow>
     next_slot (sy_queue s) w = sq_read (sy_queue s) ! i \<Longrightarrow>
     spsc_step s (Push_Full item) (s\<lparr>sy_push := Push_Idle, sy_seen_read := i\<rparr>)"
| push_free: "sy_push s = Push_Check item w \<Longrightarrow> sy_seen_read s \<le> i \<Longrightarrow> i < length (sq_read (sy_queue s)) \<Longrightarrow>
     next_slot (sy_queue s) w \<noteq> sq_read (sy_queue s) ! i \<Longrightarrow>
     spsc_step s Internal (s\<lparr>sy_push := Push_Store item w (next_slot (sy_queue s) w), sy_seen_read := i\<rparr>)"
| push_store: "sy_push s = Push_Store item w n \<Longrightarrow>
     spsc_step s Internal (s\<lparr>sy_push := Push_Publish item n,
       sy_queue := (sy_queue s)\<lparr>sq_buffer := (sq_buffer (sy_queue s))[w := item]\<rparr>\<rparr>)"
| push_publish: "sy_push s = Push_Publish item n \<Longrightarrow>
     spsc_step s (Pushed item) (s\<lparr>sy_push := Push_Idle,
       sy_queue := (sy_queue s)\<lparr>sq_write := sq_write (sy_queue s) @ [n]\<rparr>\<rparr>)"
| pop_begin: "sy_pop s = Pop_Idle \<Longrightarrow>
     spsc_step s Internal (s\<lparr>sy_pop := Pop_Check (last (sq_read (sy_queue s)))\<rparr>)"
| pop_empty: "sy_pop s = Pop_Check r \<Longrightarrow> sy_seen_write s \<le> i \<Longrightarrow> i < length (sq_write (sy_queue s)) \<Longrightarrow>
     r = sq_write (sy_queue s) ! i \<Longrightarrow>
     spsc_step s Pop_Empty (s\<lparr>sy_pop := Pop_Idle, sy_seen_write := i\<rparr>)"
| pop_some: "sy_pop s = Pop_Check r \<Longrightarrow> sy_seen_write s \<le> i \<Longrightarrow> i < length (sq_write (sy_queue s)) \<Longrightarrow>
     r \<noteq> sq_write (sy_queue s) ! i \<Longrightarrow>
     spsc_step s Internal (s\<lparr>sy_pop := Pop_Load r, sy_seen_write := i\<rparr>)"
| pop_load: "sy_pop s = Pop_Load r \<Longrightarrow>
     spsc_step s Internal (s\<lparr>sy_pop := Pop_Publish (sq_buffer (sy_queue s) ! r) (next_slot (sy_queue s) r)\<rparr>)"
| pop_publish: "sy_pop s = Pop_Publish item n \<Longrightarrow>
     spsc_step s (Popped item) (s\<lparr>sy_pop := Pop_Idle,
       sy_queue := (sy_queue s)\<lparr>sq_read := sq_read (sy_queue s) @ [n]\<rparr>\<rparr>)"

inductive_cases spsc_stepE: "spsc_step s ev s'"

inductive spsc_run :: "'a spsc_system \<Rightarrow> 'a spsc_event list \<Rightarrow> 'a spsc_system \<Rightarrow> bool" where
  run_start: "spsc_run s [] s"
| run_step: "spsc_run s tr s' \<Longrightarrow> spsc_step s' ev s'' \<Longrightarrow> spsc_run s (tr @ [ev]) s''"

fun pushed :: "'a spsc_event list \<Rightarrow> 'a list" where
  "pushed [] = []"
| "pushed (Pushed x # tr) = x # pushed tr"
| "pushed (ev # tr) = pushed tr"

fun popped :: "'a spsc_event list \<Rightarrow> 'a list" where
  "popped [] = []"
| "popped (Popped x # tr) = x # popped tr"
| "popped (ev # tr) = popped tr"

lemma pushed_append [simp]: "pushed (xs @ ys) = pushed xs @ pushed ys"
  by (induction xs rule: pushed.induct) auto

lemma popped_append [simp]: "popped (xs @ ys) = popped xs @ popped ys"
  by (induction xs rule: popped.induct) auto

text \<open>Both threads about to touch the same slot, or one about to leave the buffer.\<close>

fun races :: "'a push_pc \<Rightarrow> 'a pop_pc \<Rightarrow> bool" where
  "races (Push_Store x w n) (Pop_Load r) \<longleftrightarrow> w = r"
| "races _ _ \<longleftrightarrow> False"

fun push_in_range :: "nat \<Rightarrow> 'a push_pc \<Rightarrow> bool" where
  "push_in_range n (Push_Store x w m) \<longleftrightarrow> w < n"
| "push_in_range n _ \<longleftrightarrow> True"

fun pop_in_range :: "nat \<Rightarrow> 'a pop_pc \<Rightarrow> bool" where
  "pop_in_range n (Pop_Load r) \<longleftrightarrow> r < n"
| "pop_in_range n _ \<longleftrightarrow> True"

section \<open>The invariant\<close>

lemma mod_distinct: "a < b \<Longrightarrow> b - a < n \<Longrightarrow> a mod n \<noteq> b mod (n::nat)"
proof
  assume "a < b" "b - a < n" "a mod n = b mod n"
  then have "n dvd b - a" by (metis less_imp_le_nat mod_eq_dvd_iff_nat)
  then show False using \<open>a < b\<close> \<open>b - a < n\<close> by (auto dest!: dvd_imp_le)
qed

lemma Suc_mod_mod: "(a mod n + 1) mod n = (a + 1) mod (n::nat)"
  by (rule mod_add_left_eq)

definition stamps :: "nat \<Rightarrow> nat \<Rightarrow> nat list" where
  "stamps n k = map (\<lambda>i. i mod n) [0..<k + 1]"

lemma stamps_simps [simp]:
  "length (stamps n k) = k + 1" "last (stamps n k) = k mod n" "i \<le> k \<Longrightarrow> stamps n k ! i = i mod n"
  "stamps n (Suc k) = stamps n k @ [Suc k mod n]"
proof -
  show "i \<le> k \<Longrightarrow> stamps n k ! i = i mod n" unfolding stamps_def by (subst nth_map) (simp_all del: upt_Suc)
qed (simp_all add: stamps_def)

text \<open>\<open>ws\<close> has been pushed and \<open>k\<close> of it popped, \<open>n\<close> is the size of the buffer.\<close>

fun push_ok :: "nat \<Rightarrow> 'a list \<Rightarrow> nat \<Rightarrow> 'a list \<Rightarrow> 'a push_pc \<Rightarrow> bool" where
  "push_ok n ws seen buf Push_Idle \<longleftrightarrow> True"
| "push_ok n ws seen buf (Push_Check x w) \<longleftrightarrow> w = length ws mod n"
| "push_ok n ws seen buf (Push_Store x w m) \<longleftrightarrow> w = length ws mod n \<and> m = (length ws + 1) mod n \<and> length ws + 1 - seen < n"
| "push_ok n ws seen buf (Push_Publish x m) \<longleftrightarrow> m = (length ws + 1) mod n \<and> length ws + 1 - seen < n \<and>
     buf ! (length ws mod n) = x"

fun pop_ok :: "nat \<Rightarrow> 'a list \<Rightarrow> nat \<Rightarrow> nat \<Rightarrow> 'a pop_pc \<Rightarrow> bool" where
  "pop_ok n ws k seen Pop_Idle \<longleftrightarrow> True"
| "pop_ok n ws k seen (Pop_Check r) \<longleftrightarrow> r = k mod n"
| "pop_ok n ws k seen (Pop_Load r) \<longleftrightarrow> r = k mod n \<and> k < seen"
| "pop_ok n ws k seen (Pop_Publish x m) \<longleftrightarrow> m = (k + 1) mod n \<and> k < seen \<and> x = ws ! k"

definition queue_ok :: "nat \<Rightarrow> 'a list \<Rightarrow> nat \<Rightarrow> 'a spsc_queue \<Rightarrow> bool" where
  "queue_ok n ws k q \<longleftrightarrow> 0 < n \<and> length (sq_buffer q) = n \<and> sq_write q = stamps n (length ws) \<and> sq_read q = stamps n k \<and>
     k \<le> length ws \<and> length ws - k < n \<and> (\<forall>i. k \<le> i \<and> i < length ws \<longrightarrow> sq_buffer q ! (i mod n) = ws ! i)"

definition system_ok :: "nat \<Rightarrow> 'a list \<Rightarrow> nat \<Rightarrow> 'a spsc_system \<Rightarrow> bool" where
  "system_ok n ws k s \<longleftrightarrow> queue_ok n ws k (sy_queue s) \<and>
     sy_seen_read s \<le> k \<and> length ws - sy_seen_read s < n \<and> k \<le> sy_seen_write s \<and> sy_seen_write s \<le> length ws \<and>
     push_ok n ws (sy_seen_read s) (sq_buffer (sy_queue s)) (sy_push s) \<and>
     pop_ok n ws k (sy_seen_write s) (sy_pop s)"

lemma system_init_ok: "system_ok (capacity + 1) [] 0 (system_init capacity d)"
  by (simp add: system_ok_def queue_ok_def system_init_def spsc_init_def stamps_def)

lemma full_iff:
  assumes "queue_ok n ws k q" "seen \<le> i" "i \<le> k" "length ws - seen < n"
  shows "next_slot q (length ws mod n) = sq_read q ! i \<longleftrightarrow> length ws + 1 - i = n"
proof -
  have q: "next_slot q (length ws mod n) = (length ws + 1) mod n" "sq_read q ! i = i mod n" "i \<le> length ws" "0 < n"
    using assms by (simp_all add: queue_ok_def next_slot_def mod_Suc_eq)
  have "(length ws + 1) mod n = i mod n" if "length ws + 1 - i = n"
  proof -
    have "length ws + 1 = i + n" using that q(3) by simp
    then show ?thesis by simp
  qed
  moreover have "(length ws + 1) mod n \<noteq> i mod n" if "length ws + 1 - i \<noteq> n"
  proof -
    have "i < length ws + 1" "length ws + 1 - i < n" using that assms(2,4) q(3) by linarith+
    then show ?thesis using mod_distinct by metis
  qed
  ultimately show ?thesis using q by metis
qed

lemma empty_iff_seen:
  assumes "queue_ok n ws k q" "k \<le> i" "i \<le> length ws"
  shows "k mod n = sq_write q ! i \<longleftrightarrow> i = k"
proof -
  have w: "sq_write q ! i = i mod n" "length ws - k < n" using assms by (simp_all add: queue_ok_def)
  then have "i - k < n" using assms(3) by linarith
  with w(1) show ?thesis using mod_distinct [of k i n] assms(2) by (cases "i = k") auto
qed

lemma store_keeps:
  assumes "queue_ok n ws k q" "length ws + 1 - k < n"
  shows "queue_ok n ws k (q\<lparr>sq_buffer := (sq_buffer q)[length ws mod n := x]\<rparr>)"
proof -
  have "length ws mod n \<noteq> i mod n" if "k \<le> i" "i < length ws" for i
  proof -
    have "length ws - i < n" using that assms(2) by linarith
    then show ?thesis using mod_distinct [OF that(2)] by metis
  qed
  then show ?thesis using assms(1) by (auto simp: queue_ok_def)
qed

lemma publish_write:
  assumes "queue_ok n ws k q" "length ws + 1 - k < n" "sq_buffer q ! (length ws mod n) = x"
  shows "queue_ok n (ws @ [x]) k (q\<lparr>sq_write := sq_write q @ [(length ws + 1) mod n]\<rparr>)"
  using assms by (auto simp: queue_ok_def nth_append less_Suc_eq)

lemma publish_read:
  assumes "queue_ok n ws k q" "k < length ws"
  shows "queue_ok n ws (k + 1) (q\<lparr>sq_read := sq_read q @ [(k + 1) mod n]\<rparr>)"
  using assms by (auto simp: queue_ok_def)

lemma pop_ok_append: "pop_ok n ws k seen pc \<Longrightarrow> seen \<le> length ws \<Longrightarrow> pop_ok n (ws @ xs) k seen pc"
  by (cases pc) (auto simp: nth_append)

lemma queue_okD:
  assumes "queue_ok n ws k q"
  shows "0 < n" "length (sq_buffer q) = n" "last (sq_write q) = length ws mod n" "last (sq_read q) = k mod n"
    "length (sq_write q) = length ws + 1" "length (sq_read q) = k + 1" "k \<le> length ws"
    "next_slot q i = (i + 1) mod n"
    "k \<le> i \<Longrightarrow> i < length ws \<Longrightarrow> sq_buffer q ! (i mod n) = ws ! i"
  using assms by (simp_all add: queue_ok_def next_slot_def)

lemma system_step:
  assumes "system_ok n ws k s" "spsc_step s ev s'"
  shows "system_ok n (ws @ pushed [ev]) (k + length (popped [ev])) s' \<and> popped [ev] = take (length (popped [ev])) (drop k ws)"
  using assms(2)
proof (cases rule: spsc_step.cases)
  case (push_begin item)
  then show ?thesis using assms(1) queue_okD(3) by (auto simp: system_ok_def)
next
  case (push_full item w i)
  then show ?thesis using assms(1) queue_okD(6) by (fastforce simp: system_ok_def)
next
  case (push_free item w i)
  have q: "queue_ok n ws k (sy_queue s)" "sy_seen_read s \<le> k" "length ws - sy_seen_read s < n" "w = length ws mod n"
    using assms(1) push_free(3) by (simp_all add: system_ok_def)
  have "length ws + 1 - i \<noteq> n"
    using full_iff [OF q(1) push_free(4) _ q(3)] push_free(5,6) queue_okD(6) [OF q(1)] q(4) by auto
  then have "length ws + 1 - i < n" using q(3) push_free(4) by linarith
  then show ?thesis using push_free assms(1) queue_okD(6,8) [OF q(1)] q(1,4)
    by (auto simp: system_ok_def mod_Suc_eq)
next
  case (push_store item w m)
  have q: "queue_ok n ws k (sy_queue s)" "length ws + 1 - sy_seen_read s < n" "sy_seen_read s \<le> k" "w = length ws mod n"
    using assms(1) push_store(3) by (simp_all add: system_ok_def)
  have "queue_ok n ws k ((sy_queue s)\<lparr>sq_buffer := (sq_buffer (sy_queue s))[w := item]\<rparr>)"
    unfolding q(4) by (rule store_keeps [OF q(1)]) (use q in linarith)
  moreover have "w < n" using queue_okD(1) [OF q(1)] q(4) by simp
  ultimately show ?thesis using push_store assms(1) queue_okD(2) [OF q(1)]
    by (auto simp: system_ok_def)
next
  case (push_publish item m)
  have q: "queue_ok n ws k (sy_queue s)" "length ws + 1 - sy_seen_read s < n" "sy_seen_read s \<le> k"
    "m = (length ws + 1) mod n" "sq_buffer (sy_queue s) ! (length ws mod n) = item" "sy_seen_write s \<le> length ws"
    using assms(1) push_publish(3) by (simp_all add: system_ok_def)
  have "queue_ok n (ws @ [item]) k ((sy_queue s)\<lparr>sq_write := sq_write (sy_queue s) @ [m]\<rparr>)"
    unfolding q(4) by (rule publish_write [OF q(1) _ q(5)]) (use q in linarith)
  then show ?thesis using push_publish assms(1) q(2,6) pop_ok_append
    by (auto simp: system_ok_def)
next
  case pop_begin
  then show ?thesis using assms(1) queue_okD(4) by (auto simp: system_ok_def)
next
  case (pop_empty r i)
  then show ?thesis using assms(1) queue_okD(5) by (fastforce simp: system_ok_def)
next
  case (pop_some r i)
  have q: "queue_ok n ws k (sy_queue s)" "k \<le> sy_seen_write s" "r = k mod n"
    using assms(1) pop_some(3) by (simp_all add: system_ok_def)
  have i: "i \<le> length ws" "k \<le> i" using pop_some(4,5) q(2) queue_okD(5) [OF q(1)] by simp_all
  then have "i \<noteq> k" using empty_iff_seen [OF q(1) i(2,1)] pop_some(6) q(3) by simp
  then show ?thesis using pop_some assms(1) i by (auto simp: system_ok_def)
next
  case (pop_load r)
  have q: "queue_ok n ws k (sy_queue s)" "k < sy_seen_write s" "sy_seen_write s \<le> length ws" "r = k mod n"
    using assms(1) pop_load(3) by (simp_all add: system_ok_def)
  have "sq_buffer (sy_queue s) ! r = ws ! k" using queue_okD(9) [OF q(1), of k] q by simp
  then show ?thesis using pop_load assms(1) q queue_okD(8) [OF q(1)]
    by (auto simp: system_ok_def mod_Suc_eq)
next
  case (pop_publish item m)
  have q: "queue_ok n ws k (sy_queue s)" "k < sy_seen_write s" "sy_seen_write s \<le> length ws" "m = (k + 1) mod n" "item = ws ! k"
    using assms(1) pop_publish(3) by (simp_all add: system_ok_def)
  have "queue_ok n ws (k + 1) ((sy_queue s)\<lparr>sq_read := sq_read (sy_queue s) @ [m]\<rparr>)"
    unfolding q(4) by (rule publish_read [OF q(1)]) (use q in linarith)
  moreover have "take 1 (drop k ws) = [ws ! k]" using q by (simp add: take_Suc hd_drop_conv_nth)
  ultimately show ?thesis using pop_publish assms(1) q by (auto simp: system_ok_def)
qed

section \<open>The queue is first in, first out\<close>

lemma run_ok:
  assumes "spsc_run s tr s'" "system_ok n [] 0 s"
  shows "system_ok n (pushed tr) (length (popped tr)) s' \<and> popped tr = take (length (popped tr)) (pushed tr)"
  using assms
proof (induction rule: spsc_run.induct)
  case (run_step s tr s' ev s'')
  then have ok: "system_ok n (pushed tr) (length (popped tr)) s'" and p: "popped tr = take (length (popped tr)) (pushed tr)"
    by simp_all
  note st = system_step [OF ok run_step(2)]
  have k: "length (popped tr) \<le> length (pushed tr)" using ok by (simp add: system_ok_def queue_ok_def)
  have "popped (tr @ [ev]) = take (length (popped tr)) (pushed tr) @ take (length (popped [ev])) (drop (length (popped tr)) (pushed tr))"
    using st p by simp
  also have "\<dots> = take (length (popped (tr @ [ev]))) (pushed tr)" by (simp add: take_add)
  also have "\<dots> = take (length (popped (tr @ [ev]))) (pushed (tr @ [ev]))"
  proof -
    have "length (popped [ev]) \<le> length (drop (length (popped tr)) (pushed tr))"
      using st by (metis length_take min.cobounded1)
    then show ?thesis using k by simp
  qed
  finally have "popped (tr @ [ev]) = take (length (popped (tr @ [ev]))) (pushed (tr @ [ev]))" .
  moreover have "system_ok n (pushed (tr @ [ev])) (length (popped (tr @ [ev]))) s''" using st by simp
  ultimately show ?case by (intro conjI)
qed simp

lemma system_no_race: "system_ok n ws k s \<Longrightarrow> \<not> races (sy_push s) (sy_pop s)"
proof (cases "(sy_push s, sy_pop s)" rule: races.cases)
  case (1 x w m r)
  assume ok: "system_ok n ws k s"
  then have "k < length ws" "length ws - k < n" "w = length ws mod n" "r = k mod n"
    using 1 by (auto simp: system_ok_def queue_ok_def)
  then show ?thesis using 1 mod_distinct [of k "length ws" n] by auto
qed auto

lemma system_in_range:
  assumes "system_ok n ws k s"
  shows "push_in_range n (sy_push s)" "pop_in_range n (sy_pop s)"
  using assms by (cases "sy_push s"; cases "sy_pop s"; auto simp: system_ok_def queue_ok_def)+

lemma sequential:
  assumes "queue_ok n ws k q"
  shows "fst (spsc_push x q) \<longleftrightarrow> length ws - k < n - 1"
    "fst (spsc_pop q) = (if k < length ws then Some (ws ! k) else None)"
proof -
  have q: "last (sq_write q) = length ws mod n" "last (sq_read q) = sq_read q ! k" "last (sq_read q) = k mod n"
    "last (sq_write q) = sq_write q ! length ws" "length ws - k < n" "k \<le> length ws"
    using assms by (simp_all add: queue_ok_def)
  have "next_slot q (length ws mod n) = sq_read q ! k \<longleftrightarrow> length ws + 1 - k = n"
    by (rule full_iff [OF assms order_refl order_refl q(5)])
  then show "fst (spsc_push x q) \<longleftrightarrow> length ws - k < n - 1"
    using q by (auto simp: spsc_push_def Let_def)
  have "k mod n = sq_write q ! length ws \<longleftrightarrow> length ws = k" by (rule empty_iff_seen [OF assms q(6) order_refl])
  then show "fst (spsc_pop q) = (if k < length ws then Some (ws ! k) else None)"
    using q queue_okD(9) [OF assms, of k] by (auto simp: spsc_pop_def Let_def)
qed

text \<open>Undisturbed, the single accesses of a push or a pop amount to the whole operation.\<close>

lemma push_steps:
  assumes "spsc_push x (sy_queue s) = (True, q)" "sy_push s = Push_Idle" "sy_seen_read s < length (sq_read (sy_queue s))"
  shows "\<exists>a b c. spsc_step s Internal a \<and> spsc_step a Internal b \<and> spsc_step b Internal c \<and>
    spsc_step c (Pushed x) (s\<lparr>sy_queue := q, sy_seen_read := length (sq_read (sy_queue s)) - 1\<rparr>) \<and>
    sy_pop a = sy_pop s \<and> sy_pop b = sy_pop s \<and> sy_pop c = sy_pop s"
proof -
  let ?q = "sy_queue s" and ?l = "length (sq_read (sy_queue s)) - 1"
  let ?w = "last (sq_write ?q)" and ?n = "next_slot ?q (last (sq_write ?q))"
  let ?a = "s\<lparr>sy_push := Push_Check x ?w\<rparr>" and ?b = "s\<lparr>sy_push := Push_Store x ?w ?n, sy_seen_read := ?l\<rparr>"
  let ?q' = "?q\<lparr>sq_buffer := (sq_buffer ?q)[?w := x]\<rparr>"
  let ?c = "s\<lparr>sy_push := Push_Publish x ?n, sy_seen_read := ?l, sy_queue := ?q'\<rparr>"
  have ne: "sq_read ?q \<noteq> []" using assms(3) by auto
  have r: "?n \<noteq> sq_read ?q ! ?l" "q = ?q'\<lparr>sq_write := sq_write ?q @ [?n]\<rparr>"
    using assms(1) last_conv_nth [of "sq_read ?q"] ne by (auto simp: spsc_push_def Let_def split: if_split_asm)
  have "spsc_step s Internal ?a" by (rule push_begin [OF assms(2)])
  moreover have "spsc_step ?a Internal ?b" using push_free [of ?a x ?w ?l] r(1) assms(3) by simp
  moreover have "spsc_step ?b Internal ?c" using push_store [of ?b x ?w ?n] by (cases s) simp
  moreover have "spsc_step ?c (Pushed x) (s\<lparr>sy_queue := q, sy_seen_read := ?l\<rparr>)"
    using push_publish [of ?c x ?n] assms(2) by (cases s) (simp add: r(2))
  ultimately show ?thesis by (intro exI [of _ ?a] exI [of _ ?b] exI [of _ ?c]) simp
qed

lemma pop_steps:
  assumes "spsc_pop (sy_queue s) = (Some x, q)" "sy_pop s = Pop_Idle" "sy_seen_write s < length (sq_write (sy_queue s))"
  shows "\<exists>a b c. spsc_step s Internal a \<and> spsc_step a Internal b \<and> spsc_step b Internal c \<and>
    spsc_step c (Popped x) (s\<lparr>sy_queue := q, sy_seen_write := length (sq_write (sy_queue s)) - 1\<rparr>) \<and>
    sy_push a = sy_push s \<and> sy_push b = sy_push s \<and> sy_push c = sy_push s"
proof -
  let ?q = "sy_queue s" and ?l = "length (sq_write (sy_queue s)) - 1"
  let ?r = "last (sq_read ?q)" and ?n = "next_slot ?q (last (sq_read ?q))"
  let ?a = "s\<lparr>sy_pop := Pop_Check ?r\<rparr>" and ?b = "s\<lparr>sy_pop := Pop_Load ?r, sy_seen_write := ?l\<rparr>"
  let ?c = "s\<lparr>sy_pop := Pop_Publish x ?n, sy_seen_write := ?l\<rparr>"
  have ne: "sq_write ?q \<noteq> []" using assms(3) by auto
  have r: "?r \<noteq> sq_write ?q ! ?l" "x = sq_buffer ?q ! ?r" "q = ?q\<lparr>sq_read := sq_read ?q @ [?n]\<rparr>"
    using assms(1) last_conv_nth [of "sq_write ?q"] ne by (auto simp: spsc_pop_def Let_def split: if_split_asm)
  have "spsc_step s Internal ?a" by (rule pop_begin [OF assms(2)])
  moreover have "spsc_step ?a Internal ?b" using pop_some [of ?a ?r ?l] r(1) assms(3) by simp
  moreover have "spsc_step ?b Internal ?c" using pop_load [of ?b ?r] by (cases s) (simp add: r(2))
  moreover have "spsc_step ?c (Popped x) (s\<lparr>sy_queue := q, sy_seen_write := ?l\<rparr>)"
    using pop_publish [of ?c x ?n] assms(2) by (cases s) (simp add: r(3))
  ultimately show ?thesis by (intro exI [of _ ?a] exI [of _ ?b] exI [of _ ?c]) simp
qed

lemma queue_init_ok: "queue_ok (capacity + 1) [] 0 (spsc_init capacity d)"
  by (simp add: queue_ok_def spsc_init_def stamps_def)

lemma spsc_push_ok:
  assumes "queue_ok n ws k q" "fst (spsc_push x q)"
  shows "queue_ok n (ws @ [x]) k (snd (spsc_push x q))"
proof -
  have l: "length ws + 1 - k < n" using assms(2) sequential(1) [OF assms(1), of x] queue_okD(7) [OF assms(1)] by linarith
  let ?q = "q\<lparr>sq_buffer := (sq_buffer q)[length ws mod n := x]\<rparr>"
  have "length ws mod n < length (sq_buffer q)" using queue_okD(1,2) [OF assms(1)] by simp
  then have "queue_ok n (ws @ [x]) k (?q\<lparr>sq_write := sq_write ?q @ [(length ws + 1) mod n]\<rparr>)"
    by (intro publish_write store_keeps assms l) simp
  moreover have "snd (spsc_push x q) = ?q\<lparr>sq_write := sq_write ?q @ [(length ws + 1) mod n]\<rparr>"
    using assms(2) queue_okD(3,8) [OF assms(1)] by (auto simp: spsc_push_def Let_def mod_Suc_eq split: if_split_asm)
  ultimately show ?thesis by (simp only:)
qed

lemma spsc_pop_ok:
  assumes "queue_ok n ws k q"
  shows "k < length ws \<Longrightarrow> \<exists>q'. spsc_pop q = (Some (ws ! k), q') \<and> queue_ok n ws (k + 1) q'"
    "length ws \<le> k \<Longrightarrow> spsc_pop q = (None, q)"
proof -
  have p: "fst (spsc_pop q) = (if k < length ws then Some (ws ! k) else None)" by (rule sequential(2) [OF assms])
  have r: "snd (spsc_pop q) = (if fst (spsc_pop q) = None then q else q\<lparr>sq_read := sq_read q @ [(k + 1) mod n]\<rparr>)"
    using queue_okD(4,8) [OF assms] by (auto simp: spsc_pop_def Let_def mod_Suc_eq)
  show "\<exists>q'. spsc_pop q = (Some (ws ! k), q') \<and> queue_ok n ws (k + 1) q'" if "k < length ws"
    using p r that publish_read [OF assms that] by (cases "spsc_pop q") auto
  show "spsc_pop q = (None, q)" if "length ws \<le> k"
    using p r that by (cases "spsc_pop q") auto
qed

text \<open>
  What the threads rely on: a bounded queue of items, of which so many have been put in and so many
  taken out again.
\<close>

locale bounded_queue =
  fixes holds :: "'a list \<Rightarrow> nat \<Rightarrow> 'q \<Rightarrow> bool"
    and push :: "'a \<Rightarrow> 'q \<Rightarrow> bool \<times> 'q"
    and pop :: "'q \<Rightarrow> 'a option \<times> 'q"
    and capacity :: nat
  assumes taken_le: "holds ws k q \<Longrightarrow> k \<le> length ws"
    and room: "holds ws k q \<Longrightarrow> length ws - k < capacity \<Longrightarrow> fst (push x q) \<and> holds (ws @ [x]) k (snd (push x q))"
    and full: "holds ws k q \<Longrightarrow> capacity \<le> length ws - k \<Longrightarrow> push x q = (False, q)"
    and front: "holds ws k q \<Longrightarrow> k < length ws \<Longrightarrow> \<exists>q'. pop q = (Some (ws ! k), q') \<and> holds ws (k + 1) q'"
    and empty: "holds ws k q \<Longrightarrow> length ws \<le> k \<Longrightarrow> pop q = (None, q)"
begin

lemma push_all:
  "holds ws k q \<Longrightarrow> length ws + length xs - k \<le> capacity \<Longrightarrow> holds (ws @ xs) k (fold (\<lambda>x q. snd (push x q)) xs q)"
proof (induction xs arbitrary: ws q)
  case (Cons x xs)
  have "holds (ws @ [x]) k (snd (push x q))" using room [OF Cons(2), of x] taken_le [OF Cons(2)] Cons(3) by auto
  from Cons(1) [OF this] show ?case using Cons(3) by simp
qed simp

text \<open>What does not fit is dropped, and the rest stays in order.\<close>

lemma push_some:
  "holds ws k q \<Longrightarrow> \<exists>ys. subseq ys xs \<and> holds (ws @ ys) k (fold (\<lambda>x q. snd (push x q)) xs q)"
proof (induction xs arbitrary: ws q)
  case (Cons x xs)
  show ?case
  proof (cases "length ws - k < capacity")
    case True
    then have "holds (ws @ [x]) k (snd (push x q))" using room [OF Cons(2)] by simp
    from Cons(1) [OF this] obtain ys where "subseq ys xs" "holds ((ws @ [x]) @ ys) k (fold (\<lambda>x q. snd (push x q)) xs (snd (push x q)))"
      by blast
    then show ?thesis by (intro exI [of _ "x # ys"]) simp
  next
    case False
    then have "push x q = (False, q)" using full [OF Cons(2)] by simp
    then show ?thesis using Cons(1) [OF Cons(2)] by (auto intro: list_emb_Cons)
  qed
qed (intro exI [of _ "[]"], simp)

end

interpretation spsc: bounded_queue "queue_ok (capacity + 1)" spsc_push spsc_pop capacity for capacity
proof (unfold_locales, goal_cases)
  case (1 ws k q)
  then show ?case by (rule queue_okD(7))
next
  case (2 ws k q x)
  then show ?case using sequential(1) [of "capacity + 1" ws k q x] spsc_push_ok [of "capacity + 1" ws k q x] by auto
next
  case (3 ws k q x)
  then show ?case using sequential(1) [of "capacity + 1" ws k q x] by (auto simp: spsc_push_def Let_def split: if_split_asm)
next
  case (4 ws k q)
  then show ?case by (rule spsc_pop_ok(1))
next
  case (5 ws k q)
  then show ?case by (rule spsc_pop_ok(2))
qed

text \<open>
  C14. The queue between the two threads is first in, first out, without locks and without races. In
  every interleaving of the memory accesses of one producer and one consumer, and however late each
  sees the other's index, the items popped are the first of the items pushed, in order and
  unaltered; at most the capacity is in between; the two threads are never at the same slot and
  never outside the buffer. A push that no one disturbs is refused only when the queue is full, and a
  pop only when it is empty.
\<close>

theorem spsc_fifo:
  assumes "spsc_run (system_init capacity d) tr s"
  shows "\<exists>rest. pushed tr = popped tr @ rest \<and> length rest \<le> capacity \<and>
    \<not> races (sy_push s) (sy_pop s) \<and>
    push_in_range (length (sq_buffer (sy_queue s))) (sy_push s) \<and> pop_in_range (length (sq_buffer (sy_queue s))) (sy_pop s) \<and>
    (fst (spsc_push x (sy_queue s)) \<longleftrightarrow> length rest < capacity) \<and>
    fst (spsc_pop (sy_queue s)) = (case rest of [] \<Rightarrow> None | y # _ \<Rightarrow> Some y)"
proof -
  let ?n = "capacity + 1" and ?ws = "pushed tr" and ?k = "length (popped tr)"
  have ok: "system_ok ?n ?ws ?k s" and p: "popped tr = take ?k ?ws"
    using run_ok [OF assms system_init_ok] by simp_all
  then have q: "queue_ok ?n ?ws ?k (sy_queue s)" by (simp add: system_ok_def)
  note S = sequential [OF q]
  have k: "?k \<le> length ?ws" "length ?ws - ?k \<le> capacity" "length (sq_buffer (sy_queue s)) = ?n"
    using q by (simp_all add: queue_ok_def)
  have "?ws = popped tr @ drop ?k ?ws" using p append_take_drop_id by metis
  moreover have "(if ?k < length ?ws then Some (?ws ! ?k) else None) = (case drop ?k ?ws of [] \<Rightarrow> None | y # _ \<Rightarrow> Some y)"
    using k(1) by (cases "?k < length ?ws") (simp_all add: Cons_nth_drop_Suc [symmetric])
  ultimately show ?thesis
    using S system_no_race [OF ok] system_in_range [OF ok] k by (intro exI [of _ "drop ?k ?ws"]) simp
qed

theorem spsc_fifo_witness:
  "\<exists>s. spsc_run (system_init 1 (0::nat)) [Internal, Internal, Internal, Pushed 7] s \<and>
    fst (spsc_pop (sy_queue s)) = Some 7"
proof -
  let ?i = "system_init 1 (0::nat)"
  have p0: "sy_push ?i = Push_Idle" by (simp add: system_init_def)
  note r1 = run_step [OF run_start push_begin [OF p0, of 7]]
  let ?a = "?i\<lparr>sy_push := Push_Check 7 (last (sq_write (sy_queue ?i)))\<rparr>"
  have "spsc_step ?a Internal (?a\<lparr>sy_push := Push_Store 7 0 (next_slot (sy_queue ?a) 0), sy_seen_read := 0\<rparr>)"
    by (rule push_free) (simp_all add: system_init_def spsc_init_def next_slot_def)
  note r2 = run_step [OF r1 this]
  note r3 = run_step [OF r2 push_store]
  obtain s where r: "spsc_run ?i [Internal, Internal, Internal, Pushed 7] s"
    using run_step [OF r3 push_publish] by fastforce
  from spsc_fifo [OF r] show ?thesis using r by auto
qed

end
