(* ===== verification/Engine_Threads.thy ===== *)
theory Engine_Threads
  imports Engine_Runs Spsc_Queue "HOL-Library.Sublist"
begin

text \<open>
  The two threads of the engine's process: the I/O thread of the server, which pushes
  commands and pops events, and the thread of \<open>MatchingEngine::start\<close>, which pops a command, processes
  it and pushes the event it produced, trying again while the output queue is full, until
  \<open>MatchingEngine::stop\<close> clears the flag both its loops look at. A step is a single
  memory access of one thread on one of the two lock-free queues, so that every interleaving of the
  two threads is a run of the model.
\<close>

section \<open>The two threads\<close>

definition QUEUE_CAPACITY :: nat where
  "QUEUE_CAPACITY = 8192"

text \<open>
  \<open>th_pending\<close> holds what the engine's thread has produced and not yet pushed; \<open>th_running\<close> is the flag
  \<open>engine_running_\<close>, and \<open>th_alive\<close> is whether the engine's thread is still in its loop.
\<close>

record threads =
  th_in :: "command spsc_system"
  th_out :: "engine_event spsc_system"
  th_engine :: engine
  th_pending :: "engine_event list"
  th_running :: bool
  th_alive :: bool

definition threads_init :: "command \<Rightarrow> engine_event \<Rightarrow> threads" where
  "threads_init c ev = \<lparr>th_in = system_init QUEUE_CAPACITY c, th_out = system_init QUEUE_CAPACITY ev,
     th_engine = engine_init, th_pending = [], th_running = True, th_alive = True\<rparr>"

definition new_events :: "engine \<Rightarrow> engine \<Rightarrow> engine_event list" where
  "new_events e e' = drop (length (mx_out e)) (mx_out e')"

text \<open>The item that a push under way is about.\<close>

fun offered :: "'a push_pc \<Rightarrow> 'a option" where
  "offered Push_Idle = None"
| "offered (Push_Check x w) = Some x"
| "offered (Push_Store x w n) = Some x"
| "offered (Push_Publish x n) = Some x"

text \<open>
  The flag is loaded relaxed: a thread may go on for a while after it was cleared, but leaves its loop,
  or gives up an event the queue has no room for, only when it has been.
\<close>

datatype thread_event = On_In "command spsc_event" | On_Out "engine_event spsc_event" | Stop_Engine | Leave | Give_Up

inductive thread_step :: "iteration \<Rightarrow> threads \<Rightarrow> thread_event \<Rightarrow> threads \<Rightarrow> bool" for iter where
  io_push: "spsc_step (th_in s) x q \<Longrightarrow> sy_pop q = sy_pop (th_in s) \<Longrightarrow>
     thread_step iter s (On_In x) (s\<lparr>th_in := q\<rparr>)"
| engine_poll: "th_alive s \<Longrightarrow> th_pending s = [] \<Longrightarrow> spsc_step (th_in s) x q \<Longrightarrow> sy_push q = sy_push (th_in s) \<Longrightarrow> popped [x] = [] \<Longrightarrow>
     thread_step iter s (On_In x) (s\<lparr>th_in := q\<rparr>)"
| engine_command: "th_alive s \<Longrightarrow> th_pending s = [] \<Longrightarrow> spsc_step (th_in s) (Popped cmd) q \<Longrightarrow>
     process_client_command iter cmd (th_engine s) = Some e \<Longrightarrow>
     thread_step iter s (On_In (Popped cmd)) (s\<lparr>th_in := q, th_engine := e, th_pending := new_events (th_engine s) e\<rparr>)"
| engine_push: "th_alive s \<Longrightarrow> th_pending s = ev # evs \<Longrightarrow> spsc_step (th_out s) x q \<Longrightarrow> sy_pop q = sy_pop (th_out s) \<Longrightarrow>
     offered (sy_push q) \<in> {None, Some ev} \<Longrightarrow>
     thread_step iter s (On_Out x) (s\<lparr>th_out := q, th_pending := (if pushed [x] = [] then ev # evs else evs)\<rparr>)"
| io_pop: "spsc_step (th_out s) x q \<Longrightarrow> sy_push q = sy_push (th_out s) \<Longrightarrow>
     thread_step iter s (On_Out x) (s\<lparr>th_out := q\<rparr>)"
| stop: "thread_step iter s Stop_Engine (s\<lparr>th_running := False\<rparr>)"
| leave: "th_alive s \<Longrightarrow> \<not> th_running s \<Longrightarrow> th_pending s = [] \<Longrightarrow> sy_pop (th_in s) = Pop_Idle \<Longrightarrow>
     thread_step iter s Leave (s\<lparr>th_alive := False\<rparr>)"
| give_up: "th_alive s \<Longrightarrow> \<not> th_running s \<Longrightarrow> th_pending s = ev # evs \<Longrightarrow> sy_push (th_out s) = Push_Idle \<Longrightarrow>
     thread_step iter s Give_Up (s\<lparr>th_pending := [], th_alive := False\<rparr>)"

inductive thread_run :: "iteration \<Rightarrow> threads \<Rightarrow> thread_event list \<Rightarrow> threads \<Rightarrow> bool" for iter where
  thread_start: "thread_run iter s [] s"
| thread_next: "thread_run iter s tr s' \<Longrightarrow> thread_step iter s' ev s'' \<Longrightarrow> thread_run iter s (tr @ [ev]) s''"

fun in_events :: "thread_event list \<Rightarrow> command spsc_event list" where
  "in_events [] = []"
| "in_events (On_In x # tr) = x # in_events tr"
| "in_events (_ # tr) = in_events tr"

fun out_events :: "thread_event list \<Rightarrow> engine_event spsc_event list" where
  "out_events [] = []"
| "out_events (On_Out x # tr) = x # out_events tr"
| "out_events (_ # tr) = out_events tr"

lemma in_events_append [simp]: "in_events (xs @ ys) = in_events xs @ in_events ys"
  by (induction xs rule: in_events.induct) auto

lemma out_events_append [simp]: "out_events (xs @ ys) = out_events xs @ out_events ys"
  by (induction xs rule: out_events.induct) auto

text \<open>Commands put into the engine's queue and taken out of it; events put out and delivered.\<close>

definition submitted :: "thread_event list \<Rightarrow> command list" where
  "submitted tr = pushed (in_events tr)"

definition taken :: "thread_event list \<Rightarrow> command list" where
  "taken tr = popped (in_events tr)"

definition emitted :: "thread_event list \<Rightarrow> engine_event list" where
  "emitted tr = pushed (out_events tr)"

definition delivered :: "thread_event list \<Rightarrow> engine_event list" where
  "delivered tr = popped (out_events tr)"

lemmas trace_defs = submitted_def taken_def emitted_def delivered_def

section \<open>What the threads keep\<close>

lemma run_engine_snoc:
  "run_engine iter (cs @ [c]) e = (case run_engine iter cs e of None \<Rightarrow> None | Some e' \<Rightarrow> process_client_command iter c e')"
  by (induction cs arbitrary: e) (auto split: option.split)

text \<open>A step of one side of a queue leaves the other side's results alone.\<close>

lemma spsc_step_sides:
  assumes "spsc_step s x s'"
  shows "sy_pop s' = sy_pop s \<Longrightarrow> popped [x] = []" "sy_push s' = sy_push s \<Longrightarrow> pushed [x] = []"
    "sy_pop s' = sy_pop s \<Longrightarrow> pushed [x] = [y] \<Longrightarrow> offered (sy_push s) = Some y \<and> offered (sy_push s') = None"
  using assms by (cases rule: spsc_step.cases; force)+

definition threads_ok :: "iteration \<Rightarrow> thread_event list \<Rightarrow> threads \<Rightarrow> bool" where
  "threads_ok iter tr s \<longleftrightarrow>
     run_engine iter (taken tr) engine_init = Some (th_engine s) \<and> safe (mx_book (th_engine s)) \<and>
     (\<exists>lost. emitted tr @ th_pending s @ lost = mx_out (th_engine s) \<and> length (th_pending s @ lost) \<le> 1 \<and>
        (lost \<noteq> [] \<longrightarrow> \<not> th_alive s)) \<and> (th_running s \<longrightarrow> th_alive s) \<and>
     (\<forall>y. offered (sy_push (th_out s)) = Some y \<longrightarrow> th_pending s = [y])"

lemma threads_init_ok: "threads_ok iter [] (threads_init c ev)"
  by (simp add: threads_ok_def threads_init_def trace_defs engine_init_def safe_init system_init_def)

lemma threads_okD:
  assumes "threads_ok iter tr s"
  shows "run_engine iter (taken tr) engine_init = Some (th_engine s)" "safe (mx_book (th_engine s))"
    "th_alive s \<Longrightarrow> emitted tr @ th_pending s = mx_out (th_engine s)" "length (th_pending s) \<le> 1"
    "th_running s \<Longrightarrow> th_alive s" "offered (sy_push (th_out s)) = Some y \<Longrightarrow> th_pending s = [y]"
  using assms by (auto simp: threads_ok_def)

lemma threads_okI:
  assumes "run_engine iter (taken tr) engine_init = Some (th_engine s)" "safe (mx_book (th_engine s))"
    "emitted tr @ th_pending s = mx_out (th_engine s)" "length (th_pending s) \<le> 1"
    "th_running s \<longrightarrow> th_alive s" "\<And>y. offered (sy_push (th_out s)) = Some y \<Longrightarrow> th_pending s = [y]"
  shows "threads_ok iter tr s"
  unfolding threads_ok_def using assms by (intro conjI exI [of _ "[]"]) auto

lemma thread_step_ok:
  assumes "threads_ok iter tr s" "thread_step iter s x s'"
  shows "threads_ok iter (tr @ [x]) s'"
  using assms(2)
proof (cases rule: thread_step.cases)
  case (io_push y q)
  then show ?thesis using assms(1) spsc_step_sides(1) [OF io_push(3,4)]
    by (simp add: threads_ok_def trace_defs)
next
  case (engine_poll y q)
  then show ?thesis using assms(1) by (simp add: threads_ok_def trace_defs)
next
  case (engine_command cmd q e)
  note s = threads_okD [OF assms(1)]
  obtain ev where e: "safe (mx_book e)" "mx_out e = mx_out (th_engine s) @ [ev]"
    using command_total [OF s(2), of iter cmd] engine_command(6) by auto
  have n: "offered (sy_push (th_out s)) = None" using s(6) engine_command(4) by (cases "offered (sy_push (th_out s))") auto
  show ?thesis
  proof (rule threads_okI)
    show "run_engine iter (taken (tr @ [x])) engine_init = Some (th_engine s')"
      using s(1) engine_command by (simp add: run_engine_snoc trace_defs)
  qed (use engine_command(1,2,3,4) s(3,5) e n in \<open>simp_all add: trace_defs new_events_def\<close>)
next
  case (engine_push ev evs y q)
  note s = threads_okD [OF assms(1)]
  have evs: "evs = []" using s(4) engine_push(4) by simp
  show ?thesis
  proof (cases "pushed [y] = []")
    case True
    show ?thesis
      by (rule threads_okI) (use True engine_push(1,2,3,4,7) s(1,2,3,5) evs in \<open>auto simp: trace_defs\<close>)
  next
    case False
    then obtain z where z: "pushed [y] = [z]" by (cases y) auto
    have "z = ev" "offered (sy_push q) = None" using spsc_step_sides(3) [OF engine_push(5,6) z] s(6) engine_push(4) by auto
    then show ?thesis
      by (intro threads_okI) (use engine_push(1,2,3,4) s(1,2,3,5) z evs in \<open>simp_all add: trace_defs\<close>)
  qed
next
  case (io_pop y q)
  then show ?thesis using assms(1) spsc_step_sides(2) [OF io_pop(3,4)]
    by (simp add: threads_ok_def trace_defs)
next
  case stop
  then show ?thesis using assms(1) by (simp add: threads_ok_def trace_defs)
next
  case leave
  then show ?thesis using assms(1) by (auto simp: threads_ok_def trace_defs)
next
  case (give_up ev evs)
  note s = threads_okD [OF assms(1)]
  have "emitted tr @ [] @ [ev] = mx_out (th_engine s)" using s(3,4) give_up(3,5) by simp
  then show ?thesis unfolding threads_ok_def using give_up s(1,2)
    by (intro conjI exI [of _ "[ev]"]) (simp_all add: trace_defs)
qed

text \<open>Seen from one queue, a run of the threads is a run of the queue with its two sides.\<close>

lemma thread_step_queues:
  assumes "thread_step iter s x s'" "spsc_run a (in_events tr) (th_in s)" "spsc_run b (out_events tr) (th_out s)"
  shows "spsc_run a (in_events (tr @ [x])) (th_in s') \<and> spsc_run b (out_events (tr @ [x])) (th_out s')"
  using assms by (cases rule: thread_step.cases) (auto intro: run_step)

lemma thread_run_ok:
  assumes "thread_run iter (threads_init c d) tr s"
  shows "threads_ok iter tr s \<and> spsc_run (system_init QUEUE_CAPACITY c) (in_events tr) (th_in s) \<and>
    spsc_run (system_init QUEUE_CAPACITY d) (out_events tr) (th_out s)"
  using assms
proof (induction "threads_init c d" tr s rule: thread_run.induct)
  case thread_start
  show ?case by (intro conjI threads_init_ok) (simp_all add: threads_init_def run_start)
next
  case (thread_next tr s' ev s'')
  then show ?case using thread_step_ok thread_step_queues by metis
qed

lemma run_split:
  assumes "spsc_run (system_init capacity d) tr s"
  shows "\<exists>rest. pushed tr = popped tr @ rest \<and> length rest \<le> capacity" "\<not> races (sy_push s) (sy_pop s)"
proof -
  have ok: "system_ok (capacity + 1) (pushed tr) (length (popped tr)) s" and p: "popped tr = take (length (popped tr)) (pushed tr)"
    using run_ok [OF assms system_init_ok] by simp_all
  have "pushed tr = popped tr @ drop (length (popped tr)) (pushed tr)" using p append_take_drop_id by metis
  moreover have "length (drop (length (popped tr)) (pushed tr)) \<le> capacity" using ok by (simp add: system_ok_def queue_ok_def)
  ultimately show "\<exists>rest. pushed tr = popped tr @ rest \<and> length rest \<le> capacity" by blast
  show "\<not> races (sy_push s) (sy_pop s)" by (rule system_no_race [OF ok])
qed

section \<open>The threads refine the serial engine\<close>


text \<open>The single accesses of an undisturbed push of the I/O thread and pop of the engine's thread.\<close>

lemma thread_run_push:
  assumes "thread_run iter r tr s" "spsc_push cmd (sy_queue (th_in s)) = (True, q)" "sy_push (th_in s) = Push_Idle"
    "sy_seen_read (th_in s) < length (sq_read (sy_queue (th_in s)))"
  shows "thread_run iter r (tr @ map On_In [Internal, Internal, Internal, Pushed cmd])
    (s\<lparr>th_in := (th_in s)\<lparr>sy_queue := q, sy_seen_read := length (sq_read (sy_queue (th_in s))) - 1\<rparr>\<rparr>)"
proof -
  obtain a b c where a: "spsc_step (th_in s) Internal a" "spsc_step a Internal b" "spsc_step b Internal c"
    "spsc_step c (Pushed cmd) ((th_in s)\<lparr>sy_queue := q, sy_seen_read := length (sq_read (sy_queue (th_in s))) - 1\<rparr>)"
    "sy_pop a = sy_pop (th_in s)" "sy_pop b = sy_pop (th_in s)" "sy_pop c = sy_pop (th_in s)"
    using push_steps [OF assms(2-4)] by blast
  have 1: "thread_run iter r (tr @ [On_In Internal]) (s\<lparr>th_in := a\<rparr>)"
    by (rule thread_next [OF assms(1) io_push [OF a(1,5)]])
  have 2: "thread_run iter r ((tr @ [On_In Internal]) @ [On_In Internal]) (s\<lparr>th_in := b\<rparr>)"
    using thread_next [OF 1 io_push [of _ Internal b]] a by simp
  have 3: "thread_run iter r (((tr @ [On_In Internal]) @ [On_In Internal]) @ [On_In Internal]) (s\<lparr>th_in := c\<rparr>)"
    using thread_next [OF 2 io_push [of _ Internal c]] a by simp
  show ?thesis using thread_next [OF 3 io_push [of _ "Pushed cmd"]] a by simp
qed

lemma thread_run_take:
  assumes "thread_run iter r tr s" "spsc_pop (sy_queue (th_in s)) = (Some cmd, q)" "sy_pop (th_in s) = Pop_Idle"
    "sy_seen_write (th_in s) < length (sq_write (sy_queue (th_in s)))" "th_pending s = []"
    "process_client_command iter cmd (th_engine s) = Some e" "th_alive s"
  shows "\<exists>i. thread_run iter r (tr @ map On_In [Internal, Internal, Internal, Popped cmd])
    (s\<lparr>th_in := i, th_engine := e, th_pending := new_events (th_engine s) e\<rparr>)"
proof -
  obtain a b c d where a: "spsc_step (th_in s) Internal a" "spsc_step a Internal b" "spsc_step b Internal c"
    "spsc_step c (Popped cmd) d"
    "sy_push a = sy_push (th_in s)" "sy_push b = sy_push (th_in s)" "sy_push c = sy_push (th_in s)"
    using pop_steps [OF assms(2-4)] by blast
  have 1: "thread_run iter r (tr @ [On_In Internal]) (s\<lparr>th_in := a\<rparr>)"
    by (rule thread_next [OF assms(1) engine_poll [OF assms(7,5) a(1,5)]]) simp
  have 2: "thread_run iter r ((tr @ [On_In Internal]) @ [On_In Internal]) (s\<lparr>th_in := b\<rparr>)"
    using thread_next [OF 1 engine_poll [of _ Internal b]] a assms(5,7) by simp
  have 3: "thread_run iter r (((tr @ [On_In Internal]) @ [On_In Internal]) @ [On_In Internal]) (s\<lparr>th_in := c\<rparr>)"
    using thread_next [OF 2 engine_poll [of _ Internal c]] a assms(5,7) by simp
  show ?thesis using thread_next [OF 3 engine_command [of _ cmd d]] a assms(5-7) by auto
qed

text \<open>A cancel of an unknown order, pushed by one thread and taken by the other.\<close>

lemma threads_init_simps:
  "sy_push (th_in (threads_init c d)) = Push_Idle" "sy_pop (th_in (threads_init c d)) = Pop_Idle"
  "sq_read (sy_queue (th_in (threads_init c d))) = [0]" "sy_seen_read (th_in (threads_init c d)) = 0"
  "sy_seen_write (th_in (threads_init c d)) = 0" "th_engine (threads_init c d) = engine_init" "th_pending (threads_init c d) = []"
  "th_alive (threads_init c d)"
  by (simp_all add: threads_init_def system_init_def spsc_init_def)

lemma unknown_cancel: "process_client_command (\<lambda>m. m) (Cancel_Command 3 9) engine_init =
    Some (emit (Reject_Event 3 9 ORDER_NOT_FOUND) engine_init)"
  by (simp add: process_cancel_def cancel_order_def engine_init_def book_init_def emit_def dict_get_def)

lemma one_command_run:
  assumes "process_client_command iter cmd engine_init = Some e"
  shows "\<exists>i. thread_run iter (threads_init c d) (map On_In [Internal, Internal, Internal, Pushed cmd, Internal, Internal, Internal, Popped cmd])
    ((threads_init c d)\<lparr>th_in := i, th_engine := e, th_pending := new_events engine_init e\<rparr>)"
proof -
  let ?s = "threads_init c d"
  let ?i = "th_in ?s"
  have o: "queue_ok (QUEUE_CAPACITY + 1) [] 0 (sy_queue ?i)"
    unfolding threads_init_def system_init_def threads.simps spsc_system.simps by (rule queue_init_ok)
  obtain q where q: "spsc_push cmd (sy_queue ?i) = (True, q)" "queue_ok (QUEUE_CAPACITY + 1) [cmd] 0 q"
    using spsc.room [OF o, of cmd] by (cases "spsc_push cmd (sy_queue ?i)") (auto simp: QUEUE_CAPACITY_def)
  obtain q' where q': "spsc_pop q = (Some cmd, q')" using spsc.front [OF q(2)] by auto
  define j where "j = ?i\<lparr>sy_queue := q, sy_seen_read := length (sq_read (sy_queue ?i)) - 1\<rparr>"
  have j: "sy_queue j = q" "sy_pop j = Pop_Idle" "sy_seen_write j < length (sq_write q)"
    using queue_okD(5) [OF q(2)] by (simp_all add: j_def threads_init_simps)
  have r: "thread_run iter ?s ([] @ map On_In [Internal, Internal, Internal, Pushed cmd]) (?s\<lparr>th_in := j\<rparr>)"
    unfolding j_def by (rule thread_run_push [OF thread_start q(1)]) (simp_all add: threads_init_simps)
  have "\<exists>i. thread_run iter ?s (([] @ map On_In [Internal, Internal, Internal, Pushed cmd]) @ map On_In [Internal, Internal, Internal, Popped cmd])
      (?s\<lparr>th_in := j, th_in := i, th_engine := e, th_pending := new_events (th_engine (?s\<lparr>th_in := j\<rparr>)) e\<rparr>)"
    by (rule thread_run_take [OF r, of cmd q']) (use j q' assms in \<open>simp_all add: threads_init_simps\<close>)
  then show ?thesis by (simp add: threads_init_simps)
qed


end
