(* ===== verification/Tcp_Server.thy ===== *)
theory Tcp_Server
  imports Matching_Engine Spsc_Queue
begin

text \<open>
  The server of \<open>engine/src/tcp_server.cpp\<close>: its table of connections and one turn of its event loop,
  with accepting, reading, writing and removing connections, and the events of the engine it passes
  on. What the operating system answers (the events of each descriptor, an accepted descriptor, the
  bytes received, the number of bytes sent) is an argument. An access outside a vector, which C++
  leaves undefined, is a fault.
\<close>

section \<open>Connections\<close>

definition INVALID_SOCK :: int where
  "INVALID_SOCK = -1"

definition RECV_BUFFER_SIZE :: nat where
  "RECV_BUFFER_SIZE = 4096"

text \<open>\<open>cc_recv\<close> holds the first \<open>recv_offset\<close> bytes of \<open>recv_buffer\<close>.\<close>

record client_conn =
  cc_sock :: int
  cc_recv :: bytes
  cc_send :: bytes

record tcp_server =
  sv_running :: bool
  sv_listen :: int
  sv_clients :: "client_conn list"
  sv_in :: "command spsc_queue"
  sv_out :: "engine_event spsc_queue"

record revents =
  re_in :: bool
  re_out :: bool
  re_bad :: bool

text \<open>
  What a turn finds: the result of \<open>poll\<close>, the events of the listening socket and of each
  descriptor, the descriptor \<open>accept\<close> returns, what \<open>recv\<close> and \<open>send\<close> return for a descriptor (nothing
  for a negative result), and the engine as it stands when a descriptor's message with k messages behind it is checked.
\<close>

record turn =
  tu_result :: int
  tu_listen :: revents
  tu_events :: "int \<Rightarrow> revents"
  tu_accept :: int
  tu_recv :: "int \<Rightarrow> bytes option"
  tu_sent :: "int \<Rightarrow> int"
  tu_engine :: "int \<Rightarrow> nat \<Rightarrow> engine"

datatype fault = Out_Of_Bounds | Unlisted_Value

section \<open>Operations\<close>

definition remove_client :: "nat \<Rightarrow> tcp_server \<Rightarrow> tcp_server" where
  "remove_client idx s = s\<lparr>sv_clients := take idx (sv_clients s) @ drop (idx + 1) (sv_clients s)\<rparr>"

definition accept_client :: "turn \<Rightarrow> tcp_server \<Rightarrow> tcp_server" where
  "accept_client t s =
     (if tu_accept t = INVALID_SOCK then s
      else s\<lparr>sv_clients := sv_clients s @ [\<lparr>cc_sock = tu_accept t, cc_recv = [], cc_send = []\<rparr>]\<rparr>)"

definition queue_bytes :: "bytes \<Rightarrow> client_conn \<Rightarrow> client_conn" where
  "queue_bytes bs c = c\<lparr>cc_send := cc_send c @ bs\<rparr>"

definition reject_bytes :: "int \<Rightarrow> reject_reason \<Rightarrow> bytes" where
  "reject_bytes oid reason = engine_msg_bytes (Engine_Reject \<lparr>er_id = word_of_int oid, er_reason = reason_code reason\<rparr>)"

definition send_reject :: "nat \<Rightarrow> int \<Rightarrow> reject_reason \<Rightarrow> tcp_server \<Rightarrow> tcp_server" where
  "send_reject client_idx oid reason s =
     (if length (sv_clients s) \<le> client_idx then s
      else if cc_sock (sv_clients s ! client_idx) = INVALID_SOCK then s
      else s\<lparr>sv_clients := (sv_clients s)[client_idx := queue_bytes (reject_bytes oid reason) (sv_clients s ! client_idx)]\<rparr>)"

definition broadcast_book :: "engine_book_update \<Rightarrow> tcp_server \<Rightarrow> tcp_server" where
  "broadcast_book u s = s\<lparr>sv_clients := map (\<lambda>c. if cc_sock c = INVALID_SOCK then c
       else queue_bytes (engine_msg_bytes (Engine_Book u)) c) (sv_clients s)\<rparr>"

definition push_command :: "command \<Rightarrow> tcp_server \<Rightarrow> bool \<times> tcp_server" where
  "push_command cmd s = (case spsc_push cmd (sv_in s) of (ok, q) \<Rightarrow> (ok, s\<lparr>sv_in := q\<rparr>))"

definition pop_event :: "tcp_server \<Rightarrow> engine_event option \<times> tcp_server" where
  "pop_event s = (case spsc_pop (sv_out s) of (ev, q) \<Rightarrow> (ev, s\<lparr>sv_out := q\<rparr>))"

text \<open>The effect of \<open>process_message\<close> on the server: the result of \<open>push_command\<close> is not looked at.\<close>

fun obey :: "nat \<Rightarrow> dispatch \<Rightarrow> tcp_server \<Rightarrow> fault + tcp_server" where
  "obey idx (Command cmd) s = Inr (snd (push_command cmd s))"
| "obey idx (Rejected oid reason) s = Inr (send_reject idx oid reason s)"
| "obey idx Ignored s = Inr s"
| "obey idx Unlisted s = Inl Unlisted_Value"

fun dispatch_frames :: "(nat \<Rightarrow> engine) \<Rightarrow> nat \<Rightarrow> (8 word \<times> bytes) list \<Rightarrow> tcp_server \<Rightarrow> fault + tcp_server" where
  "dispatch_frames view idx [] s = Inr s"
| "dispatch_frames view idx ((ty, payload) # fs) s =
     (case obey idx (process_message idx ty payload (view (length fs))) s of
        Inl f \<Rightarrow> Inl f
      | Inr s' \<Rightarrow> dispatch_frames view idx fs s')"

definition handle_client_read :: "turn \<Rightarrow> nat \<Rightarrow> tcp_server \<Rightarrow> fault + tcp_server" where
  "handle_client_read t idx s =
     (let c = sv_clients s ! idx
      in case tu_recv t (cc_sock c) of
           None \<Rightarrow> Inr (remove_client idx s)
         | Some [] \<Rightarrow> Inr (remove_client idx s)
         | Some bs \<Rightarrow>
             (case server_frames (cc_recv c @ bs) of (fs, rest, oversized) \<Rightarrow>
                (case dispatch_frames (tu_engine t (cc_sock c)) idx fs s of
                   Inl f \<Rightarrow> Inl f
                 | Inr s' \<Rightarrow>
                     Inr (if oversized then remove_client idx s'
                          else s'\<lparr>sv_clients := (sv_clients s')[idx := (sv_clients s' ! idx)\<lparr>cc_recv := rest\<rparr>]\<rparr>))))"

definition handle_client_write :: "turn \<Rightarrow> nat \<Rightarrow> tcp_server \<Rightarrow> tcp_server" where
  "handle_client_write t idx s =
     (let c = sv_clients s ! idx; bytes_sent = tu_sent t (cc_sock c)
      in if cc_send c = [] then s
         else if 0 < bytes_sent then s\<lparr>sv_clients := (sv_clients s)[idx := c\<lparr>cc_send := drop (nat bytes_sent) (cc_send c)\<rparr>]\<rparr>
         else s)"

definition deliver_event :: "engine_event \<Rightarrow> tcp_server \<Rightarrow> tcp_server" where
  "deliver_event ev s =
     (case ev of Book_Event u \<Rightarrow> broadcast_book u s | Reject_Event c oid reason \<Rightarrow> send_reject c oid reason s)"

fun consume_engine_events :: "nat \<Rightarrow> tcp_server \<Rightarrow> tcp_server" where
  "consume_engine_events 0 s = s"
| "consume_engine_events (Suc n) s =
     (case pop_event s of
        (None, s') \<Rightarrow> s'
      | (Some ev, s') \<Rightarrow> consume_engine_events n (deliver_event ev s'))"

section \<open>The event loop\<close>

lemma length_remove_client: "idx < length (sv_clients s) \<Longrightarrow> length (sv_clients (remove_client idx s)) = length (sv_clients s) - 1"
  by (simp add: remove_client_def)

lemma remove_client_le: "length (sv_clients (remove_client idx s)) \<le> length (sv_clients s)"
  by (simp add: remove_client_def)

lemma length_send_reject [simp]: "length (sv_clients (send_reject c oid r s)) = length (sv_clients s)"
  by (simp add: send_reject_def)

lemma obey_length: "obey idx d s = Inr s' \<Longrightarrow> length (sv_clients s') = length (sv_clients s)"
  by (cases d) (auto simp: push_command_def split: prod.splits)

lemma dispatch_length: "dispatch_frames view idx fs s = Inr s' \<Longrightarrow> length (sv_clients s') = length (sv_clients s)"
  by (induction view idx fs s rule: dispatch_frames.induct) (auto split: sum.splits dest: obey_length)

lemma handle_client_read_length: "handle_client_read t idx s = Inr s' \<Longrightarrow> length (sv_clients s') \<le> length (sv_clients s)"
  by (auto simp: handle_client_read_def Let_def remove_client_le dest!: dispatch_length intro: order_trans [OF remove_client_le]
      split: option.splits list.splits prod.splits sum.splits if_split_asm)

lemma length_handle_client_write [simp]: "length (sv_clients (handle_client_write t idx s)) = length (sv_clients s)"
  by (simp add: handle_client_write_def Let_def)

text \<open>\<open>fds\<close> are the events of the connections polled_events; \<open>fd_idx\<close> counts from zero, the listening socket apart.\<close>

function poll_clients :: "turn \<Rightarrow> revents list \<Rightarrow> nat \<Rightarrow> nat \<Rightarrow> tcp_server \<Rightarrow> fault + tcp_server" where
  "poll_clients t fds i fd_idx s =
     (if length (sv_clients s) \<le> i then Inr s
      else if cc_sock (sv_clients s ! i) = INVALID_SOCK then poll_clients t fds (i + 1) fd_idx s
      else if length fds \<le> fd_idx then Inl Out_Of_Bounds
      else if re_bad (fds ! fd_idx) then poll_clients t fds (i + 1) (fd_idx + 1) (remove_client i s)
      else (case (if re_in (fds ! fd_idx) then handle_client_read t i s else Inr s) of
              Inl f \<Rightarrow> Inl f
            | Inr s' \<Rightarrow>
                if length (sv_clients s') \<le> i then Inl Out_Of_Bounds
                else poll_clients t fds (i + 1) (fd_idx + 1)
                  (if cc_sock (sv_clients s' ! i) \<noteq> INVALID_SOCK \<and> re_out (fds ! fd_idx)
                   then handle_client_write t i s' else s')))"
  by pat_completeness auto
termination
  by (relation "measure (\<lambda>(t, fds, i, fd_idx, s). length (sv_clients s) - i)")
    (auto simp: length_remove_client dest!: handle_client_read_length split: if_split_asm)

declare poll_clients.simps [simp del]

definition polled_events :: "turn \<Rightarrow> tcp_server \<Rightarrow> revents list" where
  "polled_events t s = map (\<lambda>c. tu_events t (cc_sock c)) (filter (\<lambda>c. cc_sock c \<noteq> INVALID_SOCK) (sv_clients s))"

definition tcp_poll :: "turn \<Rightarrow> tcp_server \<Rightarrow> fault + bool \<times> tcp_server" where
  "tcp_poll t s =
     (if \<not> sv_running s then Inr (False, s)
      else if tu_result t < 0 then Inr (False, s)
      else if tu_result t = 0 then Inr (True, s)
      else (case poll_clients t (polled_events t s) 0 0 (if re_in (tu_listen t) then accept_client t s else s) of
              Inl f \<Rightarrow> Inl f
            | Inr s' \<Rightarrow> Inr (True, consume_engine_events 100 s')))"

text \<open>\<open>start\<close>, given the descriptor of \<open>socket\<close> and whether \<open>bind\<close> and \<open>listen\<close> succeed.\<close>

definition server_start :: "int \<Rightarrow> bool \<Rightarrow> bool \<Rightarrow> tcp_server \<Rightarrow> bool \<times> tcp_server" where
  "server_start fd bound listening s =
     (if fd = INVALID_SOCK then (False, s\<lparr>sv_listen := fd\<rparr>)
      else if \<not> bound then (False, s\<lparr>sv_listen := fd\<rparr>)
      else if \<not> listening then (False, s\<lparr>sv_listen := fd\<rparr>)
      else (True, s\<lparr>sv_listen := fd, sv_running := True\<rparr>))"

definition server_stop :: "tcp_server \<Rightarrow> tcp_server" where
  "server_stop s = s\<lparr>sv_running := False, sv_clients := [], sv_listen := INVALID_SOCK\<rparr>"

section \<open>Framing a stream\<close>

lemma word32_append: "4 \<le> length xs \<Longrightarrow> word32 (xs @ ys) = word32 xs"
  by (simp add: word32_def)

lemma server_frames_append:
  "server_frames (a @ b) =
     (case server_frames a of (fs, rest, d) \<Rightarrow>
        if d then (fs, rest @ b, True)
        else (case server_frames (rest @ b) of (gs, rest', d') \<Rightarrow> (fs @ gs, rest', d')))"
proof (induction a rule: server_frames.induct)
  case (1 a)
  let ?total = "5 + unat (word32 (drop 1 a))"
  consider "length a < 5" | "5 \<le> length a" "MAX_MSG_SIZE < ?total"
    | "5 \<le> length a" "?total \<le> MAX_MSG_SIZE" "length a < ?total"
    | "5 \<le> length a" "?total \<le> MAX_MSG_SIZE" "?total \<le> length a" by linarith
  then show ?case
  proof cases
    case 4
    have h: "drop 1 (a @ b) = drop 1 a @ b" "hd (a @ b) = hd a" "word32 (drop 1 a @ b) = word32 (drop 1 a)"
      using 4(1) by (auto simp: word32_append hd_append)
    have IH: "server_frames (drop ?total a @ b) = (case server_frames (drop ?total a) of (fs, rest, d) \<Rightarrow>
        if d then (fs, rest @ b, True)
        else (case server_frames (rest @ b) of (gs, rest', d') \<Rightarrow> (fs @ gs, rest', d')))"
      by (rule 1) (use 4 in auto)
    have A: "server_frames a = (case server_frames (drop ?total a) of (fs, rest, d) \<Rightarrow>
        ((hd a, take (?total - 5) (drop 5 a)) # fs, rest, d))"
      using 4 by (subst server_frames.simps) (simp add: Let_def)
    have B: "server_frames (a @ b) = (case server_frames (drop ?total a @ b) of (fs, rest, d) \<Rightarrow>
        ((hd a, take (?total - 5) (drop 5 a)) # fs, rest, d))"
      using 4 h by (subst server_frames.simps) (simp add: Let_def)
    show ?thesis unfolding A B IH by (auto split: prod.splits)
  next
    case 2
    then show ?thesis by (simp add: server_frames.simps [of a] server_frames.simps [of "a @ b"] word32_append Let_def)
  qed (simp_all add: server_frames.simps [of a] Let_def split: prod.splits)
qed

lemma server_frames_rest: "server_frames buf = (fs, rest, False) \<Longrightarrow> length rest < MAX_MSG_SIZE"
proof (induction buf arbitrary: fs rule: server_frames.induct)
  case (1 buf)
  then show ?case
    by (subst (asm) (2) server_frames.simps) (auto simp: Let_def MAX_MSG_SIZE_def split: if_split_asm prod.splits)
qed

lemma server_frames_idem: "server_frames buf = (fs, rest, d) \<Longrightarrow> server_frames rest = ([], rest, d)"
proof (induction buf arbitrary: fs rule: server_frames.induct)
  case (1 buf)
  show ?case
  proof (cases "5 \<le> length buf \<and> 5 + unat (word32 (drop 1 buf)) \<le> MAX_MSG_SIZE \<and> 5 + unat (word32 (drop 1 buf)) \<le> length buf")
    case True
    then show ?thesis using 1 by (subst (asm) (2) server_frames.simps) (auto simp: Let_def split: prod.splits)
  next
    case False
    then have "rest = buf \<and> fs = []" using 1(2) by (subst (asm) server_frames.simps) (auto simp: Let_def split: if_split_asm)
    then show ?thesis using 1(2) by simp
  qed
qed

section \<open>A turn in which no connection opens or closes\<close>

fun dispatches :: "(nat \<Rightarrow> engine) \<Rightarrow> nat \<Rightarrow> (8 word \<times> bytes) list \<Rightarrow> dispatch list" where
  "dispatches view idx [] = []"
| "dispatches view idx ((ty, payload) # fs) = process_message idx ty payload (view (length fs)) # dispatches view idx fs"

fun commands_of :: "dispatch list \<Rightarrow> command list" where
  "commands_of [] = []"
| "commands_of (Command cmd # ds) = cmd # commands_of ds"
| "commands_of (_ # ds) = commands_of ds"

definition message_bytes :: "engine_msg list \<Rightarrow> bytes" where
  "message_bytes ms = concat (map engine_msg_bytes ms)"

definition answers :: "dispatch list \<Rightarrow> bytes" where
  "answers ds = message_bytes (concat (map dispatch_messages ds))"

definition push_commands :: "command list \<Rightarrow> command spsc_queue \<Rightarrow> command spsc_queue" where
  "push_commands cmds q = fold (\<lambda>cmd q. snd (spsc_push cmd q)) cmds q"

text \<open>What a connection receives in a turn, what becomes of it, and the connection afterwards.\<close>

definition received :: "turn \<Rightarrow> client_conn \<Rightarrow> (8 word \<times> bytes) list \<times> bytes \<times> bool" where
  "received t c =
     (if re_in (tu_events t (cc_sock c))
      then server_frames (cc_recv c @ (case tu_recv t (cc_sock c) of None \<Rightarrow> [] | Some bs \<Rightarrow> bs))
      else ([], cc_recv c, False))"

definition conn_dispatches :: "turn \<Rightarrow> nat \<Rightarrow> client_conn \<Rightarrow> dispatch list" where
  "conn_dispatches t idx c = dispatches (tu_engine t (cc_sock c)) idx (fst (received t c))"

definition served :: "turn \<Rightarrow> nat \<Rightarrow> client_conn \<Rightarrow> client_conn" where
  "served t idx c =
     (let c' = c\<lparr>cc_send := cc_send c @ answers (conn_dispatches t idx c), cc_recv := fst (snd (received t c))\<rparr>;
          n = tu_sent t (cc_sock c)
      in if re_out (tu_events t (cc_sock c)) \<and> 0 < n then c'\<lparr>cc_send := drop (nat n) (cc_send c')\<rparr> else c')"

definition conn_quiet :: "turn \<Rightarrow> nat \<Rightarrow> client_conn \<Rightarrow> bool" where
  "conn_quiet t idx c \<longleftrightarrow> cc_sock c \<noteq> INVALID_SOCK \<and> \<not> re_bad (tu_events t (cc_sock c)) \<and>
     (re_in (tu_events t (cc_sock c)) \<longrightarrow> tu_recv t (cc_sock c) \<noteq> None \<and> tu_recv t (cc_sock c) \<noteq> Some []) \<and>
     \<not> snd (snd (received t c)) \<and> Unlisted \<notin> set (conn_dispatches t idx c)"

definition conn_commands :: "turn \<Rightarrow> nat \<Rightarrow> client_conn \<Rightarrow> command list" where
  "conn_commands t idx c = commands_of (conn_dispatches t idx c)"

definition turn_commands :: "turn \<Rightarrow> tcp_server \<Rightarrow> command list" where
  "turn_commands t s = concat (map (\<lambda>i. conn_commands t i (sv_clients s ! i)) [0..<length (sv_clients s)])"

lemma message_bytes_append [simp]: "message_bytes (ms @ ns) = message_bytes ms @ message_bytes ns" "message_bytes [] = []"
  by (simp_all add: message_bytes_def)

lemma queue_bytes_simps [simp]: "cc_sock (queue_bytes bs c) = cc_sock c" "cc_recv (queue_bytes bs c) = cc_recv c"
  "queue_bytes bs (queue_bytes cs c) = queue_bytes (cs @ bs) c" "queue_bytes [] c = c"
  by (simp_all add: queue_bytes_def)

lemma conn_commute: "c\<lparr>cc_recv := r, cc_send := b\<rparr> = c\<lparr>cc_send := b, cc_recv := r\<rparr>"
  by simp

text \<open>The server with one connection replaced and commands pushed.\<close>

definition touched :: "nat \<Rightarrow> client_conn \<Rightarrow> command list \<Rightarrow> tcp_server \<Rightarrow> tcp_server" where
  "touched idx c cmds s = s\<lparr>sv_in := push_commands cmds (sv_in s), sv_clients := (sv_clients s)[idx := c]\<rparr>"

lemma touched_simps [simp]:
  "sv_clients (touched idx c cmds s) = (sv_clients s)[idx := c]" "sv_in (touched idx c cmds s) = push_commands cmds (sv_in s)"
  "sv_out (touched idx c cmds s) = sv_out s" "sv_running (touched idx c cmds s) = sv_running s"
  "touched idx c cmds (touched idx c' cmds' s) = touched idx c (cmds' @ cmds) s"
  by (simp_all add: touched_def push_commands_def)

lemma touched_same: "touched idx (sv_clients s ! idx) [] s = s"
  by (simp add: touched_def push_commands_def)

lemma obey_quiet:
  assumes "d \<noteq> Unlisted" "idx < length (sv_clients s)" "cc_sock (sv_clients s ! idx) \<noteq> INVALID_SOCK"
  shows "obey idx d s = Inr (touched idx (queue_bytes (answers [d]) (sv_clients s ! idx)) (commands_of [d]) s)"
  using assms by (cases d) (simp_all add: touched_def push_commands_def push_command_def send_reject_def answers_def
      reject_bytes_def message_bytes_def split: prod.split)

lemma commands_of_Cons: "commands_of (d # ds) = commands_of [d] @ commands_of ds"
  by (cases d) simp_all

lemma answers_Cons: "answers (d # ds) = answers [d] @ answers ds"
  by (simp add: answers_def)

lemma dispatch_quiet:
  assumes "Unlisted \<notin> set (dispatches view idx fs)" "idx < length (sv_clients s)" "cc_sock (sv_clients s ! idx) \<noteq> INVALID_SOCK"
  shows "dispatch_frames view idx fs s = Inr (touched idx
    (queue_bytes (answers (dispatches view idx fs)) (sv_clients s ! idx)) (commands_of (dispatches view idx fs)) s)"
  using assms
proof (induction view idx fs s rule: dispatch_frames.induct)
  case (1 view idx s)
  then show ?case by (simp add: answers_def touched_same)
next
  case (2 view idx ty payload fs s)
  let ?d = "process_message idx ty payload (view (length fs))"
  let ?s = "touched idx (queue_bytes (answers [?d]) (sv_clients s ! idx)) (commands_of [?d]) s"
  have o: "obey idx ?d s = Inr ?s" by (rule obey_quiet) (use 2 in auto)
  have "dispatch_frames view idx fs ?s = Inr (touched idx (queue_bytes (answers (dispatches view idx fs)) (sv_clients ?s ! idx))
      (commands_of (dispatches view idx fs)) ?s)"
    by (rule 2(1) [OF o]) (use 2 in auto)
  then show ?case using o 2(3) by (simp add: commands_of_Cons [of ?d "dispatches view idx fs"] answers_Cons [of ?d "dispatches view idx fs"])
qed

lemma read_quiet:
  assumes "conn_quiet t idx (sv_clients s ! idx)" "idx < length (sv_clients s)" "c = sv_clients s ! idx"
  shows "(if re_in (tu_events t (cc_sock c)) then handle_client_read t idx s else Inr s) =
    Inr (touched idx (c\<lparr>cc_send := cc_send c @ answers (conn_dispatches t idx c), cc_recv := fst (snd (received t c))\<rparr>)
      (conn_commands t idx c) s)"
proof (cases "re_in (tu_events t (cc_sock c))")
  case True
  obtain b bs where b: "tu_recv t (cc_sock c) = Some (b # bs)"
    using assms True by (cases "tu_recv t (cc_sock c)" rule: option.exhaust) (auto simp: conn_quiet_def neq_Nil_conv)
  obtain fs rest where f: "server_frames (cc_recv c @ b # bs) = (fs, rest, False)" "received t c = (fs, rest, False)"
    using assms(1,3) True b by (cases "server_frames (cc_recv c @ b # bs)") (auto simp: conn_quiet_def received_def)
  have q: "dispatch_frames (tu_engine t (cc_sock c)) idx fs s = Inr (touched idx
    (queue_bytes (answers (conn_dispatches t idx c)) c) (conn_commands t idx c) s)"
    using dispatch_quiet [of "tu_engine t (cc_sock c)" idx fs s] assms f(2)
    by (auto simp: conn_quiet_def conn_dispatches_def conn_commands_def)
  show ?thesis using True b f q assms(2,3)
    by (simp add: handle_client_read_def Let_def touched_def queue_bytes_def)
next
  case False
  then show ?thesis using assms(3) touched_same [of idx s]
    by (simp add: received_def conn_commands_def conn_dispatches_def answers_def)
qed

definition serve :: "turn \<Rightarrow> nat \<Rightarrow> tcp_server \<Rightarrow> tcp_server" where
  "serve t i s = touched i (served t i (sv_clients s ! i)) (conn_commands t i (sv_clients s ! i)) s"

lemma poll_step_quiet:
  assumes "conn_quiet t i (sv_clients s ! i)" "i < length (sv_clients s)" "i < length fds"
    "fds ! i = tu_events t (cc_sock (sv_clients s ! i))"
  shows "poll_clients t fds i i s = poll_clients t fds (i + 1) (i + 1) (serve t i s)"
proof -
  let ?c = "sv_clients s ! i"
  let ?c' = "?c\<lparr>cc_send := cc_send ?c @ answers (conn_dispatches t i ?c), cc_recv := fst (snd (received t ?c))\<rparr>"
  let ?s = "touched i ?c' (conn_commands t i ?c) s"
  have q: "cc_sock ?c \<noteq> INVALID_SOCK" "\<not> re_bad (tu_events t (cc_sock ?c))" using assms(1) by (simp_all add: conn_quiet_def)
  have "(if re_out (fds ! i) then handle_client_write t i ?s else ?s) = serve t i s"
    using assms(2,4) by (auto simp: handle_client_write_def Let_def serve_def served_def touched_def conn_commute)
  then show ?thesis
    using assms(2-4) q read_quiet [OF assms(1,2) refl]
    by (subst poll_clients.simps) simp
qed

text \<open>Serving one connection leaves the others as they are.\<close>

lemma serve_simps [simp]:
  "length (sv_clients (serve t i s)) = length (sv_clients s)" "j \<noteq> i \<Longrightarrow> sv_clients (serve t i s) ! j = sv_clients s ! j"
  "i < length (sv_clients s) \<Longrightarrow> sv_clients (serve t i s) ! i = served t i (sv_clients s ! i)"
  "sv_in (serve t i s) = push_commands (conn_commands t i (sv_clients s ! i)) (sv_in s)" "sv_out (serve t i s) = sv_out s"
  "sv_running (serve t i s) = sv_running s"
  by (simp_all add: serve_def)

lemma served_sock [simp]: "cc_sock (served t i c) = cc_sock c"
  by (simp add: served_def Let_def)

definition serve_upto :: "turn \<Rightarrow> nat \<Rightarrow> nat \<Rightarrow> tcp_server \<Rightarrow> tcp_server" where
  "serve_upto t i m s = fold (serve t) [i..<m] s"

lemma serve_upto_simps: "m \<le> i \<Longrightarrow> serve_upto t i m s = s" "i < m \<Longrightarrow> serve_upto t i m s = serve_upto t (i + 1) m (serve t i s)"
  by (simp_all add: serve_upto_def upt_conv_Cons)

lemma serve_upto_clients:
  assumes "m \<le> length (sv_clients s)"
  shows "length (sv_clients (serve_upto t i m s)) = length (sv_clients s) \<and>
   (\<forall>j<length (sv_clients s). sv_clients (serve_upto t i m s) ! j =
     (if i \<le> j \<and> j < m then served t j (sv_clients s ! j) else sv_clients s ! j)) \<and>
   sv_in (serve_upto t i m s) = push_commands (concat (map (\<lambda>j. conn_commands t j (sv_clients s ! j)) [i..<m])) (sv_in s) \<and>
   sv_out (serve_upto t i m s) = sv_out s \<and> sv_running (serve_upto t i m s) = sv_running s"
  using assms
proof (induction "m - i" arbitrary: i s)
  case 0
  then show ?case by (auto simp: serve_upto_simps push_commands_def)
next
  case (Suc n)
  then have i: "i < m" "i < length (sv_clients s)" by simp_all
  have m: "map (\<lambda>j. conn_commands t j (sv_clients (serve t i s) ! j)) [i + 1..<m] =
      map (\<lambda>j. conn_commands t j (sv_clients s ! j)) [i + 1..<m]" by simp
  note IH = Suc(1) [of "i + 1" "serve t i s", unfolded serve_simps(1) m]
  show ?case unfolding serve_upto_simps(2) [OF i(1)]
    using IH Suc(2,3) i by (auto simp: upt_conv_Cons push_commands_def less_Suc_eq not_less_eq_eq le_less)
qed

lemma poll_clients_quiet:
  assumes "\<forall>j. i \<le> j \<and> j < m \<longrightarrow> conn_quiet t j (sv_clients s ! j) \<and> fds ! j = tu_events t (cc_sock (sv_clients s ! j))"
    "m \<le> length fds" "m \<le> length (sv_clients s)" "i \<le> m"
  shows "poll_clients t fds i i s = poll_clients t fds m m (serve_upto t i m s)"
  using assms
proof (induction "m - i" arbitrary: i s)
  case 0
  then show ?case by (simp add: serve_upto_simps)
next
  case (Suc n)
  then have i: "i < m" by simp
  have "poll_clients t fds i i s = poll_clients t fds (i + 1) (i + 1) (serve t i s)"
    by (rule poll_step_quiet) (use Suc i in auto)
  also have "\<dots> = poll_clients t fds m m (serve_upto t (i + 1) m (serve t i s))"
    by (rule Suc(1)) (use Suc i in auto)
  finally show ?case by (simp add: serve_upto_simps(2) [OF i])
qed

section \<open>The engine's events\<close>

lemma deliver_event_clients:
  assumes "list_all (\<lambda>c. cc_sock c \<noteq> INVALID_SOCK) (sv_clients s)"
  shows "length (sv_clients (deliver_event ev s)) = length (sv_clients s)"
    "j < length (sv_clients s) \<Longrightarrow> sv_clients (deliver_event ev s) ! j = queue_bytes (message_bytes (event_messages j ev)) (sv_clients s ! j)"
    "sv_in (deliver_event ev s) = sv_in s" "sv_out (deliver_event ev s) = sv_out s"
  using assms by (auto simp: deliver_event_def broadcast_book_def send_reject_def message_bytes_def reject_bytes_def list_all_length
      nth_list_update split: engine_event.split)

lemma deliver_keeps_valid:
  "list_all (\<lambda>c. cc_sock c \<noteq> INVALID_SOCK) (sv_clients s) \<Longrightarrow> list_all (\<lambda>c. cc_sock c \<noteq> INVALID_SOCK) (sv_clients (deliver_event ev s))"
  by (simp add: list_all_length deliver_event_clients)

lemma consume_events:
  assumes "queue_ok n ws k (sv_out s)" "list_all (\<lambda>c. cc_sock c \<noteq> INVALID_SOCK) (sv_clients s)" "s' = consume_engine_events m s"
  shows "length (sv_clients s') = length (sv_clients s) \<and> sv_in s' = sv_in s \<and>
    queue_ok n ws (k + length (take m (drop k ws))) (sv_out s') \<and>
    (\<forall>j<length (sv_clients s). sv_clients s' ! j =
      queue_bytes (message_bytes (concat (map (event_messages j) (take m (drop k ws))))) (sv_clients s ! j))"
  using assms
proof (induction m arbitrary: k s)
  case 0
  then show ?case by simp
next
  case (Suc m)
  show ?case
  proof (cases "k < length ws")
    case False
    then show ?thesis using Suc spsc_pop_ok(2) [OF Suc(2)] by (simp add: pop_event_def)
  next
    case True
    then obtain q where q: "spsc_pop (sv_out s) = (Some (ws ! k), q)" "queue_ok n ws (k + 1) q" using spsc_pop_ok(1) [OF Suc(2)] by auto
    let ?s = "deliver_event (ws ! k) (s\<lparr>sv_out := q\<rparr>)"
    have v: "list_all (\<lambda>c. cc_sock c \<noteq> INVALID_SOCK) (sv_clients (s\<lparr>sv_out := q\<rparr>))" using Suc(3) by simp
    note D = deliver_event_clients [OF v]
    have s': "s' = consume_engine_events m ?s" using Suc(4) q(1) by (simp add: pop_event_def)
    note IH = Suc(1) [of "k + 1" ?s, OF _ deliver_keeps_valid [OF v] s']
    have d: "take (Suc m) (drop k ws) = ws ! k # take m (drop (k + 1) ws)" using True by (simp add: Cons_nth_drop_Suc [symmetric])
    show ?thesis unfolding d using IH D q(2) by simp
  qed
qed

lemma push_commands_ok:
  assumes "queue_ok n ws k q" "length ws + length cmds - k < n"
  shows "queue_ok n (ws @ cmds) k (push_commands cmds q)"
proof -
  obtain capacity where n: "n = capacity + 1" using queue_okD(1) [OF assms(1)] by (cases n) auto
  show ?thesis using spsc.push_all [of capacity ws k q cmds] assms unfolding n push_commands_def by simp
qed

section \<open>What a turn does\<close>

definition quiet_turn :: "turn \<Rightarrow> tcp_server \<Rightarrow> bool" where
  "quiet_turn t s \<longleftrightarrow> sv_running s \<and> 0 < tu_result t \<and> (re_in (tu_listen t) \<longrightarrow> tu_accept t = INVALID_SOCK) \<and>
     list_all (\<lambda>i. conn_quiet t i (sv_clients s ! i)) [0..<length (sv_clients s)]"

lemma quiet_turnD: "quiet_turn t s \<Longrightarrow> sv_running s"
  by (simp add: quiet_turn_def)

abbreviation serve_all :: "turn \<Rightarrow> tcp_server \<Rightarrow> tcp_server" where
  "serve_all t s \<equiv> serve_upto t 0 (length (sv_clients s)) s"

lemma quiet_turn_polls:
  assumes "quiet_turn t s"
  shows "tcp_poll t s = Inr (True, consume_engine_events 100 (serve_all t s))"
    "list_all (\<lambda>c. cc_sock c \<noteq> INVALID_SOCK) (sv_clients (serve_all t s))"
proof -
  let ?l = "length (sv_clients s)"
  have q: "conn_quiet t i (sv_clients s ! i)" if "i < ?l" for i using assms that by (simp add: quiet_turn_def list_all_length)
  then have v: "filter (\<lambda>c. cc_sock c \<noteq> INVALID_SOCK) (sv_clients s) = sv_clients s"
    by (auto simp: filter_id_conv in_set_conv_nth conn_quiet_def)
  have "poll_clients t (polled_events t s) 0 0 s = poll_clients t (polled_events t s) ?l ?l (serve_all t s)"
    by (rule poll_clients_quiet) (use q v in \<open>auto simp: polled_events_def\<close>)
  also have "\<dots> = Inr (serve_all t s)" by (subst poll_clients.simps) (simp add: serve_upto_clients)
  finally have p: "poll_clients t (polled_events t s) 0 0 s = Inr (serve_all t s)" .
  have "(if re_in (tu_listen t) then accept_client t s else s) = s" using assms by (auto simp: quiet_turn_def accept_client_def)
  then show "tcp_poll t s = Inr (True, consume_engine_events 100 (serve_all t s))"
    using assms p by (simp add: tcp_poll_def quiet_turn_def)
  show "list_all (\<lambda>c. cc_sock c \<noteq> INVALID_SOCK) (sv_clients (serve_all t s))"
    using serve_upto_clients [of ?l s t 0] q by (auto simp: list_all_length conn_quiet_def)
qed

lemma consume_running: "sv_running (consume_engine_events m s) = sv_running s"
proof (induction m arbitrary: s)
  case (Suc m)
  have "sv_running (deliver_event ev s) = sv_running s" for ev s
    by (cases ev) (simp_all add: deliver_event_def broadcast_book_def send_reject_def)
  then show ?case using Suc by (simp add: pop_event_def split: prod.split option.split)
qed simp

lemma quiet_turn_effect:
  assumes "quiet_turn t s" "queue_ok n ws k (sv_out s)"
  shows "\<exists>s'. tcp_poll t s = Inr (True, s') \<and> sv_running s' \<and> sv_in s' = push_commands (turn_commands t s) (sv_in s) \<and>
    queue_ok n ws (k + length (take 100 (drop k ws))) (sv_out s') \<and> length (sv_clients s') = length (sv_clients s) \<and>
    (\<forall>i<length (sv_clients s). sv_clients s' ! i =
      queue_bytes (message_bytes (concat (map (event_messages i) (take 100 (drop k ws))))) (served t i (sv_clients s ! i)))"
proof -
  note Q = quiet_turn_polls [OF assms(1)] and A = serve_upto_clients [of "length (sv_clients s)" s t 0]
  have "queue_ok n ws k (sv_out (serve_all t s))" using A assms(2) by simp
  note C = consume_events [OF this Q(2) refl, of 100]
  show ?thesis using Q(1) C A by (intro exI [of _ "consume_engine_events 100 (serve_all t s)"]) (simp add: turn_commands_def consume_running quiet_turnD [OF assms(1)])
qed


section \<open>Connections that open and close\<close>

text \<open>The peer has closed the connection, or reading it fails.\<close>

definition hangs_up :: "turn \<Rightarrow> client_conn \<Rightarrow> bool" where
  "hangs_up t c \<longleftrightarrow> cc_sock c \<noteq> INVALID_SOCK \<and> \<not> re_bad (tu_events t (cc_sock c)) \<and> re_in (tu_events t (cc_sock c)) \<and>
     (tu_recv t (cc_sock c) = None \<or> tu_recv t (cc_sock c) = Some [])"

lemma polled_events_valid:
  "\<forall>i<length (sv_clients s). cc_sock (sv_clients s ! i) \<noteq> INVALID_SOCK \<Longrightarrow>
     polled_events t s = map (\<lambda>c. tu_events t (cc_sock c)) (sv_clients s)"
  unfolding polled_events_def by (subst filter_True) (auto simp: in_set_conv_nth)

text \<open>
  C31. Opening a connection, or closing the one opened last, takes the event loop out of bounds. When
  a connection is accepted the loop goes on to it with the descriptors polled_events before, and reads the
  events of a descriptor that is not there; when reading the last connection finds that its peer has
  closed it, the connection is erased and its slot is looked at again. Both are undefined in C++, and
  happen whatever the other connections have received in the turn.
\<close>

theorem connections_out_of_bounds:
  assumes "sv_running s" "0 < tu_result t" "\<forall>i<m. conn_quiet t i (sv_clients s ! i)"
    "m = length (sv_clients s) \<and> re_in (tu_listen t) \<and> tu_accept t \<noteq> INVALID_SOCK \<or>
     Suc m = length (sv_clients s) \<and> \<not> re_in (tu_listen t) \<and> hangs_up t (sv_clients s ! m)"
  shows "tcp_poll t s = Inl Out_Of_Bounds"
  using assms(4)
proof (elim disjE conjE)
  assume m: "m = length (sv_clients s)" and l: "re_in (tu_listen t)" and a: "tu_accept t \<noteq> INVALID_SOCK"
  let ?s = "accept_client t s"
  have c: "sv_clients ?s = sv_clients s @ [\<lparr>cc_sock = tu_accept t, cc_recv = [], cc_send = []\<rparr>]"
    using a by (simp add: accept_client_def)
  have f: "polled_events t s = map (\<lambda>c. tu_events t (cc_sock c)) (sv_clients s)"
    by (rule polled_events_valid) (use assms(3) m in \<open>simp add: conn_quiet_def\<close>)
  have "poll_clients t (polled_events t s) 0 0 ?s = poll_clients t (polled_events t s) m m (serve_upto t 0 m ?s)"
    by (rule poll_clients_quiet) (use assms(3) m c f in \<open>auto simp: nth_append\<close>)
  also have "\<dots> = Inl Out_Of_Bounds"
    using serve_upto_clients [of m ?s t 0] m c f a by (subst poll_clients.simps) (simp add: nth_append)
  finally show ?thesis using assms(1,2) l by (simp add: tcp_poll_def)
next
  assume m: "Suc m = length (sv_clients s)" and l: "\<not> re_in (tu_listen t)" and h: "hangs_up t (sv_clients s ! m)"
  have f: "polled_events t s = map (\<lambda>c. tu_events t (cc_sock c)) (sv_clients s)"
    by (rule polled_events_valid) (use assms(3) m h in \<open>auto simp: conn_quiet_def hangs_up_def less_Suc_eq simp flip: m\<close>)
  have "poll_clients t (polled_events t s) 0 0 s = poll_clients t (polled_events t s) m m (serve_upto t 0 m s)"
    by (rule poll_clients_quiet) (use assms(3) m f in auto)
  also have "\<dots> = Inl Out_Of_Bounds"
    using serve_upto_clients [of m s t 0] m f h
    by (subst poll_clients.simps) (auto simp: hangs_up_def handle_client_read_def Let_def length_remove_client)
  finally show ?thesis using assms(1,2) l by (simp add: tcp_poll_def)
qed

text \<open>
  Once an earlier connection is gone, the rejection of a command goes to whoever has taken over the
  index of the connection that sent it, and its sender hears nothing.
\<close>

lemma reject_after_removal:
  assumes "i < j" "j < length (sv_clients s)" "list_all (\<lambda>c. cc_sock c \<noteq> INVALID_SOCK) (sv_clients s)"
  shows "sv_clients (send_reject j oid r (remove_client i s)) ! (j - 1) = sv_clients s ! j"
    "j + 1 < length (sv_clients s) \<Longrightarrow>
      sv_clients (send_reject j oid r (remove_client i s)) ! j = queue_bytes (reject_bytes oid r) (sv_clients s ! (j + 1))"
  using assms by (auto simp: send_reject_def remove_client_def nth_append list_all_length min_def)

section \<open>A stream over many turns\<close>

fun quiet_run :: "turn list \<Rightarrow> tcp_server \<Rightarrow> bool" where
  "quiet_run [] s \<longleftrightarrow> True"
| "quiet_run (t # ts) s \<longleftrightarrow> quiet_turn t s \<and> (case tcp_poll t s of Inl f \<Rightarrow> False | Inr (b, s') \<Rightarrow> quiet_run ts s')"

fun run_turns :: "turn list \<Rightarrow> tcp_server \<Rightarrow> fault + tcp_server" where
  "run_turns [] s = Inr s"
| "run_turns (t # ts) s = (case tcp_poll t s of Inl f \<Rightarrow> Inl f | Inr (b, s') \<Rightarrow> if b then run_turns ts s' else Inr s')"

text \<open>The bytes the turns deliver on connection \<open>i\<close>, and the frames dispatched from it.\<close>

fun stream_of :: "nat \<Rightarrow> turn list \<Rightarrow> tcp_server \<Rightarrow> bytes" where
  "stream_of i [] s = []"
| "stream_of i (t # ts) s =
     (if re_in (tu_events t (cc_sock (sv_clients s ! i)))
      then (case tu_recv t (cc_sock (sv_clients s ! i)) of None \<Rightarrow> [] | Some bs \<Rightarrow> bs) else []) @
     (case tcp_poll t s of Inl f \<Rightarrow> [] | Inr (b, s') \<Rightarrow> stream_of i ts s')"

fun frames_of :: "nat \<Rightarrow> turn list \<Rightarrow> tcp_server \<Rightarrow> (8 word \<times> bytes) list" where
  "frames_of i [] s = []"
| "frames_of i (t # ts) s = fst (received t (sv_clients s ! i)) @
     (case tcp_poll t s of Inl f \<Rightarrow> [] | Inr (b, s') \<Rightarrow> frames_of i ts s')"

lemma consume_recv:
  "list_all (\<lambda>c. cc_sock c \<noteq> INVALID_SOCK) (sv_clients s) \<Longrightarrow>
     map cc_recv (sv_clients (consume_engine_events m s)) = map cc_recv (sv_clients s)"
proof (induction m arbitrary: s)
  case (Suc m)
  obtain ev q where e: "spsc_pop (sv_out s) = (ev, q)" by fastforce
  show ?case
  proof (cases ev)
    case None
    then show ?thesis using e by (simp add: pop_event_def)
  next
    case (Some x)
    let ?s = "s\<lparr>sv_out := q\<rparr>"
    have v: "list_all (\<lambda>c. cc_sock c \<noteq> INVALID_SOCK) (sv_clients ?s)" using Suc(2) by simp
    have "map cc_recv (sv_clients (deliver_event x ?s)) = map cc_recv (sv_clients s)"
      by (rule nth_equalityI) (simp_all add: deliver_event_clients [OF v])
    then show ?thesis using Suc(1) [OF deliver_keeps_valid [OF v, of x]] e Some by (simp add: pop_event_def)
  qed
qed simp

lemma quiet_turn_recv:
  assumes "quiet_turn t s" "i < length (sv_clients s)"
  shows "\<exists>s'. tcp_poll t s = Inr (True, s') \<and> length (sv_clients s') = length (sv_clients s) \<and>
    cc_recv (sv_clients s' ! i) = fst (snd (received t (sv_clients s ! i)))"
proof -
  define a where "a = serve_all t s"
  define e where "e = consume_engine_events 100 a"
  have Q: "tcp_poll t s = Inr (True, e)" "list_all (\<lambda>c. cc_sock c \<noteq> INVALID_SOCK) (sv_clients a)"
    unfolding e_def a_def by (rule quiet_turn_polls [OF assms(1)])+
  have A: "length (sv_clients a) = length (sv_clients s)" "sv_clients a ! i = served t i (sv_clients s ! i)"
    using serve_upto_clients [of "length (sv_clients s)" s t 0] assms(2) unfolding a_def by auto
  have m: "map cc_recv (sv_clients e) = map cc_recv (sv_clients a)" unfolding e_def by (rule consume_recv [OF Q(2)])
  have l: "length (sv_clients e) = length (sv_clients s)" using arg_cong [OF m, of length] A(1) by simp
  have "map cc_recv (sv_clients e) ! i = map cc_recv (sv_clients a) ! i" by (simp only: m)
  then have "cc_recv (sv_clients e ! i) = cc_recv (sv_clients a ! i)" using l A(1) assms(2) by simp
  then show ?thesis using Q(1) A l by (intro exI [of _ e]) (simp add: served_def Let_def)
qed

lemma received_appends:
  assumes "quiet_turn t s" "i < length (sv_clients s)" "server_frames (cc_recv (sv_clients s ! i)) = ([], cc_recv (sv_clients s ! i), False)"
  shows "server_frames (cc_recv (sv_clients s ! i) @
    (if re_in (tu_events t (cc_sock (sv_clients s ! i)))
      then (case tu_recv t (cc_sock (sv_clients s ! i)) of None \<Rightarrow> [] | Some bs \<Rightarrow> bs) else [])) =
    (fst (received t (sv_clients s ! i)), fst (snd (received t (sv_clients s ! i))), False)"
proof -
  have "\<not> snd (snd (received t (sv_clients s ! i)))" using assms(1,2) by (simp add: quiet_turn_def list_all_length conn_quiet_def)
  then show ?thesis using assms(3) by (auto simp: received_def prod_eq_iff)
qed


section \<open>An example\<close>

definition demo_events :: revents where
  "demo_events = \<lparr>re_in = True, re_out = True, re_bad = False\<rparr>"

definition demo_turn :: "bytes \<Rightarrow> turn" where
  "demo_turn bs = \<lparr>tu_result = 1, tu_listen = demo_events\<lparr>re_in := False\<rparr>, tu_events = \<lambda>_. demo_events, tu_accept = INVALID_SOCK,
     tu_recv = \<lambda>_. Some bs, tu_sent = \<lambda>_. 0, tu_engine = \<lambda>_ _. engine_init\<rparr>"

definition demo_server :: tcp_server where
  "demo_server = \<lparr>sv_running = True, sv_listen = 3, sv_clients = [\<lparr>cc_sock = 5, cc_recv = [], cc_send = []\<rparr>],
     sv_in = spsc_init 1 (Cancel_Command 0 0), sv_out = spsc_init 1 (Reject_Event 0 0 ORDER_NOT_FOUND)\<rparr>"

definition cancel_frame :: bytes where
  "cancel_frame = [2, 8, 0, 0, 0, 9, 0, 0, 0, 0, 0, 0, 0]"

lemma cancel_frames: "server_frames cancel_frame = ([(2, [9, 0, 0, 0, 0, 0, 0, 0])], [], False)"
  by (simp add: cancel_frame_def server_frames.simps MAX_MSG_SIZE_def word32_def)

lemma demo_dispatches: "conn_dispatches (demo_turn cancel_frame) 0 (sv_clients demo_server ! 0) = [Command (Cancel_Command 0 9)]"
  by (simp add: conn_dispatches_def received_def demo_turn_def demo_server_def demo_events_def cancel_frames
    process_message_def deserialize_cancel_def word64_def)

lemma demo_quiet: "quiet_turn (demo_turn cancel_frame) demo_server"
  using demo_dispatches by (simp add: quiet_turn_def conn_quiet_def received_def cancel_frames demo_turn_def demo_server_def demo_events_def INVALID_SOCK_def
    cancel_frames [unfolded cancel_frame_def] cancel_frame_def)

lemma demo_queues: "queue_ok 2 [] 0 (sv_in demo_server)" "queue_ok 2 [] 0 (sv_out demo_server)"
  using queue_init_ok [of 1] by (simp_all add: demo_server_def numeral_2_eq_2)


theorem connections_out_of_bounds_witness: "tcp_poll (demo_turn []) demo_server = Inl Out_Of_Bounds"
  by (rule connections_out_of_bounds [of _ _ 0])
    (simp_all add: demo_server_def demo_turn_def demo_events_def hangs_up_def INVALID_SOCK_def)

lemma header_only: "server_frames [2, 8, 0, 0, 0] = ([], [2, 8, 0, 0, 0], False)"
  by (simp add: server_frames.simps MAX_MSG_SIZE_def word32_def)

lemma demo_first_half:
  "tcp_poll (demo_turn (take 5 cancel_frame)) demo_server = Inr (True, demo_server\<lparr>sv_clients := [\<lparr>cc_sock = 5, cc_recv = take 5 cancel_frame, cc_send = []\<rparr>]\<rparr>)"
  by (simp add: tcp_poll_def poll_clients.simps polled_events_def handle_client_read_def handle_client_write_def demo_turn_def demo_server_def demo_events_def
    cancel_frame_def header_only INVALID_SOCK_def pop_event_def spsc_pop_def spsc_init_def eval_nat_numeral)

end
