(* ===== verification/Engine_Ranges.thy ===== *)
theory Engine_Ranges
  imports Engine_Runs
begin

text \<open>
  The engine's numbers are unbounded here, while \<open>engine/include/types.hpp\<close> declares \<open>Quantity\<close> as a
  32-bit and \<open>Tick\<close> and \<open>Fee\<close> as 64-bit integers, whose overflow C++ leaves undefined. This theory
  shows when that makes no difference: the totals of fees are what the fills add up to, and as long as
  all quantities ever submitted add up to a \<open>Quantity\<close> and prices are bounded, no number
  of the engine leaves its range, neither between two commands nor in the middle of the matching loop.
\<close>

section \<open>Fees\<close>

definition fees_ok :: "engine \<Rightarrow> bool" where
  "fees_ok e \<longleftrightarrow> mx_fees e = default_fees \<and> mx_total_fills e = int (length (mx_fills e)) \<and>
     mx_maker_rebates e = (\<Sum>f\<leftarrow>mx_fills e. - fe_maker_fee f) \<and> mx_taker_fees e = (\<Sum>f\<leftarrow>mx_fills e. fe_taker_fee f) \<and>
     (\<forall>f \<in> set (mx_fills e). fe_maker_fee f = - maker_rebate default_fees (fe_price f) (fe_quantity f) \<and>
        fe_taker_fee f = taker_fee default_fees (fe_price f) (fe_quantity f))"

lemma fees_ok_init: "fees_ok engine_init"
  by (simp add: fees_ok_def engine_init_def)

lemma fees_ok_same:
  "fees_ok e \<Longrightarrow> mx_fees e' = mx_fees e \<Longrightarrow> mx_total_fills e' = mx_total_fills e \<Longrightarrow> mx_fills e' = mx_fills e \<Longrightarrow>
     mx_maker_rebates e' = mx_maker_rebates e \<Longrightarrow> mx_taker_fees e' = mx_taker_fees e \<Longrightarrow> fees_ok e'"
  by (simp add: fees_ok_def)

lemma fees_ok_fill: "fees_ok e \<Longrightarrow> fees_ok (execute_fill maker taker qty e)"
  by (auto simp: fees_ok_def execute_fill_def Let_def)

lemma fees_ok_book [simp]:
  "fees_ok (on_book f e) = fees_ok e" "fees_ok (e\<lparr>mx_book := b\<rparr>) = fees_ok e" "fees_ok (emit ev e) = fees_ok e"
  "fees_ok (send_update iter e) = fees_ok e" "fees_ok (drop_order iter tid e) = fees_ok e"
  "fees_ok (e\<lparr>mx_total_orders := n\<rparr>) = fees_ok e" "fees_ok (e\<lparr>mx_book := b, mx_total_cancels := n\<rparr>) = fees_ok e"
  "fees_ok (e\<lparr>mx_book := b, mx_total_modifies := n\<rparr>) = fees_ok e"
  by (simp_all add: fees_ok_def on_book_def emit_def send_update_def drop_order_def split: option.split)

lemma fees_ok_round: "fees_ok e \<Longrightarrow> match_round iter tid e = Some e' \<Longrightarrow> fees_ok e'"
  by (auto simp: match_round_def settle_maker_def Let_def fees_ok_fill split: option.split_asm if_split_asm)

lemma fees_ok_match:
  assumes "match_order iter tid e = Some e'"
  shows "fees_ok e \<longrightarrow> fees_ok e'"
proof (rule match_order.raw_induct [where P = "\<lambda>iter tid e e'. fees_ok e \<longrightarrow> fees_ok e'", OF _ assms])
  fix f :: "iteration \<Rightarrow> int \<Rightarrow> engine \<Rightarrow> engine option" and iter tid e e'
  assume IH: "\<And>iter tid e e'. f iter tid e = Some e' \<Longrightarrow> fees_ok e \<longrightarrow> fees_ok e'"
    and r: "(case match_round iter tid e of None \<Rightarrow> Some e | Some e' \<Rightarrow> f iter tid e') = Some e'"
  show "fees_ok e \<longrightarrow> fees_ok e'"
  proof (cases "match_round iter tid e")
    case (Some e1)
    then show ?thesis using r IH [of iter tid e1 e'] fees_ok_round [OF _ Some] by simp
  qed (use r in simp)
qed

lemma fees_ok_command: "fees_ok e \<Longrightarrow> process_client_command iter cmd e = Some e' \<Longrightarrow> fees_ok e'"
  by (cases cmd) (auto simp: process_new_order_def process_market_def process_resting_def process_cancel_def process_modify_def Let_def
      dest!: fees_ok_match split: option.split_asm prod.split_asm if_split_asm)

lemma fees_ok_run: "run_engine iter cmds e = Some e' \<Longrightarrow> fees_ok e \<Longrightarrow> fees_ok e'"
  by (induction cmds arbitrary: e) (auto split: option.split_asm dest: fees_ok_command)

section \<open>Volumes\<close>

abbreviation fill_volume :: "engine \<Rightarrow> int" where
  "fill_volume e \<equiv> (\<Sum>f\<leftarrow>mx_fills e. fe_quantity f)"

definition solid :: "rungs \<Rightarrow> bool" where
  "solid ls \<longleftrightarrow> (\<forall>(i, p, r) \<in> set ls. 0 \<le> r)"

lemma volume_nonneg: "solid ls \<Longrightarrow> 0 \<le> volume ls"
  by (induction ls) (auto simp: solid_def)

lemma volume_append [simp]: "volume (xs @ ys) = volume xs + volume ys"
  by (simp add: volume_def)

lemma volume_split: "volume (filter P ls) + volume (filter (\<lambda>x. \<not> P x) ls) = volume ls"
  by (induction ls) auto

lemma solid_filter: "solid ls \<Longrightarrow> solid (filter P ls)"
  by (auto simp: solid_def)

lemma volume_filter: "solid ls \<Longrightarrow> volume (filter P ls) \<le> volume ls"
  using volume_split [of P ls] volume_nonneg [OF solid_filter] by (smt (verit))

lemma volume_insert: "volume (spec_insert s oid price q ls) = q + volume ls"
proof -
  have n: "(\<lambda>(j, p, r). price_rank s price < price_rank s p) = (\<lambda>x. \<not> (case x of (j, p, r) \<Rightarrow> price_rank s p \<le> price_rank s price))"
    by (auto simp: fun_eq_iff)
  show ?thesis unfolding spec_insert_def n volume_append
    using volume_split [of "\<lambda>(j, p, r). price_rank s p \<le> price_rank s price" ls] by simp
qed

lemma volume_take_from: "0 \<le> q \<Longrightarrow> volume (take_from tid q ls) \<le> volume ls"
  by (induction ls) (auto simp: take_from_def)

lemma volume_without:
  assumes "solid ls" "(i, p, r) \<in> set ls"
  shows "volume (filter (\<lambda>(j, p, r). j \<noteq> i) ls) + r \<le> volume ls"
  using assms
proof (induction ls)
  case (Cons x ls)
  obtain j q k where x: "x = (j, q, k)" by (cases x)
  have s: "solid ls" "0 \<le> k" using Cons(2) by (auto simp: solid_def x)
  show ?case
  proof (cases "(i, p, r) \<in> set ls")
    case True
    then show ?thesis using Cons(1) [OF s(1)] s(2) by (auto simp: x)
  next
    case False
    then have "j = i" "k = r" using Cons(3) by (auto simp: x)
    then show ?thesis using volume_filter [OF s(1), of "\<lambda>(j, a). j \<noteq> i"] by (simp add: x)
  qed
qed simp

lemma solid_ladder: "book_ok Z M b \<Longrightarrow> solid (ladder s b)"
  using ladder_entry book_okD(6) by (fastforce simp: solid_def order_ok_def)

lemma volume_rungs: "solid (concat (map f ps)) \<Longrightarrow> p \<in> set ps \<Longrightarrow> 0 \<le> volume (f p) \<and> volume (f p) \<le> volume (concat (map f ps))"
proof (induction ps)
  case (Cons a ps)
  have s: "solid (f a)" "solid (concat (map f ps))" using Cons(2) by (auto simp: solid_def)
  show ?case using volume_nonneg [OF s(1)] volume_nonneg [OF s(2)] Cons(1) [OF s(2)] Cons(3) by auto
qed simp

text \<open>A level's total and an order's rest are parts of the volume of their side.\<close>

lemma level_total_le:
  assumes "book_ok Z M b" "dict_get (levels_of s b) p = Some l"
  shows "0 \<le> lv_total l \<and> lv_total l \<le> volume (ladder s b)"
proof -
  have p: "p \<in> keys (levels_of s b)" using assms(2) keys_iff by blast
  then have "volume (rung b (levels_of s b) p) = lv_total l"
    using ladder_price_set(2) [OF assms(1)] assms(2) by (simp add: level_at_def)
  then show ?thesis using volume_rungs [of "rung b (levels_of s b)" "prices s (levels_of s b)" p] solid_ladder [OF assms(1), of s] p
    by (simp add: ladder_def)
qed

lemma spec_match_parts:
  "spec_match reach q ls = (q', ls', fs) \<Longrightarrow> 0 \<le> q \<Longrightarrow> solid ls \<Longrightarrow>
     0 \<le> q' \<and> (\<forall>(i, p, r) \<in> set fs. 0 \<le> r \<and> (\<exists>j k. (j, p, k) \<in> set ls))"
proof (induction reach q ls arbitrary: q' ls' fs rule: spec_match.induct)
  case (2 reach q i p r ls)
  then show ?case by (fastforce simp: solid_def split: if_split_asm prod.split_asm)
qed simp

section \<open>What the commands bound\<close>

definition priced :: "int \<Rightarrow> rungs \<Rightarrow> bool" where
  "priced P ls \<longleftrightarrow> (\<forall>(i, p, r) \<in> set ls. 0 < p \<and> p \<le> P)"

definition bounded :: "int \<Rightarrow> int \<Rightarrow> engine \<Rightarrow> bool" where
  "bounded Q P e \<longleftrightarrow> volume (ladder BID (mx_book e)) + volume (ladder ASK (mx_book e)) + fill_volume e \<le> Q \<and>
     (\<forall>s. priced P (ladder s (mx_book e))) \<and>
     (\<forall>f \<in> set (mx_fills e). 0 \<le> fe_quantity f \<and> 0 < fe_price f \<and> fe_price f \<le> P)"

lemma bounded_iff:
  "bounded Q P e \<longleftrightarrow> volume (ladder s (mx_book e)) + volume (ladder (opposite s) (mx_book e)) + fill_volume e \<le> Q \<and>
     priced P (ladder s (mx_book e)) \<and> priced P (ladder (opposite s) (mx_book e)) \<and>
     (\<forall>f \<in> set (mx_fills e). 0 \<le> fe_quantity f \<and> 0 < fe_price f \<and> fe_price f \<le> P)"
proof -
  have "(\<forall>s'. priced P (ladder s' (mx_book e))) \<longleftrightarrow> priced P (ladder s (mx_book e)) \<and> priced P (ladder (opposite s) (mx_book e))"
    using side_cases [of _ s] by metis
  then show ?thesis unfolding bounded_def by (cases s) (auto simp: add.commute)
qed

lemma bounded_same:
  "bounded Q P e \<Longrightarrow> mx_book e' = mx_book e \<Longrightarrow> mx_fills e' = mx_fills e \<Longrightarrow> Q \<le> Q' \<Longrightarrow> bounded Q' P e'"
  by (simp add: bounded_def)

lemma fill_of_simps [simp]: "fe_quantity (fill_of fs tid (i, p, q)) = q" "fe_price (fill_of fs tid (i, p, q)) = p"
  by (simp_all add: fill_of_def)

lemma fill_of_volume: "(\<Sum>f\<leftarrow>map (fill_of fs tid) xs. fe_quantity f) = volume xs"
  by (induction xs) auto

lemma priced_sub: "priced P ls \<Longrightarrow> (\<And>i p r. (i, p, r) \<in> set ls' \<Longrightarrow> \<exists>j k. (j, p, k) \<in> set ls) \<Longrightarrow> priced P ls'"
  by (fastforce simp: priced_def)

lemma priced_insert: "priced P (spec_insert s oid p q ls) \<longleftrightarrow> (0 < p \<and> p \<le> P) \<and> priced P ls"
proof -
  have "set (spec_insert s oid p q ls) = insert (oid, p, q) (set ls)" by (auto simp: spec_insert_def)
  then show ?thesis by (simp add: priced_def)
qed

lemma bounded_limit:
  assumes "iter_ok iter" "book_ok {} {} (mx_book e)" "bounded Q P e" "price \<le> P"
    "process_new_order iter oid side LIMIT price qty ts dq e = Some (r, e')"
  shows "bounded (Q + max 0 qty) P e'"
proof (cases "0 < qty \<and> 0 < price \<and> dict_get (bk_orders (mx_book e)) oid = None \<and> 0 < bk_free (mx_book e)")
  case True
  let ?b = "mx_book e" and ?o = "opposite side"
  obtain q ls fs where m: "spec_match (reaches side price) qty (ladder ?o ?b) = (q, ls, fs)"
    by (cases "spec_match (reaches side price) qty (ladder ?o ?b)")
  let ?V = "(view ?b)(?o := ls, side := (if 0 < q then spec_insert side oid price q (ladder side ?b) else ladder side ?b))"
  have "spec_limit oid side price qty (view ?b) = (?V, fs)" using m by (simp add: spec_limit_def view_def)
  then have v: "view (mx_book e') = ?V" and f: "mx_fills e' = mx_fills e @ map (fill_of (mx_fees e) oid) fs"
    using limit_refines [OF assms(1,2), of oid qty price side ?V fs ts dq] True assms(5) by (auto simp: filled_from_def)
  have L: "ladder side (mx_book e') = (if 0 < q then spec_insert side oid price q (ladder side ?b) else ladder side ?b)"
    "ladder ?o (mx_book e') = ls"
    using fun_cong [OF v, of side] fun_cong [OF v, of ?o] by (simp_all add: view_def)
  note C = spec_match_conserves [OF m]
  have p: "0 \<le> q" "\<forall>(i, p, r) \<in> set fs. 0 \<le> r \<and> (\<exists>j k. (j, p, k) \<in> set (ladder ?o ?b))"
    using spec_match_parts [OF m _ solid_ladder [OF assms(2)]] True by auto
  have B: "volume (ladder side ?b) + volume (ladder ?o ?b) + fill_volume e \<le> Q" "priced P (ladder side ?b)" "priced P (ladder ?o ?b)"
    "\<forall>f \<in> set (mx_fills e). 0 \<le> fe_quantity f \<and> 0 < fe_price f \<and> fe_price f \<le> P"
    using assms(3) unfolding bounded_iff [of _ _ _ side] by blast+
  have "0 \<le> volume fs" using p(2) by (intro volume_nonneg) (auto simp: solid_def)
  then have "volume (ladder side (mx_book e')) + volume (ladder ?o (mx_book e')) + fill_volume e' \<le> Q + max 0 qty"
    using B(1) C p(1) True fill_of_volume [of "mx_fees e" oid fs] by (simp add: L f volume_insert)
  moreover have "priced P ls" using spec_match_prices [OF m] by (intro priced_sub [OF B(3)]) blast
  moreover have "priced P fs" using p(2) by (intro priced_sub [OF B(3)]) blast
  then have "\<forall>f \<in> set (mx_fills e'). 0 \<le> fe_quantity f \<and> 0 < fe_price f \<and> fe_price f \<le> P"
    using B(4) p(2) by (auto simp: f priced_def fill_of_def)
  ultimately show ?thesis unfolding bounded_iff [of _ _ _ side] using B(2) True assms(4) by (simp add: L priced_insert)
next
  case False
  then have "mx_book e' = mx_book e" "mx_fills e' = mx_fills e"
    using assms(5) by (auto simp: process_new_order_def process_resting_def add_order_def Let_def split: if_split_asm)
  then show ?thesis by (rule bounded_same [OF assms(3)]) simp
qed

lemma bounded_cancel:
  assumes "book_ok Z M (mx_book e)" "bounded Q P e" "view (mx_book e') = spec_cancel oid (view (mx_book e))" "mx_fills e' = mx_fills e"
  shows "bounded Q P e'"
proof -
  have L: "ladder s (mx_book e') = filter (\<lambda>(j, p, r). j \<noteq> oid) (ladder s (mx_book e))" for s
    using fun_cong [OF assms(3), of s] by (simp add: view_def spec_cancel_def)
  have "volume (ladder s (mx_book e')) \<le> volume (ladder s (mx_book e))" for s
    unfolding L by (rule volume_filter [OF solid_ladder [OF assms(1)]])
  from this [of BID] this [of ASK] show ?thesis using assms(2,4) by (auto simp: bounded_def L priced_def)
qed

lemma bounded_modify:
  assumes "book_ok {} {} (mx_book e)" "bounded Q P e" "dict_get (bk_orders (mx_book e)) oid = Some o1" "q \<le> remaining o1" "0 < p" "p \<le> P"
    "view (mx_book e') = spec_modify oid (od_side o1) (od_price o1) (remaining o1) p q (view (mx_book e))" "mx_fills e' = mx_fills e"
  shows "bounded Q P e'"
proof (cases "p = od_price o1")
  case True
  have L: "ladder s (mx_book e') = take_from oid (remaining o1 - q) (ladder s (mx_book e))" for s
    using fun_cong [OF assms(7), of s] True by (simp add: view_def spec_modify_def)
  have "volume (ladder s (mx_book e')) \<le> volume (ladder s (mx_book e))" for s
    unfolding L by (rule volume_take_from) (use assms(4) in simp)
  from this [of BID] this [of ASK] show ?thesis using assms(2,8) by (auto simp: bounded_def L priced_def take_from_def)
next
  case False
  let ?s = "od_side o1" and ?c = "\<lambda>s. filter (\<lambda>(j, p, r). j \<noteq> oid) (ladder s (mx_book e))"
  have L: "ladder ?s (mx_book e') = spec_insert ?s oid p q (?c ?s)" "ladder (opposite ?s) (mx_book e') = ?c (opposite ?s)"
    using fun_cong [OF assms(7), of ?s] fun_cong [OF assms(7), of "opposite ?s"] False
    by (simp_all add: view_def spec_modify_def spec_cancel_def)
  have v: "volume (?c ?s) + remaining o1 \<le> volume (ladder ?s (mx_book e))" "volume (?c (opposite ?s)) \<le> volume (ladder (opposite ?s) (mx_book e))"
    by (rule volume_without [OF solid_ladder [OF assms(1)] order_in_ladder [OF assms(1,3)]], rule volume_filter [OF solid_ladder [OF assms(1)]])
  have c: "priced P (?c s)" if "priced P (ladder s (mx_book e))" for s using that by (auto simp: priced_def)
  show ?thesis using assms(2,4,5,6,8) v c unfolding bounded_iff [of _ _ _ ?s] L priced_insert volume_insert by auto
qed

section \<open>Runs\<close>

text \<open>What a command submits, and whether its price is at most \<open>P\<close>.\<close>

fun order_quantity :: "command \<Rightarrow> int" where
  "order_quantity (New_Command c oid side ty price qty dq) = max 0 qty"
| "order_quantity _ = 0"

fun price_upto :: "int \<Rightarrow> command \<Rightarrow> bool" where
  "price_upto P (New_Command c oid side ty price qty dq) \<longleftrightarrow> price \<le> P"
| "price_upto P (Cancel_Command c oid) \<longleftrightarrow> True"
| "price_upto P (Modify_Command c oid price qty) \<longleftrightarrow> price \<le> P"

definition submitted_quantity :: "command list \<Rightarrow> int" where
  "submitted_quantity cmds = (\<Sum>cmd\<leftarrow>cmds. order_quantity cmd)"

lemma submitted_simps [simp]:
  "submitted_quantity [] = 0" "submitted_quantity (cmd # cmds) = order_quantity cmd + submitted_quantity cmds"
  "submitted_quantity (cs @ ds) = submitted_quantity cs + submitted_quantity ds"
  by (simp_all add: submitted_quantity_def)

lemma bounded_send [simp]: "bounded Q P (send_update iter e) = bounded Q P e" "bounded Q P (emit ev e) = bounded Q P e"
  by (simp_all add: bounded_def send_update_def emit_def)

lemma bounded_step:
  assumes "iter_ok iter" "book_ok {} {} (mx_book e)" "bounded Q P e" "plain_command cmd" "price_upto P cmd"
    "process_client_command iter cmd e = Some e'"
  shows "bounded (Q + order_quantity cmd) P e'"
proof (cases cmd)
  case (New_Command c oid side ty price qty dq)
  then show ?thesis using bounded_limit [OF assms(1-3), of price oid side qty 0 dq] assms(4-6)
    by (auto split: option.split_asm)
next
  case (Cancel_Command c oid)
  obtain e1 where e1: "process_cancel iter oid e = (has_order oid e, e1)" "view (mx_book e1) = spec_cancel oid (view (mx_book e))"
    "mx_fills e1 = mx_fills e"
    using cancel_refines [OF assms(1,2), of oid] by (auto simp: filled_from_def)
  from bounded_cancel [OF assms(2,3) e1(2,3)] show ?thesis using Cancel_Command assms(6) e1(1) by (auto split: if_split_asm)
next
  case (Modify_Command c oid p q)
  show ?thesis
  proof (cases "case dict_get (bk_orders (mx_book e)) oid of None \<Rightarrow> True | Some o1 \<Rightarrow> q \<le> 0 \<or> remaining o1 < q")
    case True
    then show ?thesis using modify_rejected [OF True] assms(3,6) Modify_Command by auto
  next
    case False
    then obtain o1 where o1: "dict_get (bk_orders (mx_book e)) oid = Some o1" "0 < q" "q \<le> remaining o1"
      by (cases "dict_get (bk_orders (mx_book e)) oid") auto
    have p: "0 < p" "p \<le> P" using assms(4,5) Modify_Command by simp_all
    obtain e1 where e1: "process_modify iter oid p q e = (True, e1)"
      "view (mx_book e1) = spec_modify oid (od_side o1) (od_price o1) (remaining o1) p q (view (mx_book e))" "mx_fills e1 = mx_fills e"
      using modify_refines [OF assms(1,2) o1 p(1)] by (auto simp: filled_from_def)
    from bounded_modify [OF assms(2,3) o1(1,3) p e1(2,3)] show ?thesis using Modify_Command assms(6) e1(1) by auto
  qed
qed

lemma bounded_run:
  assumes "iter_ok iter" "list_all plain_command cmds" "list_all (price_upto P) cmds" "run_engine iter cmds e = Some e'"
    "book_ok {} {} (mx_book e)" "bounded Q P e"
  shows "book_ok {} {} (mx_book e') \<and> bounded (Q + submitted_quantity cmds) P e'"
  using assms(2-)
proof (induction cmds arbitrary: e Q)
  case (Cons cmd cmds)
  obtain e1 where e1: "process_client_command iter cmd e = Some e1" "run_engine iter cmds e1 = Some e'"
    using Cons.prems(3) by (auto split: option.split_asm)
  have "bounded (Q + order_quantity cmd) P e1" "book_ok {} {} (mx_book e1)"
    using bounded_step [OF assms(1) Cons.prems(4,5) _ _ e1(1)] plain_step [OF assms(1) Cons.prems(4) _ e1(1)] Cons.prems(1,2) by simp_all
  then show ?case using Cons.IH [OF _ _ e1(2), of "Q + order_quantity cmd"] Cons.prems(1,2) by (simp add: add.assoc)
qed simp

lemma bounded_init: "bounded 0 P engine_init"
proof -
  have "ladder s book_init = []" for s
    using ladder_Nil [OF book_init_ok, of s] by (cases s) (simp_all add: book_init_def)
  then show ?thesis by (simp add: bounded_def priced_def engine_init_def)
qed

section \<open>In the middle of matching\<close>

text \<open>The states of the engine from the insertion of a limit order, the last of the commands, to the end of the matching loop.\<close>

inductive matching_state :: "iteration \<Rightarrow> command list \<Rightarrow> int \<Rightarrow> engine \<Rightarrow> bool" for iter where
  inserted: "run_engine iter cmds engine_init = Some e \<Longrightarrow> 0 < qty \<Longrightarrow> 0 < price \<Longrightarrow>
     add_order oid side price qty 0 (mx_book e) = Some b \<Longrightarrow>
     matching_state iter (cmds @ [New_Command c oid side LIMIT price qty dq]) oid (e\<lparr>mx_total_orders := mx_total_orders e + 1, mx_book := b\<rparr>)"
| matched: "matching_state iter cmds oid e \<Longrightarrow> match_round iter oid e = Some e' \<Longrightarrow> matching_state iter cmds oid e'"

definition mid_ok :: "int \<Rightarrow> int \<Rightarrow> int \<Rightarrow> engine \<Rightarrow> bool" where
  "mid_ok Q P oid e \<longleftrightarrow> (\<exists>t. od_id t = oid \<and> od_type t = LIMIT \<and> matching {} t (mx_book e)) \<and> bounded Q P e \<and> fees_ok e"

lemma mid_round:
  assumes "iter_ok iter" "mid_ok Q P oid e" "match_round iter oid e = Some e'"
  shows "mid_ok Q P oid e'"
proof -
  obtain t where t: "od_id t = oid" "od_type t = LIMIT" "matching {} t (mx_book e)" and B: "bounded Q P e" and F: "fees_ok e"
    using assms(2) by (auto simp: mid_ok_def)
  let ?o = "opposite (od_side t)"
  have "0 < remaining t" using match_round_none [OF t(3), of iter] assms(3) t(1) by fastforce
  moreover obtain i p r ls where l: "ladder ?o (mx_book e) = (i, p, r) # ls" "\<not> out_of_reach t p"
    using match_round_none [OF t(3), of iter] assms(3) t(1) by (cases "ladder ?o (mx_book e)") fastforce+
  ultimately obtain e1 where e1: "match_round iter (od_id t) e = Some e1" "matching {} (grown (min (remaining t) r) t) (mx_book e1)"
    "ladder ?o (mx_book e1) = (if r \<le> remaining t then ls else (i, p, r - min (remaining t) r) # ls)"
    "ladder (od_side t) (mx_book e1) = take_from (od_id t) (min (remaining t) r) (ladder (od_side t) (mx_book e))"
    "mx_fills e1 = mx_fills e @ [fill_of (mx_fees e) (od_id t) (i, p, min (remaining t) r)]"
    using match_round_some [OF assms(1) t(3) _ _ refl l] t(2) by (metis order_type.distinct(3))
  have e': "e1 = e'" using e1(1) assms(3) t(1) by simp
  have b: "book_ok {od_id t} {} (mx_book e)" using t(3) by (simp add: matching_def)
  have q: "0 \<le> min (remaining t) r" using solid_ladder [OF b, of ?o] \<open>0 < remaining t\<close> l(1) by (simp add: solid_def)
  have "bounded Q P e1"
    using B volume_take_from [OF q, of oid "ladder (od_side t) (mx_book e)"] q unfolding bounded_iff [of _ _ _ "od_side t"]
    by (auto simp: e1(3-5) l(1) t(1) priced_def take_from_def)
  moreover have "\<exists>t. od_id t = oid \<and> od_type t = LIMIT \<and> matching {} t (mx_book e1)"
    using e1(2) t by (intro exI [of _ "grown (min (remaining t) r) t"]) simp
  ultimately show ?thesis using fees_ok_round [OF F assms(3)] by (simp add: mid_ok_def e')
qed

lemma mid_inserted:
  assumes "book_ok {} {} (mx_book e)" "bounded Q P e" "fees_ok e" "0 < qty" "0 < price" "price \<le> P"
    "add_order oid side price qty 0 (mx_book e) = Some b"
  shows "mid_ok (Q + qty) P oid (e\<lparr>mx_total_orders := n, mx_book := b\<rparr>)"
proof -
  define t where "t = limit_order oid side price qty 0"
  have t: "od_id t = oid" "od_side t = side" "od_price t = price" "remaining t = qty" "od_type t = LIMIT"
    by (simp_all add: t_def limit_order_def remaining_def)
  have a: "dict_get (bk_orders (mx_book e)) oid = None" "0 < bk_free (mx_book e)" "b = insert_order t t (mx_book e)"
    using assms(7) by (auto simp: add_order_def t_def Let_def split: if_split_asm)
  have m: "matching {} t b" unfolding a(3) t_def by (rule matching_insert [OF assms(1) a(1,2) assms(4,5)])
  have L: "ladder side b = spec_insert side oid price qty (ladder side (mx_book e))" "ladder (opposite side) b = ladder (opposite side) (mx_book e)"
    using insert_ladder [OF assms(1), of t] a(1) by (simp_all add: a(3) t spec_insert_def)
  have "bounded (Q + qty) P (e\<lparr>mx_total_orders := n, mx_book := b\<rparr>)"
    using assms(2,5,6) unfolding bounded_iff [of _ _ _ side] by (simp add: L volume_insert priced_insert)
  then show ?thesis using m t assms(3) by (auto simp: mid_ok_def fees_ok_def)
qed

lemma matching_state_ok:
  assumes "matching_state iter cmds oid e" "iter_ok iter" "list_all plain_command cmds" "list_all (price_upto P) cmds"
  shows "mid_ok (submitted_quantity cmds) P oid e"
  using assms
proof (induction rule: matching_state.induct)
  case (inserted cmds e qty price oid side b c dq)
  have e: "book_ok {} {} (mx_book e)" "bounded (submitted_quantity cmds) P e"
    using bounded_run [OF inserted(5) _ _ inserted(1) _ bounded_init, of P] inserted(6,7) book_init_ok by (simp_all add: engine_init_def)
  have "fees_ok e" by (rule fees_ok_run [OF inserted(1) fees_ok_init])
  from mid_inserted [OF e this inserted(2,3) _ inserted(4)] show ?case using inserted(2,7) by simp
next
  case (matched cmds oid e e')
  then show ?case using mid_round by blast
qed

section \<open>Ranges\<close>

definition fits32 :: "int \<Rightarrow> bool" where
  "fits32 n \<longleftrightarrow> - (2 ^ 31) \<le> n \<and> n < 2 ^ 31"

definition fits64 :: "int \<Rightarrow> bool" where
  "fits64 n \<longleftrightarrow> - (2 ^ 63) \<le> n \<and> n < 2 ^ 63"

text \<open>No level, order, fill or counter holds a number its type cannot, and no total is negative.\<close>

definition levels_fit :: "levels \<Rightarrow> bool" where
  "levels_fit d \<longleftrightarrow> list_all (\<lambda>(p, l). 0 \<le> lv_total l \<and> fits32 (lv_total l)) d"

definition engine_fits :: "engine \<Rightarrow> bool" where
  "engine_fits e \<longleftrightarrow> levels_fit (bk_bids (mx_book e)) \<and> levels_fit (bk_asks (mx_book e)) \<and>
     list_all (\<lambda>(i, o1). 0 \<le> remaining o1 \<and> fits32 (remaining o1)) (bk_orders (mx_book e)) \<and>
     list_all (\<lambda>f. fits32 (fe_quantity f) \<and> fits64 (fe_maker_fee f) \<and> fits64 (fe_taker_fee f)) (mx_fills e) \<and>
     0 \<le> mx_maker_rebates e \<and> fits64 (mx_maker_rebates e) \<and> 0 \<le> mx_taker_fees e \<and> fits64 (mx_taker_fees e)"

lemma fee_sum:
  assumes "\<forall>f \<in> set fs. 0 \<le> fe_quantity f \<and> 0 < fe_price f \<and> fe_price f \<le> P" "0 \<le> k"
  shows "0 \<le> (\<Sum>f\<leftarrow>fs. fe_price f * fe_quantity f * k) \<and> (\<Sum>f\<leftarrow>fs. fe_price f * fe_quantity f * k) \<le> P * (\<Sum>f\<leftarrow>fs. fe_quantity f) * k"
  using assms(1)
proof (induction fs)
  case (Cons f fs)
  have "0 \<le> fe_price f * fe_quantity f * k" "fe_price f * fe_quantity f * k \<le> P * fe_quantity f * k"
    using Cons.prems assms(2) by (auto intro!: mult_right_mono)
  then show ?case using Cons by (simp add: algebra_simps)
qed simp

lemma fee_terms:
  assumes "\<forall>f \<in> set fs. 0 \<le> fe_quantity f \<and> 0 < fe_price f \<and> fe_price f \<le> P" "f \<in> set fs" "0 \<le> (k::int)"
  shows "0 \<le> fe_price f * fe_quantity f * k" "fe_price f * fe_quantity f * k \<le> P * (\<Sum>f\<leftarrow>fs. fe_quantity f) * k"
    "fe_quantity f \<le> (\<Sum>f\<leftarrow>fs. fe_quantity f)"
proof -
  obtain xs ys where fs: "fs = xs @ f # ys" using split_list [OF assms(2)] by blast
  have "0 \<le> (\<Sum>f\<leftarrow>xs. fe_quantity f)" "0 \<le> (\<Sum>f\<leftarrow>ys. fe_quantity f)"
    using assms(1) by (auto simp: fs intro!: sum_list_nonneg)
  then show q: "fe_quantity f \<le> (\<Sum>f\<leftarrow>fs. fe_quantity f)" by (simp add: fs)
  have f: "0 \<le> fe_quantity f" "0 < fe_price f" "fe_price f \<le> P" using assms(1,2) by simp_all
  then show "0 \<le> fe_price f * fe_quantity f * k" using assms(3) by simp
  show "fe_price f * fe_quantity f * k \<le> P * (\<Sum>f\<leftarrow>fs. fe_quantity f) * k"
    using f q assms(3) by (intro mult_right_mono mult_mono) simp_all
qed

lemma bounded_fits:
  assumes "book_ok Z M (mx_book e)" "bounded Q P e" "fees_ok e" "Q < 2 ^ 31" "0 < P" "3 * P * Q < 2 ^ 63"
  shows "engine_fits e"
proof -
  let ?b = "mx_book e" and ?F = "fill_volume e"
  have B: "volume (ladder s ?b) + volume (ladder (opposite s) ?b) + ?F \<le> Q" for s
    using assms(2) unfolding bounded_iff [of _ _ _ s] by blast
  have fs: "\<forall>f \<in> set (mx_fills e). 0 \<le> fe_quantity f \<and> 0 < fe_price f \<and> fe_price f \<le> P"
    using assms(2) by (simp add: bounded_def)
  have F: "0 \<le> ?F" using fs by (auto intro!: sum_list_nonneg)
  have nn: "0 \<le> volume (ladder s ?b)" for s by (rule volume_nonneg [OF solid_ladder [OF assms(1)]])
  have V: "volume (ladder s ?b) \<le> Q" "?F \<le> Q" for s using B [of s] F nn [of s] nn [of "opposite s"] by linarith+
  have lev: "levels_fit (levels_of s ?b)" for s
    using level_total_le [OF assms(1), of s] dict_get_iff [OF book_okD(2) [OF assms(1)], of s] V(1) [of s] assms(4)
    by (fastforce simp: levels_fit_def list_all_iff fits32_def)
  have ord: "0 \<le> remaining o1 \<and> fits32 (remaining o1)" if "(i, o1) \<in> set (bk_orders ?b)" for i o1
  proof -
    have g: "dict_get (bk_orders ?b) i = Some o1" using that by (simp add: dict_get_iff [OF book_okD(3) [OF assms(1)]])
    have r: "0 \<le> remaining o1" using book_okD(6) [OF assms(1) g] by (simp add: order_ok_def)
    have "remaining o1 \<le> volume (ladder (od_side o1) ?b)"
      using volume_without [OF solid_ladder [OF assms(1)] order_in_ladder [OF assms(1) g]]
        volume_nonneg [OF solid_filter [OF solid_ladder [OF assms(1)]]] by (smt (verit))
    then show ?thesis using r V(1) [of "od_side o1"] assms(4) by (simp add: fits32_def)
  qed
  have k: "P * ?F * k < 2 ^ 63" if "0 \<le> k" "k \<le> 3" for k
  proof -
    have "P * ?F * k \<le> P * Q * 3" using that V(2) F assms(5) by (intro mult_mono) simp_all
    then show ?thesis using assms(6) by (simp add: mult_ac)
  qed
  have fees: "fe_maker_fee f = - (fe_price f * fe_quantity f * 2)" "fe_taker_fee f = fe_price f * fe_quantity f * 3" if "f \<in> set (mx_fills e)" for f
    using assms(3) that by (simp_all add: fees_ok_def maker_rebate_def taker_fee_def default_fees_def)
  have "fits32 (fe_quantity f) \<and> fits64 (fe_maker_fee f) \<and> fits64 (fe_taker_fee f)" if f: "f \<in> set (mx_fills e)" for f
    using fee_terms [OF fs f, of 2] fee_terms [OF fs f, of 3] fs f fees [OF f] k [of 2] k [of 3] V(2) assms(4)
    by (auto simp: fits32_def fits64_def)
  moreover have "mx_maker_rebates e = (\<Sum>f\<leftarrow>mx_fills e. fe_price f * fe_quantity f * 2)" "mx_taker_fees e = (\<Sum>f\<leftarrow>mx_fills e. fe_price f * fe_quantity f * 3)"
    using assms(3) fees by (auto simp: fees_ok_def intro!: arg_cong [where f = sum_list])
  then have "0 \<le> mx_maker_rebates e \<and> fits64 (mx_maker_rebates e) \<and> 0 \<le> mx_taker_fees e \<and> fits64 (mx_taker_fees e)"
    using fee_sum [OF fs, of 2] fee_sum [OF fs, of 3] k [of 2] k [of 3] by (simp add: fits64_def)
  ultimately show ?thesis using lev [of BID] lev [of ASK] ord by (auto simp: engine_fits_def list_all_iff)
qed

text \<open>
  C19. The engine's integers do not overflow while the quantities of all orders ever submitted add up to less than
  \<open>2 ^ 31\<close> and three times that sum times the highest price is below \<open>2 ^ 63\<close>. After any limit
  orders, cancellations and modifications within these limits, and after every round of the matching loop of the last
  order, each level's total, each order's remaining quantity and each fill's quantity fits the 32 bits of a
  \<open>Quantity\<close>, each fill's fees and the two running totals fit the 64 bits of a \<open>Fee\<close>, and no total is negative.
\<close>

theorem engine_numbers_fit:
  assumes "iter_ok iter" "list_all plain_command cmds" "list_all (price_upto P) cmds" "0 < P"
    "submitted_quantity cmds < 2 ^ 31" "3 * P * submitted_quantity cmds < 2 ^ 63"
    "run_engine iter cmds engine_init = Some e \<or> matching_state iter cmds oid e"
  shows "engine_fits e"
  using assms(7)
proof
  assume run: "run_engine iter cmds engine_init = Some e"
  have "book_ok {} {} (mx_book e)" "bounded (submitted_quantity cmds) P e"
    using bounded_run [OF assms(1-3) run _ bounded_init] book_init_ok by (simp_all add: engine_init_def)
  then show ?thesis using fees_ok_run [OF run fees_ok_init] assms(5,4,6) by (rule bounded_fits)
next
  assume "matching_state iter cmds oid e"
  from matching_state_ok [OF this assms(1-3)]
  have "\<exists>t. matching {} t (mx_book e)" "bounded (submitted_quantity cmds) P e" "fees_ok e" by (auto simp: mid_ok_def)
  then show ?thesis using bounded_fits assms(4-6) by (auto simp: matching_def)
qed

text \<open>
  Nothing in the code keeps orders within these limits: two orders at one price, each of which the server lets
  through, can add up to a total that the level's \<open>Quantity\<close> cannot hold.
\<close>

lemma level_total_of_two:
  assumes "0 < p" "0 < q1" "0 < q2"
  shows "\<exists>e. run_engine iter [New_Command c 1 BID LIMIT p q1 0, New_Command c 2 BID LIMIT p q2 0] engine_init = Some e \<and>
    map (\<lambda>(p, l). lv_total l) (bk_bids (mx_book e)) = [q1 + q2]"
  using assms
  by (simp add: process_new_order_def process_resting_def add_order_def insert_order_def limit_order_def improve_best_def level_at_def
      engine_init_def book_init_def crosses_def send_update_def emit_def dict_get_def lv_push_back_def level_init_def MAX_ORDERS_def Let_def remaining_def)

lemma two_orders_overflow:
  assumes "0 < p" "0 < q1" "0 < q2" "fits32 q1" "fits32 q2" "2 ^ 31 \<le> q1 + q2"
  shows "\<exists>e. run_engine iter [New_Command c 1 BID LIMIT p q1 0, New_Command c 2 BID LIMIT p q2 0] engine_init = Some e \<and> \<not> engine_fits e"
  using level_total_of_two [OF assms(1-3), of iter c] assms(6)
  by (force simp: engine_fits_def levels_fit_def fits32_def list_all_iff)

theorem engine_numbers_fit_witness:
  "\<exists>e. run_engine (\<lambda>d. d) [New_Command 0 1 BID LIMIT 100 5 0, New_Command 0 2 ASK LIMIT 99 3 0, Cancel_Command 0 1]
      engine_init = Some e \<and> engine_fits e"
proof -
  let ?cmds = "[New_Command 0 1 BID LIMIT 100 5 0, New_Command 0 2 ASK LIMIT 99 3 0, Cancel_Command 0 1]"
  obtain e where e: "run_engine (\<lambda>d. d) ?cmds engine_init = Some e"
    using run_engine_total [of engine_init "\<lambda>d. d" ?cmds] safe_init by (auto simp: engine_init_def)
  have "engine_fits e"
    by (rule engine_numbers_fit [of "\<lambda>d. d" ?cmds 100]) (use e in \<open>simp_all add: iter_ok_def del: run_engine.simps\<close>)
  then show ?thesis using e by blast
qed

end
