(* ===== verification/Engine_Process.thy ===== *)
theory Engine_Process
  imports Tcp_Server Engine_Threads
begin

text \<open>
  The engine's process, \<open>engine/main.cpp\<close>: its command line, its start, and its main loop, in which the
  server of \<open>Tcp_Server\<close> and the engine of \<open>Engine_Runs\<close> exchange commands and events over two queues.
  Here a turn of the server and a push or pop of the engine's thread are single steps;
  \<open>Engine_Threads\<close> takes those apart into memory accesses.
\<close>

section \<open>The command line\<close>

definition blank :: "char \<Rightarrow> bool" where
  "blank c \<longleftrightarrow> c \<in> {CHR '' '', CHR 0x09, CHR 0x0A, CHR 0x0B, CHR 0x0C, CHR 0x0D}"

definition digit :: "char \<Rightarrow> bool" where
  "digit c \<longleftrightarrow> 48 \<le> (of_char c :: int) \<and> (of_char c :: int) \<le> 57"

definition digits_int :: "string \<Rightarrow> int" where
  "digits_int ds = fold (\<lambda>c n. 10 * n + (of_char c - 48)) ds 0"

text \<open>\<open>std::atoi\<close>; the value of a number outside the range of \<open>int\<close> is undefined.\<close>

definition atoi :: "string \<Rightarrow> int option" where
  "atoi str =
     (let cs = dropWhile blank str;
          n = (case cs of
                 [] \<Rightarrow> 0
               | c # ds \<Rightarrow> if c = CHR ''-'' then - digits_int (takeWhile digit ds)
                           else if c = CHR ''+'' then digits_int (takeWhile digit ds)
                           else digits_int (takeWhile digit cs))
      in if - (2 ^ 31) \<le> n \<and> n < 2 ^ 31 then Some n else None)"

text \<open>What the arguments ask for: an immediate return with an exit code, or a server on a port.\<close>

datatype startup = Show_Version | Show_Help | Port_Out_Of_Range | Undefined_Port | Serve_On int

fun parse_args :: "string list \<Rightarrow> int \<Rightarrow> startup" where
  "parse_args [] tcp_port = Serve_On tcp_port"
| "parse_args (arg # args) tcp_port =
     (if arg = ''--version'' then Show_Version
      else if arg = ''--help'' then Show_Help
      else if arg = ''--port'' \<and> args \<noteq> []
      then (case atoi (hd args) of
              None \<Rightarrow> Undefined_Port
            | Some p \<Rightarrow> if p < 1024 \<or> 65535 < p then Port_Out_Of_Range else parse_args (tl args) p)
      else parse_args args tcp_port)"

definition DEFAULT_PORT :: int where
  "DEFAULT_PORT = 9876"

section \<open>The process\<close>

text \<open>
  \<open>pr_looping\<close> is whether the main loop goes on, \<open>pr_alive\<close> whether the engine's thread runs, and
  \<open>pr_pending\<close> what that thread has produced and not yet pushed. \<open>pr_asked\<close> and \<open>pr_sent\<close> record the
  commands the server has tried to queue and the bytes each connection's socket has taken.
\<close>

record process =
  pr_server :: tcp_server
  pr_engine :: engine
  pr_pending :: "engine_event list"
  pr_looping :: bool
  pr_alive :: bool
  pr_asked :: "command list"
  pr_sent :: "nat \<Rightarrow> bytes"

definition tcp_server_init :: "command \<Rightarrow> engine_event \<Rightarrow> tcp_server" where
  "tcp_server_init c ev = \<lparr>sv_running = False, sv_listen = INVALID_SOCK, sv_clients = [],
     sv_in = spsc_init QUEUE_CAPACITY c, sv_out = spsc_init QUEUE_CAPACITY ev\<rparr>"

text \<open>\<open>main\<close> up to its loop: an exit code, or the running process; undefined for an undefined port.\<close>

definition engine_main :: "string list \<Rightarrow> (int \<Rightarrow> bool) \<Rightarrow> int \<Rightarrow> bool \<Rightarrow> command \<Rightarrow> engine_event \<Rightarrow> (int + process) option" where
  "engine_main args bound fd listening c ev =
     (case parse_args args DEFAULT_PORT of
        Show_Version \<Rightarrow> Some (Inl 0)
      | Show_Help \<Rightarrow> Some (Inl 0)
      | Port_Out_Of_Range \<Rightarrow> Some (Inl 1)
      | Undefined_Port \<Rightarrow> None
      | Serve_On tcp_port \<Rightarrow>
          (case server_start fd (bound tcp_port) listening (tcp_server_init c ev) of
             (False, s) \<Rightarrow> Some (Inl 1)
           | (True, s) \<Rightarrow> Some (Inr \<lparr>pr_server = s, pr_engine = engine_init, pr_pending = [], pr_looping = True,
               pr_alive = True, pr_asked = [], pr_sent = (\<lambda>i. [])\<rparr>)))"

text \<open>The process when its clients have just connected.\<close>

definition connected_to :: "int list \<Rightarrow> process \<Rightarrow> process" where
  "connected_to socks p = p\<lparr>pr_server := (pr_server p)\<lparr>sv_clients := map (\<lambda>f. \<lparr>cc_sock = f, cc_recv = [], cc_send = []\<rparr>) socks\<rparr>\<rparr>"

text \<open>What a turn writes to the socket of connection \<open>i\<close>.\<close>

definition written :: "turn \<Rightarrow> tcp_server \<Rightarrow> nat \<Rightarrow> bytes" where
  "written t s i =
     (if i < length (sv_clients s) \<and> re_out (tu_events t (cc_sock (sv_clients s ! i))) \<and> 0 < tu_sent t (cc_sock (sv_clients s ! i))
      then take (nat (tu_sent t (cc_sock (sv_clients s ! i))))
        (cc_send (sv_clients s ! i) @ answers (conn_dispatches t i (sv_clients s ! i)))
      else [])"

text \<open>
  The steps: a turn of the main loop that finds something to do, one that finds nothing or fails, the
  engine's thread taking a command and handing over an event, a signal, and what follows the loop,
  where \<open>engine.stop\<close> joins the engine's thread and \<open>server.stop\<close> closes the connections. The server looks at
  the engine's book while the engine's thread may be changing it, so a turn may see any engine.
\<close>

inductive process_step :: "iteration \<Rightarrow> process \<Rightarrow> process \<Rightarrow> bool" for iter where
  busy_turn: "pr_looping p \<Longrightarrow> quiet_turn t (pr_server p) \<Longrightarrow> tcp_poll t (pr_server p) = Inr (b, s) \<Longrightarrow>
     process_step iter p (p\<lparr>pr_server := s, pr_looping := b, pr_asked := pr_asked p @ turn_commands t (pr_server p),
       pr_sent := (\<lambda>i. pr_sent p i @ written t (pr_server p) i)\<rparr>)"
| idle_turn: "pr_looping p \<Longrightarrow> tu_result t \<le> 0 \<Longrightarrow> tcp_poll t (pr_server p) = Inr (b, s) \<Longrightarrow>
     process_step iter p (p\<lparr>pr_server := s, pr_looping := b\<rparr>)"
| engine_takes: "pr_alive p \<Longrightarrow> pr_pending p = [] \<Longrightarrow> spsc_pop (sv_in (pr_server p)) = (Some cmd, q) \<Longrightarrow>
     process_client_command iter cmd (pr_engine p) = Some e \<Longrightarrow>
     process_step iter p (p\<lparr>pr_server := (pr_server p)\<lparr>sv_in := q\<rparr>, pr_engine := e, pr_pending := new_events (pr_engine p) e\<rparr>)"
| engine_emits: "pr_alive p \<Longrightarrow> pr_pending p = ev # evs \<Longrightarrow> spsc_push ev (sv_out (pr_server p)) = (True, q) \<Longrightarrow>
     process_step iter p (p\<lparr>pr_server := (pr_server p)\<lparr>sv_out := q\<rparr>, pr_pending := evs\<rparr>)"
| signalled: "process_step iter p (p\<lparr>pr_looping := False\<rparr>)"
| shut_down: "\<not> pr_looping p \<Longrightarrow> process_step iter p (p\<lparr>pr_alive := False, pr_server := server_stop (pr_server p)\<rparr>)"

inductive process_run :: "iteration \<Rightarrow> process \<Rightarrow> process \<Rightarrow> bool" for iter where
  process_begin: "process_run iter p p"
| process_next: "process_run iter p p' \<Longrightarrow> process_step iter p' p'' \<Longrightarrow> process_run iter p p''"

section \<open>What is known of a stream\<close>

lemma shuffles_append:
  "a \<in> shuffles xs ys \<Longrightarrow> b \<in> shuffles us vs \<Longrightarrow> a @ b \<in> shuffles (xs @ us) (ys @ vs)"
proof (induction a arbitrary: xs ys)
  case (Cons z a)
  then show ?case by (auto simp: Cons_in_shuffles_iff)
qed simp

text \<open>Messages of the engine's events for connection \<open>i\<close>, and the server's own rejections between them.\<close>

definition mixture :: "nat \<Rightarrow> engine_event list \<Rightarrow> engine_msg list \<Rightarrow> bool" where
  "mixture i evs ms \<longleftrightarrow> (\<exists>rejections. ms \<in> shuffles (concat (map (event_messages i) evs)) (map Engine_Reject rejections))"

lemma mixture_events: "mixture i evs ms \<Longrightarrow> mixture i (evs @ evs') (ms @ concat (map (event_messages i) evs'))"
  unfolding mixture_def using shuffles_append [of ms _ _ "concat (map (event_messages i) evs')" _ "[]"] by fastforce

lemma dispatch_messages_rejects: "\<exists>rs. concat (map dispatch_messages ds) = map Engine_Reject rs"
proof (induction ds)
  case (Cons d ds)
  then obtain rs where rs: "concat (map dispatch_messages ds) = map Engine_Reject rs" by blast
  obtain r where "dispatch_messages d = map Engine_Reject r" by (cases d) (auto simp: map_eq_Cons_conv intro: that [of "[_]"] that [of "[]"])
  then show ?case using rs by (intro exI [of _ "r @ rs"]) simp
qed simp

lemma mixture_answers: "mixture i evs ms \<Longrightarrow> mixture i evs (ms @ concat (map dispatch_messages ds))"
proof -
  assume "mixture i evs ms"
  moreover obtain rs where "concat (map dispatch_messages ds) = map Engine_Reject rs" using dispatch_messages_rejects by blast
  ultimately show ?thesis unfolding mixture_def
    using shuffles_append [of ms _ _ "map Engine_Reject rs" "[]" "map Engine_Reject rs"] by (fastforce simp flip: map_append)
qed

lemma mixture_init: "mixture i [] []"
  by (auto simp: mixture_def intro: exI [of _ "[]"])

lemma written_served:
  "i < length (sv_clients s) \<Longrightarrow> written t s i @ cc_send (served t i (sv_clients s ! i)) =
     cc_send (sv_clients s ! i) @ answers (conn_dispatches t i (sv_clients s ! i))"
  by (simp add: written_def served_def Let_def del: take_append drop_append)

section \<open>What the process keeps\<close>

text \<open>
  The input queue has accepted \<open>vs\<close>, of which the engine has processed the first \<open>j\<close>; the engine has
  handed over \<open>ws\<close>, of which the server has passed on the first \<open>k\<close>.
\<close>

definition sent_ok :: "process \<Rightarrow> engine_event list \<Rightarrow> nat \<Rightarrow> bool" where
  "sent_ok p evs i \<longleftrightarrow> (\<exists>ms rest. mixture i evs ms \<and> pr_sent p i @ rest = message_bytes ms \<and>
     (i < length (sv_clients (pr_server p)) \<longrightarrow> rest = cc_send (sv_clients (pr_server p) ! i)))"

definition process_ok :: "iteration \<Rightarrow> command list \<Rightarrow> nat \<Rightarrow> engine_event list \<Rightarrow> nat \<Rightarrow> process \<Rightarrow> bool" where
  "process_ok iter vs j ws k p \<longleftrightarrow>
     queue_ok (QUEUE_CAPACITY + 1) vs j (sv_in (pr_server p)) \<and> queue_ok (QUEUE_CAPACITY + 1) ws k (sv_out (pr_server p)) \<and>
     subseq vs (pr_asked p) \<and> run_engine iter (take j vs) engine_init = Some (pr_engine p) \<and> safe (mx_book (pr_engine p)) \<and>
     ws @ pr_pending p = mx_out (pr_engine p) \<and> length (pr_pending p) \<le> 1 \<and> (\<forall>i. sent_ok p (take k ws) i)"

lemma served_turn:
  assumes "quiet_turn t s" "queue_ok (n + 1) vs j (sv_in s)" "queue_ok (n + 1) ws k (sv_out s)" "tcp_poll t s = Inr (b, s')"
  shows "\<exists>ys. subseq ys (turn_commands t s) \<and> queue_ok (n + 1) (vs @ ys) j (sv_in s') \<and>
    queue_ok (n + 1) ws (k + length (take 100 (drop k ws))) (sv_out s') \<and> length (sv_clients s') = length (sv_clients s) \<and>
    (\<forall>i<length (sv_clients s). sv_clients s' ! i =
      queue_bytes (message_bytes (concat (map (event_messages i) (take 100 (drop k ws))))) (served t i (sv_clients s ! i)))"
  using quiet_turn_effect [OF assms(1,3)] spsc.push_some [OF assms(2), of "turn_commands t s"] assms(4)
  by (auto simp: push_commands_def)

lemma busy_turn_sent:
  assumes "sent_ok p evs i" "length (sv_clients s) = length (sv_clients (pr_server p))"
    "\<forall>i<length (sv_clients (pr_server p)). sv_clients s ! i =
      queue_bytes (message_bytes (concat (map (event_messages i) evs'))) (served t i (sv_clients (pr_server p) ! i))"
  shows "sent_ok (p\<lparr>pr_server := s, pr_looping := b, pr_asked := cs, pr_sent := (\<lambda>i. pr_sent p i @ written t (pr_server p) i)\<rparr>) (evs @ evs') i"
proof -
  let ?c = "sv_clients (pr_server p) ! i" and ?new = "concat (map (event_messages i) evs')"
  obtain ms rest where ms: "mixture i evs ms" "pr_sent p i @ rest = message_bytes ms"
    "i < length (sv_clients (pr_server p)) \<longrightarrow> rest = cc_send ?c" using assms(1) by (auto simp: sent_ok_def)
  show ?thesis
  proof (cases "i < length (sv_clients (pr_server p))")
    case True
    let ?ds = "concat (map dispatch_messages (conn_dispatches t i ?c))"
    have "mixture i (evs @ evs') ((ms @ ?ds) @ ?new)" by (intro mixture_events mixture_answers ms)
    moreover have "(pr_sent p i @ written t (pr_server p) i) @ cc_send (served t i ?c) = message_bytes (ms @ ?ds)"
      using written_served [OF True, of t] ms(2) [symmetric] ms(3) True by (simp add: answers_def)
    ultimately show ?thesis using assms(2,3) True
      by (auto simp: sent_ok_def queue_bytes_def intro!: exI [of _ "(ms @ ?ds) @ ?new"])
  next
    case False
    then have "written t (pr_server p) i = []" by (simp add: written_def)
    then show ?thesis using mixture_events [OF ms(1), of evs'] ms(2) False assms(2)
      by (auto simp: sent_ok_def intro!: exI [of _ "ms @ ?new"] exI [of _ "rest @ message_bytes ?new"])
  qed
qed

lemma sent_ok_same:
  "sent_ok p evs i \<Longrightarrow> pr_sent p' i = pr_sent p i \<Longrightarrow>
     sv_clients (pr_server p') = sv_clients (pr_server p) \<or> sv_clients (pr_server p') = [] \<Longrightarrow> sent_ok p' evs i"
  unfolding sent_ok_def by (elim exE conjE) (intro exI conjI, assumption, auto)

lemma idle_poll: "tu_result t \<le> 0 \<Longrightarrow> tcp_poll t s = Inr (b, s') \<Longrightarrow> s' = s"
  by (auto simp: tcp_poll_def split: if_split_asm)

lemma turn_keeps:
  assumes "process_ok iter vs j ws k p" "quiet_turn t (pr_server p)" "tcp_poll t (pr_server p) = Inr (b, s)"
  shows "\<exists>ys. subseq ys (turn_commands t (pr_server p)) \<and> process_ok iter (vs @ ys) j ws (k + length (take 100 (drop k ws)))
    (p\<lparr>pr_server := s, pr_looping := b, pr_asked := pr_asked p @ turn_commands t (pr_server p),
       pr_sent := (\<lambda>i. pr_sent p i @ written t (pr_server p) i)\<rparr>)"
proof -
  let ?new = "take 100 (drop k ws)"
  have q: "queue_ok (QUEUE_CAPACITY + 1) vs j (sv_in (pr_server p))" "queue_ok (QUEUE_CAPACITY + 1) ws k (sv_out (pr_server p))"
    using assms(1) by (simp_all add: process_ok_def)
  obtain ys where T: "subseq ys (turn_commands t (pr_server p))" "queue_ok (QUEUE_CAPACITY + 1) (vs @ ys) j (sv_in s)"
    "queue_ok (QUEUE_CAPACITY + 1) ws (k + length ?new) (sv_out s)" "length (sv_clients s) = length (sv_clients (pr_server p))"
    "\<forall>i<length (sv_clients (pr_server p)). sv_clients s ! i =
      queue_bytes (message_bytes (concat (map (event_messages i) ?new))) (served t i (sv_clients (pr_server p) ! i))"
    using served_turn [OF assms(2) q assms(3)] by blast
  have j: "take j (vs @ ys) = take j vs" using queue_okD(7) [OF q(1)] by simp
  have k: "take (k + length ?new) ws = take k ws @ ?new" by (simp add: take_add min_def)
  have "process_ok iter (vs @ ys) j ws (k + length ?new)
    (p\<lparr>pr_server := s, pr_looping := b, pr_asked := pr_asked p @ turn_commands t (pr_server p),
       pr_sent := (\<lambda>i. pr_sent p i @ written t (pr_server p) i)\<rparr>)"
    unfolding process_ok_def j k using T assms(1) busy_turn_sent [OF _ T(4,5)]
    by (auto simp: process_ok_def list_emb_append_mono)
  then show ?thesis using T(1) by blast
qed

lemma take_keeps:
  assumes "process_ok iter vs j ws k p" "pr_pending p = []" "spsc_pop (sv_in (pr_server p)) = (Some cmd, q)"
    "process_client_command iter cmd (pr_engine p) = Some e"
  shows "process_ok iter vs (j + 1) ws k
    (p\<lparr>pr_server := (pr_server p)\<lparr>sv_in := q\<rparr>, pr_engine := e, pr_pending := new_events (pr_engine p) e\<rparr>)"
proof -
  have Q: "queue_ok (QUEUE_CAPACITY + 1) vs j (sv_in (pr_server p))" "safe (mx_book (pr_engine p))"
    using assms(1) by (simp_all add: process_ok_def)
  have j: "j < length vs" using spsc_pop_ok(2) [OF Q(1)] assms(3) by (cases "j < length vs") auto
  then have c: "cmd = vs ! j" "queue_ok (QUEUE_CAPACITY + 1) vs (j + 1) q" using spsc_pop_ok(1) [OF Q(1) j] assms(3) by auto
  obtain ev where e: "safe (mx_book e)" "mx_out e = mx_out (pr_engine p) @ [ev]"
    using command_total [OF Q(2), of iter cmd] assms(4) by auto
  show ?thesis using assms c e j
    by (auto simp: process_ok_def take_Suc_conv_app_nth run_engine_snoc new_events_def intro: sent_ok_same)
qed

lemma emit_keeps:
  assumes "process_ok iter vs j ws k p" "pr_pending p = ev # evs" "spsc_push ev (sv_out (pr_server p)) = (True, q)"
  shows "process_ok iter vs j (ws @ [ev]) k (p\<lparr>pr_server := (pr_server p)\<lparr>sv_out := q\<rparr>, pr_pending := evs\<rparr>)"
proof -
  have Q: "queue_ok (QUEUE_CAPACITY + 1) ws k (sv_out (pr_server p))" using assms(1) by (simp add: process_ok_def)
  have "queue_ok (QUEUE_CAPACITY + 1) (ws @ [ev]) k q" using spsc_push_ok [OF Q, of ev] assms(3) by simp
  then show ?thesis using assms(1,2) queue_okD(7) [OF Q] by (auto simp: process_ok_def intro: sent_ok_same)
qed

lemma process_ok_same:
  assumes "process_ok iter vs j ws k p" "pr_server p' = pr_server p \<or> pr_server p' = server_stop (pr_server p)"
    "pr_engine p' = pr_engine p" "pr_pending p' = pr_pending p" "pr_asked p' = pr_asked p" "pr_sent p' = pr_sent p"
  shows "process_ok iter vs j ws k p'"
  using assms(1) assms(2)
  by (auto simp: process_ok_def server_stop_def assms(3-6) intro: sent_ok_same)

lemma process_step_ok:
  assumes "process_ok iter vs j ws k p" "process_step iter p p'"
  shows "\<exists>vs j ws k. process_ok iter vs j ws k p'"
  using assms(2)
proof (cases rule: process_step.cases)
  case (busy_turn t b s)
  then show ?thesis using turn_keeps [OF assms(1) busy_turn(3,4)] by blast
next
  case (idle_turn t b s)
  then have "s = pr_server p" using idle_poll by blast
  then show ?thesis using process_ok_same [OF assms(1), of p'] idle_turn(1) by auto
next
  case (engine_takes cmd q e)
  then show ?thesis using take_keeps [OF assms(1) engine_takes(3-5)] by blast
next
  case (engine_emits ev evs q)
  then show ?thesis using emit_keeps [OF assms(1) engine_emits(3,4)] by blast
next
  case signalled
  then show ?thesis using process_ok_same [OF assms(1), of p'] by auto
next
  case shut_down
  then show ?thesis using process_ok_same [OF assms(1), of p'] by auto
qed

lemma engine_main_starts:
  assumes "engine_main args bound fd listening c ev = Some (Inr p)"
  shows "process_ok iter [] 0 [] 0 (connected_to socks p)"
proof -
  have p: "sv_in (pr_server p) = spsc_init QUEUE_CAPACITY c" "sv_out (pr_server p) = spsc_init QUEUE_CAPACITY ev"
    "pr_engine p = engine_init" "pr_pending p = []" "pr_asked p = []" "pr_sent p = (\<lambda>i. [])"
    using assms by (auto simp: engine_main_def server_start_def tcp_server_init_def split: startup.split_asm if_split_asm)
  have "sent_ok (connected_to socks p) [] i" for i
    using mixture_init [of i] p(6) by (auto simp: sent_ok_def connected_to_def intro!: exI [of _ "[]"])
  then show ?thesis using p queue_init_ok [of QUEUE_CAPACITY c] queue_init_ok [of QUEUE_CAPACITY ev] safe_init
    by (auto simp: process_ok_def connected_to_def engine_init_def)
qed

lemma process_run_ok:
  assumes "process_run iter p p'" "process_ok iter vs j ws k p"
  shows "\<exists>vs j ws k. process_ok iter vs j ws k p'"
  using assms
proof (induction rule: process_run.induct)
  case (process_next p p' p'')
  then show ?case using process_step_ok by blast
qed blast

section \<open>Theorems\<close>

text \<open>Whatever the arguments, the server is started on a port of the range the usage message names.\<close>

lemma parse_args_port:
  "parse_args args n = Serve_On m \<Longrightarrow> 1024 \<le> n \<and> n \<le> 65535 \<Longrightarrow> 1024 \<le> m \<and> m \<le> 65535"
proof (induction args n rule: parse_args.induct)
  case (2 arg args n)
  then show ?case by (auto split: if_split_asm option.split_asm)
qed simp

lemma engine_main_port:
  assumes "engine_main args bound fd listening c ev = Some (Inr p)"
  shows "\<exists>m. 1024 \<le> m \<and> m \<le> 65535 \<and> parse_args args DEFAULT_PORT = Serve_On m \<and> bound m"
  using assms parse_args_port [of args DEFAULT_PORT]
  by (auto simp: engine_main_def server_start_def DEFAULT_PORT_def split: startup.split_asm if_split_asm prod.split_asm)

text \<open>
  C29. The engine's process as a whole, from the command line to the sockets. Whatever its arguments, a process
  that starts serves on a port from 1024 to 65535. While its connections last, however the turns of the
  server, the engine's thread and the termination signal interleave, and whatever the sockets
  deliver and take: the commands the engine has processed and the at most 8192 waiting ones are, in
  order, commands the server read, of which it drops those the queue has no room for; the engine's state is
  the serial engine's; and each connection has been sent, up to what is still in its send buffer, exactly the messages of the
  first events of the engine, in order, with the server's own rejections between them, at most 8193 events being still on their way.
\<close>

theorem process_streams:
  assumes "engine_main args bound fd listening c ev = Some (Inr p0)" "process_run iter (connected_to socks p0) p"
  shows "\<exists>m cmds waiting evs undelivered. 1024 \<le> m \<and> m \<le> 65535 \<and> parse_args args DEFAULT_PORT = Serve_On m \<and> bound m \<and>
    run_engine iter cmds engine_init = Some (pr_engine p) \<and>
    subseq (cmds @ waiting) (pr_asked p) \<and> length waiting \<le> QUEUE_CAPACITY \<and>
    mx_out (pr_engine p) = evs @ undelivered \<and> length undelivered \<le> QUEUE_CAPACITY + 1 \<and>
    (\<forall>i. \<exists>ms rest. mixture i evs ms \<and> pr_sent p i @ rest = message_bytes ms \<and>
      (i < length (sv_clients (pr_server p)) \<longrightarrow> rest = cc_send (sv_clients (pr_server p) ! i)))"
proof -
  obtain vs j ws k where P: "process_ok iter vs j ws k p"
    using process_run_ok [OF assms(2) engine_main_starts [OF assms(1)]] by blast
  have w: "subseq (take j vs @ drop j vs) (pr_asked p)" "length (drop j vs) \<le> QUEUE_CAPACITY"
    using P by (auto simp: process_ok_def queue_ok_def)
  have u: "mx_out (pr_engine p) = take k ws @ (drop k ws @ pr_pending p)" "length (drop k ws @ pr_pending p) \<le> QUEUE_CAPACITY + 1"
    using P by (auto simp: process_ok_def queue_ok_def simp flip: append_assoc)
  have "run_engine iter (take j vs) engine_init = Some (pr_engine p)" "\<forall>i. sent_ok p (take k ws) i"
    using P by (simp_all add: process_ok_def)
  then show ?thesis using engine_main_port [OF assms(1)] w u unfolding sent_ok_def by blast
qed

text \<open>A process with one client that cancels an unknown order.\<close>

definition demo_process :: process where
  "demo_process = \<lparr>pr_server = (snd (server_start 3 True True (tcp_server_init (Cancel_Command 0 0) (Reject_Event 0 0 ORDER_NOT_FOUND)))),
     pr_engine = engine_init, pr_pending = [], pr_looping = True, pr_alive = True, pr_asked = [], pr_sent = (\<lambda>i. [])\<rparr>"

lemma demo_main: "engine_main [''--port'', ''9000''] (\<lambda>_. True) 3 True (Cancel_Command 0 0) (Reject_Event 0 0 ORDER_NOT_FOUND) = Some (Inr demo_process)"
  by (simp add: engine_main_def demo_process_def server_start_def INVALID_SOCK_def atoi_def digits_int_def digit_def blank_def of_char_def)

lemma demo_process_quiet:
  "quiet_turn (demo_turn cancel_frame) (pr_server (connected_to [5] demo_process))"
  "turn_commands (demo_turn cancel_frame) (pr_server (connected_to [5] demo_process)) = [Cancel_Command 0 9]"
  using demo_quiet demo_dispatches
  by (simp_all add: quiet_turn_def turn_commands_def conn_commands_def demo_server_def connected_to_def demo_process_def server_start_def tcp_server_init_def INVALID_SOCK_def)

lemma demo_process_run:
  "\<exists>p. process_run (\<lambda>d. d) (connected_to [5] demo_process) p \<and> pr_pending p = [Reject_Event 0 9 ORDER_NOT_FOUND] \<and>
     pr_asked p = [Cancel_Command 0 9] \<and> pr_looping p \<and> pr_alive p \<and> sv_running (pr_server p) \<and>
     map cc_sock (sv_clients (pr_server p)) = [5] \<and> map cc_send (sv_clients (pr_server p)) = [[]] \<and> pr_sent p 0 = [] \<and>
     queue_ok (QUEUE_CAPACITY + 1) [] 0 (sv_out (pr_server p))"
proof -
  let ?p = "connected_to [5] demo_process" and ?t = "demo_turn cancel_frame"
  have p: "pr_looping ?p" "pr_alive ?p" "pr_pending ?p = []" "pr_engine ?p = engine_init" "pr_asked ?p = []" "pr_sent ?p 0 = []"
    "sv_clients (pr_server ?p) = sv_clients demo_server"
    by (simp_all add: connected_to_def demo_process_def demo_server_def)
  have q: "queue_ok (QUEUE_CAPACITY + 1) [] 0 (sv_in (pr_server ?p))" "queue_ok (QUEUE_CAPACITY + 1) [] 0 (sv_out (pr_server ?p))"
    using queue_init_ok [of QUEUE_CAPACITY "Cancel_Command 0 0"] queue_init_ok [of QUEUE_CAPACITY "Reject_Event 0 0 ORDER_NOT_FOUND"]
    by (simp_all add: connected_to_def demo_process_def server_start_def tcp_server_init_def INVALID_SOCK_def)
  have "length [] + length (turn_commands ?t (pr_server ?p)) - 0 < QUEUE_CAPACITY + 1"
    unfolding demo_process_quiet(2) by (simp add: QUEUE_CAPACITY_def)
  from quiet_turn_effect [OF demo_process_quiet(1) q(2)] push_commands_ok [OF q(1) this]
  obtain s where s: "tcp_poll ?t (pr_server ?p) = Inr (True, s)" "queue_ok (QUEUE_CAPACITY + 1) [Cancel_Command 0 9] 0 (sv_in s)"
    "sv_running s" "queue_ok (QUEUE_CAPACITY + 1) [] 0 (sv_out s)" "length (sv_clients s) = 1"
    "sv_clients s ! 0 = served ?t 0 (sv_clients demo_server ! 0)"
    unfolding demo_process_quiet(2) p(7) by (auto simp: demo_server_def)
  have c0: "cc_sock (sv_clients s ! 0) = 5" "cc_send (sv_clients s ! 0) = []" "written ?t (pr_server ?p) 0 = []"
    using demo_dispatches by (simp_all add: s(6) p(7) served_def written_def answers_def demo_turn_def demo_server_def)
  note r1 = process_next [OF process_begin busy_turn [OF p(1) demo_process_quiet(1) s(1)]]
  obtain i where i: "spsc_pop (sv_in s) = (Some (Cancel_Command 0 9), i)" using spsc_pop_ok(1) [OF s(2)] by auto
  let ?e = "emit (Reject_Event 0 9 ORDER_NOT_FOUND) engine_init"
  have c: "process_client_command (\<lambda>d. d) (Cancel_Command 0 9) engine_init = Some ?e" "new_events engine_init ?e = [Reject_Event 0 9 ORDER_NOT_FOUND]"
    by (simp_all add: process_cancel_def cancel_order_def engine_init_def book_init_def emit_def dict_get_def new_events_def)
  have l: "map cc_sock (sv_clients s) = [5]" "map cc_send (sv_clients s) = [[]]"
    using s(5) c0 by (cases "sv_clients s"; simp)+
  show ?thesis
    by (rule exI, intro conjI, rule process_next [OF r1 engine_takes])
      (use p(1-6) i c s(3,4) l c0(3) demo_process_quiet(2) in \<open>simp_all del: process_client_command.simps\<close>)
qed

text \<open>A turn in which every socket takes up to 4096 bytes and delivers none.\<close>

definition write_turn :: turn where
  "write_turn = \<lparr>tu_result = 1, tu_listen = \<lparr>re_in = False, re_out = False, re_bad = False\<rparr>,
     tu_events = \<lambda>_. \<lparr>re_in = False, re_out = True, re_bad = False\<rparr>, tu_accept = INVALID_SOCK,
     tu_recv = \<lambda>_. None, tu_sent = \<lambda>_. 4096, tu_engine = \<lambda>_ _. engine_init\<rparr>"

lemma write_turn_simps:
  "sv_running s \<Longrightarrow> INVALID_SOCK \<notin> set (map cc_sock (sv_clients s)) \<Longrightarrow> quiet_turn write_turn s"
  "i < length (sv_clients s) \<Longrightarrow> written write_turn s i = take 4096 (cc_send (sv_clients s ! i))"
  "cc_send (served write_turn i c) = drop 4096 (cc_send c)"
proof -
  assume r: "sv_running s" and n: "INVALID_SOCK \<notin> set (map cc_sock (sv_clients s))"
  have "cc_sock (sv_clients s ! i) \<noteq> INVALID_SOCK" if "i < length (sv_clients s)" for i
    using n nth_mem [OF that] by (metis image_eqI set_map)
  then show "quiet_turn write_turn s" using r
    by (simp add: write_turn_def quiet_turn_def conn_quiet_def received_def conn_dispatches_def list_all_length)
qed (simp_all add: write_turn_def written_def served_def answers_def conn_dispatches_def received_def)

lemma reject_bytes_length: "0 < length (reject_bytes oid r)" "length (reject_bytes oid r) \<le> 4096"
  by (simp_all add: reject_bytes_def serialize_def engine_reject_bytes_def bytes32_def bytes64_def)

lemma write_turn_step:
  assumes "process_run iter p0 p" "pr_looping p" "sv_running (pr_server p)" "map cc_sock (sv_clients (pr_server p)) = [5]"
    "queue_ok (QUEUE_CAPACITY + 1) ws k (sv_out (pr_server p))"
  shows "\<exists>p'. process_run iter p0 p' \<and> pr_looping p' \<and> sv_running (pr_server p') \<and> map cc_sock (sv_clients (pr_server p')) = [5] \<and>
    queue_ok (QUEUE_CAPACITY + 1) ws (k + length (take 100 (drop k ws))) (sv_out (pr_server p')) \<and>
    pr_sent p' 0 = pr_sent p 0 @ take 4096 (cc_send (sv_clients (pr_server p) ! 0)) \<and>
    cc_send (sv_clients (pr_server p') ! 0) = drop 4096 (cc_send (sv_clients (pr_server p) ! 0)) @
      message_bytes (concat (map (event_messages 0) (take 100 (drop k ws))))"
proof -
  have q: "quiet_turn write_turn (pr_server p)" using assms(3,4) by (simp add: write_turn_simps INVALID_SOCK_def)
  have l: "length (sv_clients (pr_server p)) = 1" using assms(4) by (metis length_map length_Cons list.size(3) One_nat_def)
  obtain s where s: "tcp_poll write_turn (pr_server p) = Inr (True, s)" "sv_running s"
    "queue_ok (QUEUE_CAPACITY + 1) ws (k + length (take 100 (drop k ws))) (sv_out s)" "length (sv_clients s) = 1"
    "sv_clients s ! 0 = queue_bytes (message_bytes (concat (map (event_messages 0) (take 100 (drop k ws)))))
      (served write_turn 0 (sv_clients (pr_server p) ! 0))"
    using quiet_turn_effect [OF q assms(5)] l by auto
  have "map cc_sock (sv_clients s) = [5]" using s(4,5) assms(4) l by (cases "sv_clients s"; cases "sv_clients (pr_server p)") simp_all
  then show ?thesis using process_next [OF assms(1) busy_turn [OF assms(2) q s(1)]] s l
    by (intro exI [of _ "p\<lparr>pr_server := s, pr_looping := True, pr_asked := pr_asked p @ turn_commands write_turn (pr_server p),
        pr_sent := \<lambda>i. pr_sent p i @ written write_turn (pr_server p) i\<rparr>"]) (simp add: write_turn_simps queue_bytes_def)
qed

lemma capacity_pos: "0 < QUEUE_CAPACITY"
  by (simp add: QUEUE_CAPACITY_def)

lemma demo_process_sent: "\<exists>p. process_run (\<lambda>d. d) (connected_to [5] demo_process) p \<and> pr_sent p 0 = reject_bytes 9 ORDER_NOT_FOUND"
proof -
  let ?ev = "Reject_Event 0 9 ORDER_NOT_FOUND"
  obtain p where p: "process_run (\<lambda>d. d) (connected_to [5] demo_process) p" "pr_pending p = [?ev]" "pr_looping p" "pr_alive p"
    "sv_running (pr_server p)" "map cc_sock (sv_clients (pr_server p)) = [5]" "map cc_send (sv_clients (pr_server p)) = [[]]"
    "pr_sent p 0 = []" "queue_ok (QUEUE_CAPACITY + 1) [] 0 (sv_out (pr_server p))"
    using demo_process_run by (elim exE conjE) (rule that)
  obtain q where q: "spsc_push ?ev (sv_out (pr_server p)) = (True, q)" "queue_ok (QUEUE_CAPACITY + 1) [?ev] 0 q"
    using spsc.room [OF p(9), of ?ev] capacity_pos by (cases "spsc_push ?ev (sv_out (pr_server p))") simp
  let ?p = "p\<lparr>pr_server := (pr_server p)\<lparr>sv_out := q\<rparr>, pr_pending := []\<rparr>"
  have c: "cc_send (sv_clients (pr_server p) ! 0) = []" using p(7) by (cases "sv_clients (pr_server p)") auto
  have m: "message_bytes (concat (map (event_messages 0) (take 100 (drop 0 [?ev])))) = reject_bytes 9 ORDER_NOT_FOUND"
    "0 + length (take 100 (drop 0 [?ev])) = 1"
    by (simp_all add: message_bytes_def reject_bytes_def)
  have P: "pr_looping ?p" "sv_running (pr_server ?p)" "map cc_sock (sv_clients (pr_server ?p)) = [5]"
    "queue_ok (QUEUE_CAPACITY + 1) [?ev] 0 (sv_out (pr_server ?p))" using p(3,5,6) q(2) by simp_all
  have "process_run (\<lambda>d. d) (connected_to [5] demo_process) ?p" by (rule process_next [OF p(1) engine_emits [OF p(4,2) q(1)]])
  from write_turn_step [OF this P, unfolded m]
  obtain p1 where p1: "process_run (\<lambda>d. d) (connected_to [5] demo_process) p1" "pr_looping p1" "sv_running (pr_server p1)"
    "map cc_sock (sv_clients (pr_server p1)) = [5]" "queue_ok (QUEUE_CAPACITY + 1) [?ev] 1 (sv_out (pr_server p1))"
    "pr_sent p1 0 = pr_sent ?p 0 @ take 4096 (cc_send (sv_clients (pr_server ?p) ! 0))"
    "cc_send (sv_clients (pr_server p1) ! 0) = drop 4096 (cc_send (sv_clients (pr_server ?p) ! 0)) @ reject_bytes 9 ORDER_NOT_FOUND"
    by (elim exE conjE) (rule that)
  have s1: "pr_sent p1 0 = []" "cc_send (sv_clients (pr_server p1) ! 0) = reject_bytes 9 ORDER_NOT_FOUND"
    unfolding p1(6,7) using c p(8) by simp_all
  obtain p2 where "process_run (\<lambda>d. d) (connected_to [5] demo_process) p2" "pr_sent p2 0 = take 4096 (reject_bytes 9 ORDER_NOT_FOUND)"
    using write_turn_step [OF p1(1-5), unfolded s1 append_Nil] by (elim exE conjE) (rule that)
  then show ?thesis using reject_bytes_length(2) [of 9 ORDER_NOT_FOUND] by (intro exI conjI) (assumption, simp only: take_all)
qed

theorem process_streams_witness:
  "\<exists>p cmds waiting. process_run (\<lambda>d. d) (connected_to [5] demo_process) p \<and> pr_pending p = [Reject_Event 0 9 ORDER_NOT_FOUND] \<and>
     run_engine (\<lambda>d. d) cmds engine_init = Some (pr_engine p) \<and> subseq (cmds @ waiting) [Cancel_Command 0 9]"
proof -
  obtain p where p: "process_run (\<lambda>d. d) (connected_to [5] demo_process) p" "pr_pending p = [Reject_Event 0 9 ORDER_NOT_FOUND]"
    "pr_asked p = [Cancel_Command 0 9]" using demo_process_run by blast
  show ?thesis using process_streams [OF demo_main p(1)] p by auto
qed

end
