(* ===== verification/Engine_Progress.thy ===== *)
theory Engine_Progress
  imports Engine_Process
begin

text \<open>
  Nothing in the engine's process gets stuck: as long as it has not been told to stop, whatever has been
  accepted can still be processed, and whatever the engine has said can still be sent. The turns
  used are those of \<^const>\<open>write_turn\<close>, in which the sockets take data and bring none.
\<close>

section \<open>A process that serves\<close>

definition serving :: "int list \<Rightarrow> process \<Rightarrow> bool" where
  "serving socks p \<longleftrightarrow> pr_looping p \<and> pr_alive p \<and> sv_running (pr_server p) \<and> map cc_sock (sv_clients (pr_server p)) = socks"

lemma process_run_trans: "process_run iter p' p'' \<Longrightarrow> process_run iter p p' \<Longrightarrow> process_run iter p p''"
  by (induction rule: process_run.induct) (auto intro: process_next)

lemma process_run_one: "process_step iter p p' \<Longrightarrow> process_run iter p p'"
  using process_next [OF process_begin] .

lemma turn_keeps_socks:
  assumes "quiet_turn t s" "queue_ok n ws k (sv_out s)" "tcp_poll t s = Inr (b, s')"
  shows "b \<and> sv_running s' \<and> map cc_sock (sv_clients s') = map cc_sock (sv_clients s)"
  using quiet_turn_effect [OF assms(1,2)] assms(3) by (auto intro!: nth_equalityI)

text \<open>A process that still loops has served all along.\<close>

lemma serving_step:
  assumes "process_step iter p p'" "process_ok iter vs j ws k p" "pr_looping p \<longrightarrow> serving socks p" "pr_looping p'"
  shows "serving socks p'"
  using assms(1)
proof (cases rule: process_step.cases)
  case (busy_turn t b s)
  have "queue_ok (QUEUE_CAPACITY + 1) ws k (sv_out (pr_server p))" using assms(2) by (simp add: process_ok_def)
  from turn_keeps_socks [OF busy_turn(3) this busy_turn(4)] show ?thesis using assms(3) busy_turn(1,2) by (simp add: serving_def)
next
  case (idle_turn t b s)
  then have "s = pr_server p" using idle_poll by blast
  then show ?thesis using assms(3,4) idle_turn(1,2) by (simp add: serving_def)
qed (use assms(3,4) in \<open>auto simp: serving_def\<close>)

lemma serving_run:
  assumes "process_run iter p p'" "process_ok iter vs j ws k p" "serving socks p"
  shows "(\<exists>vs j ws k. process_ok iter vs j ws k p') \<and> (pr_looping p' \<longrightarrow> serving socks p')"
  using assms
proof (induction rule: process_run.induct)
  case (process_next p p' p'')
  then obtain vs' j' ws' k' where "process_ok iter vs' j' ws' k' p'" "pr_looping p' \<longrightarrow> serving socks p'" by blast
  then show ?case using process_step_ok [OF _ process_next(2)] serving_step [OF process_next(2)] by blast
qed blast

section \<open>Emptying the queues\<close>

lemma write_turn_commands: "turn_commands write_turn s = []"
  by (simp add: turn_commands_def conn_commands_def conn_dispatches_def received_def write_turn_def)

lemma write_step:
  assumes "process_ok iter vs j ws k p" "serving socks p" "INVALID_SOCK \<notin> set socks"
  shows "\<exists>p'. process_run iter p p' \<and> serving socks p' \<and> process_ok iter vs j ws (k + length (take 100 (drop k ws))) p' \<and>
    pr_pending p' = pr_pending p \<and> (\<forall>i<length socks. cc_send (sv_clients (pr_server p') ! i) =
      drop 4096 (cc_send (sv_clients (pr_server p) ! i)) @ message_bytes (concat (map (event_messages i) (take 100 (drop k ws)))))"
proof -
  have q: "quiet_turn write_turn (pr_server p)" using assms(2,3) by (intro write_turn_simps) (simp_all add: serving_def)
  have l: "length (sv_clients (pr_server p)) = length socks" using assms(2) by (auto simp: serving_def)
  have Q: "queue_ok (QUEUE_CAPACITY + 1) ws k (sv_out (pr_server p))" using assms(1) by (simp add: process_ok_def)
  obtain s where s: "tcp_poll write_turn (pr_server p) = Inr (True, s)"
    "\<forall>i<length socks. sv_clients s ! i = queue_bytes (message_bytes (concat (map (event_messages i) (take 100 (drop k ws)))))
      (served write_turn i (sv_clients (pr_server p) ! i))"
    using quiet_turn_effect [OF q Q] l by auto
  let ?p = "p\<lparr>pr_server := s, pr_looping := True, pr_asked := pr_asked p @ turn_commands write_turn (pr_server p),
     pr_sent := (\<lambda>i. pr_sent p i @ written write_turn (pr_server p) i)\<rparr>"
  have st: "process_step iter p ?p" using busy_turn [OF _ q s(1)] assms(2) by (simp add: serving_def)
  obtain ys where ys: "subseq ys (turn_commands write_turn (pr_server p))" "process_ok iter (vs @ ys) j ws (k + length (take 100 (drop k ws))) ?p"
    using turn_keeps [OF assms(1) q s(1)] by (elim exE conjE) (rule that)
  have "ys = []" using ys(1) unfolding write_turn_commands by (rule list_emb_Nil2)
  then have "process_ok iter vs j ws (k + length (take 100 (drop k ws))) ?p" using ys(2) by (simp only: append_Nil2)
  moreover have "serving socks ?p" using serving_step [OF st assms(1)] assms(2) by simp
  ultimately show ?thesis using process_run_one [OF st] s(2)
    by (intro exI [of _ ?p]) (simp add: write_turn_simps queue_bytes_def)
qed

text \<open>Enough turns pass on all the events the engine has handed over.\<close>

lemma deliver_all:
  assumes "process_ok iter vs j ws k p" "serving socks p" "INVALID_SOCK \<notin> set socks"
  shows "\<exists>p'. process_run iter p p' \<and> serving socks p' \<and> process_ok iter vs j ws (length ws) p' \<and> pr_pending p' = pr_pending p"
  using assms(1,2)
proof (induction "length ws - k" arbitrary: k p rule: less_induct)
  case less
  have k: "k \<le> length ws" using less.prems(1) queue_okD(7) by (auto simp: process_ok_def)
  show ?case
  proof (cases "k < length ws")
    case False
    then show ?thesis using less.prems k process_begin by (intro exI [of _ p]) auto
  next
    case True
    let ?k = "k + length (take 100 (drop k ws))"
    have less: "length ws - ?k < length ws - k" using True by simp
    obtain p1 where p1: "process_run iter p p1" "serving socks p1" "process_ok iter vs j ws ?k p1" "pr_pending p1 = pr_pending p"
      using write_step [OF less.prems assms(3)] by blast
    obtain p2 where "process_run iter p1 p2" "serving socks p2" "process_ok iter vs j ws (length ws) p2" "pr_pending p2 = pr_pending p1"
      using less.hyps [OF less p1(3,2)] by blast
    then show ?thesis using p1(1,4) process_run_trans by metis
  qed
qed

lemma hand_over:
  assumes "process_ok iter vs j ws k p" "serving socks p" "INVALID_SOCK \<notin> set socks"
  shows "\<exists>p' ws'. process_run iter p p' \<and> serving socks p' \<and> process_ok iter vs j ws' (length ws') p' \<and> pr_pending p' = []"
proof -
  obtain p1 where p1: "process_run iter p p1" "serving socks p1" "process_ok iter vs j ws (length ws) p1"
    using deliver_all [OF assms] by blast
  show ?thesis
  proof (cases "pr_pending p1")
    case Nil
    then show ?thesis using p1 by blast
  next
    case (Cons ev evs)
    have q: "queue_ok (QUEUE_CAPACITY + 1) ws (length ws) (sv_out (pr_server p1))" using p1(3) by (simp add: process_ok_def)
    obtain q where push: "spsc_push ev (sv_out (pr_server p1)) = (True, q)"
      using spsc.room [OF q, of ev] capacity_pos by (cases "spsc_push ev (sv_out (pr_server p1))") auto
    let ?p = "p1\<lparr>pr_server := (pr_server p1)\<lparr>sv_out := q\<rparr>, pr_pending := evs\<rparr>"
    have e: "evs = []" using p1(3) Cons by (simp add: process_ok_def)
    have st: "process_step iter p1 ?p" using engine_emits [OF _ Cons push] p1(2) by (simp add: serving_def)
    have "serving socks ?p" using p1(2) by (simp add: serving_def)
    from deliver_all [OF emit_keeps [OF p1(3) Cons push] this assms(3)]
    obtain p2 where "process_run iter ?p p2" "serving socks p2" "process_ok iter vs j (ws @ [ev]) (length (ws @ [ev])) p2" "pr_pending p2 = []"
      using e by auto
    then show ?thesis using process_run_trans [OF _ process_next [OF p1(1) st]] by blast
  qed
qed

lemma process_all:
  assumes "process_ok iter vs j ws k p" "serving socks p" "INVALID_SOCK \<notin> set socks"
  shows "\<exists>p' ws'. process_run iter p p' \<and> serving socks p' \<and> process_ok iter vs (length vs) ws' (length ws') p' \<and> pr_pending p' = []"
  using assms(1,2)
proof (induction "length vs - j" arbitrary: j ws k p rule: less_induct)
  case less
  obtain p1 ws1 where p1: "process_run iter p p1" "serving socks p1" "process_ok iter vs j ws1 (length ws1) p1" "pr_pending p1 = []"
    using hand_over [OF less.prems assms(3)] by blast
  have Q: "queue_ok (QUEUE_CAPACITY + 1) vs j (sv_in (pr_server p1))" "safe (mx_book (pr_engine p1))" using p1(3) by (simp_all add: process_ok_def)
  show ?case
  proof (cases "j < length vs")
    case False
    then have "j = length vs" using queue_okD(7) [OF Q(1)] by simp
    then show ?thesis using p1 by blast
  next
    case True
    obtain q where pop: "spsc_pop (sv_in (pr_server p1)) = (Some (vs ! j), q)" using spsc_pop_ok(1) [OF Q(1) True] by blast
    obtain e where e: "process_client_command iter (vs ! j) (pr_engine p1) = Some e" using command_total [OF Q(2)] by blast
    let ?p = "p1\<lparr>pr_server := (pr_server p1)\<lparr>sv_in := q\<rparr>, pr_engine := e, pr_pending := new_events (pr_engine p1) e\<rparr>"
    have st: "process_step iter p1 ?p" using engine_takes [OF _ p1(4) pop e] p1(2) by (simp add: serving_def)
    have "serving socks ?p" using p1(2) by (simp add: serving_def)
    moreover have "length vs - (j + 1) < length vs - j" using True by simp
    ultimately
    obtain p2 ws2 where "process_run iter ?p p2" "serving socks p2" "process_ok iter vs (length vs) ws2 (length ws2) p2" "pr_pending p2 = []"
      using less.hyps [OF _ take_keeps [OF p1(3,4) pop e]] by blast
    then show ?thesis using process_run_trans [OF _ process_next [OF p1(1) st]] by blast
  qed
qed

text \<open>With nothing left to pass on, the sockets empty the send buffers.\<close>

lemma write_all:
  assumes "process_ok iter vs j ws (length ws) p" "serving socks p" "INVALID_SOCK \<notin> set socks" "pr_pending p = []"
    "\<forall>i<length socks. length (cc_send (sv_clients (pr_server p) ! i)) \<le> n"
  shows "\<exists>p'. process_run iter p p' \<and> serving socks p' \<and> process_ok iter vs j ws (length ws) p' \<and> pr_pending p' = [] \<and>
    (\<forall>i<length socks. cc_send (sv_clients (pr_server p') ! i) = [])"
  using assms(1,2,4,5)
proof (induction n arbitrary: p)
  case 0
  then show ?case using process_begin by (intro exI [of _ p]) simp
next
  case (Suc n)
  obtain p1 where p1: "process_run iter p p1" "serving socks p1" "process_ok iter vs j ws (length ws) p1" "pr_pending p1 = []"
    "\<forall>i<length socks. cc_send (sv_clients (pr_server p1) ! i) = drop 4096 (cc_send (sv_clients (pr_server p) ! i))"
    using write_step [OF Suc.prems(1,2) assms(3)] Suc.prems(3) by auto
  have "\<forall>i<length socks. length (cc_send (sv_clients (pr_server p1) ! i)) \<le> n"
    using p1(5) Suc.prems(4) by fastforce
  from Suc.IH [OF p1(3,2,4) this] show ?case using process_run_trans [OF _ p1(1)] by blast
qed

section \<open>Progress\<close>

lemma engine_main_serving:
  assumes "engine_main args bound fd listening c ev = Some (Inr p)"
  shows "serving socks (connected_to socks p)"
  using assms by (auto simp: engine_main_def server_start_def serving_def connected_to_def comp_def split: startup.split_asm if_split_asm)



end
