(* ===== verification/Arena_Silence.thy ===== *)
theory Arena_Silence
  imports Samples Engine_Process
begin

text \<open>
  The simulator and the engine together. What a client of the engine receives consists of book updates
  and rejections; a client of \<open>tcp_client.py\<close> that is fed such a stream, in pieces of any size and
  with interruptions, decodes book updates only. This is kept as an invariant of the simulator's state
  through every handler, and tells what a run of the two programs amounts to.
\<close>

section \<open>A stream without fills\<close>

fun no_fill :: "engine_msg \<Rightarrow> bool" where
  "no_fill (Engine_Fill f) \<longleftrightarrow> False"
| "no_fill _ \<longleftrightarrow> True"

definition plain_message :: "engine_msg \<Rightarrow> bool" where
  "plain_message m \<longleftrightarrow> engine_msg_ok m \<and> no_fill m"

text \<open>A beginning of such a stream.\<close>

definition silent :: "bytes \<Rightarrow> bool" where
  "silent bs \<longleftrightarrow> (\<exists>ms rest. list_all plain_message ms \<and> bs @ rest = concat (map engine_msg_bytes ms))"

definition received_bytes :: "recv_outcome list \<Rightarrow> bytes" where
  "received_bytes os = concat (map (\<lambda>o1. case o1 of Received d \<Rightarrow> d | _ \<Rightarrow> []) os)"

definition pieces_ok :: "recv_outcome list \<Rightarrow> bool" where
  "pieces_ok os \<longleftrightarrow> list_all (\<lambda>o1. case o1 of Received d \<Rightarrow> length d \<le> 4096 | _ \<Rightarrow> True) os"

definition silent_client :: "tcp_client \<Rightarrow> bool" where
  "silent_client c \<longleftrightarrow>
     (case sock c of
        None \<Rightarrow> silent (recv_buffer c)
      | Some s \<Rightarrow> pieces_ok (recv_script s) \<and> silent (recv_buffer c @ received_bytes (recv_script s)))"

lemma buf_total_serialize:
  assumes "length p < 2 ^ 32"
  shows "buf_total (serialize ty p @ r) = length (serialize ty p)"
proof -
  let ?h = "ty # bytes32 (of_nat (length p))"
  note h = header_unpack [OF header_bytes [OF assms], of ty]
  have "unpack_fields [Fld_B, Fld_I] ?h = [uint ty, int (length p)]"
    using h header_unpack_len [OF h(2)] by simp
  moreover have "take 5 (serialize ty p @ r) = ?h" using h(2) by (simp add: serialize_def)
  ultimately show ?thesis unfolding buf_total_def by (simp add: serialize_def)
qed

lemma buf_total_message: "engine_msg_ok m \<Longrightarrow> buf_total (engine_msg_bytes m @ r) = length (engine_msg_bytes m)"
  by (cases m; simp only: engine_msg_bytes.simps; intro buf_total_serialize)
    (simp_all add: engine_fill_bytes_def engine_book_bytes_def engine_reject_bytes_def engine_book_ok_def MAX_DEPTH_LEVELS_def)

lemma poll_loop_incomplete:
  assumes "engine_msg_ok m" "buf @ rest = engine_msg_bytes m @ r" "length buf < length (engine_msg_bytes m)"
  shows "poll_loop buf = (buf, [], None)"
proof (cases "length buf < 5")
  case False
  then have "buf_total buf = buf_total (buf @ rest)" by (simp add: buf_append)
  also have "\<dots> = length (engine_msg_bytes m)" unfolding assms(2) by (rule buf_total_message [OF assms(1)])
  finally show ?thesis using assms(3) by (simp add: poll_loop_unfold [of buf])
qed (simp add: poll_loop_short)

lemma plain_messages_books: "plain_message m \<Longrightarrow> list_all (\<lambda>x. \<exists>b. snd x = Book_Message b) (client_messages m)"
  by (cases m) (simp_all add: plain_message_def)

lemma poll_loop_silent:
  assumes "list_all plain_message ms" "buf @ rest = concat (map engine_msg_bytes ms)"
  shows "\<exists>buf' out ms'. poll_loop buf = (buf', out, None) \<and> list_all (\<lambda>x. \<exists>b. snd x = Book_Message b) out \<and>
    list_all plain_message ms' \<and> buf' @ rest = concat (map engine_msg_bytes ms')"
  using assms
proof (induction ms arbitrary: buf)
  case Nil
  then show ?case using poll_loop_short [of "[]"] by (auto intro!: exI [of _ "[]"])
next
  case (Cons m ms)
  have m: "plain_message m" "engine_msg_ok m" using Cons(2) by (simp_all add: plain_message_def)
  show ?case
  proof (cases "length buf < length (engine_msg_bytes m)")
    case True
    then have "poll_loop buf = (buf, [], None)" using poll_loop_incomplete [OF m(2)] Cons(3) by simp
    then show ?thesis using Cons(2,3) by (intro exI [of _ buf] exI [of _ "[]"] exI [of _ "m # ms"]) simp
  next
    case False
    let ?b = "drop (length (engine_msg_bytes m)) buf"
    have e: "engine_msg_bytes m @ concat (map engine_msg_bytes ms) = buf @ rest" using Cons(3) by simp
    have "take (length (engine_msg_bytes m)) buf = engine_msg_bytes m"
      using False arg_cong [OF e, of "take (length (engine_msg_bytes m))"] by simp
    then have b: "buf = engine_msg_bytes m @ ?b" using append_take_drop_id by metis
    have "?b @ rest = concat (map engine_msg_bytes ms)"
      using False arg_cong [OF e, of "drop (length (engine_msg_bytes m))"] by simp
    then obtain buf' out ms' where r: "poll_loop ?b = (buf', out, None)" "list_all (\<lambda>x. \<exists>b. snd x = Book_Message b) out"
      "list_all plain_message ms'" "buf' @ rest = concat (map engine_msg_bytes ms')"
      using Cons(1) [of ?b] Cons(2) by auto
    have "poll_loop (engine_msg_bytes m @ ?b) = (buf', client_messages m @ out, None)"
      using poll_engine_stream [of "[m]" ?b] m(2) r(1) by simp
    then have "poll_loop buf = (buf', client_messages m @ out, None)" using b by metis
    then show ?thesis using r plain_messages_books [OF m(1)]
      by (intro exI [of _ buf'] exI [of _ "client_messages m @ out"] exI [of _ ms']) simp
  qed
qed

lemma poll_buffer_silent:
  assumes "silent (recv_buffer c @ later)" "poll_buffer c = (r, c')"
  shows "silent (recv_buffer c' @ later) \<and> sock c' = sock c \<and> (\<forall>out. r = Inr out \<longrightarrow> list_all (\<lambda>x. \<exists>b. snd x = Book_Message b) out)"
proof -
  obtain ms rest where "list_all plain_message ms" "recv_buffer c @ (later @ rest) = concat (map engine_msg_bytes ms)"
    using assms(1) by (auto simp: silent_def)
  from poll_loop_silent [OF this] obtain buf' out ms' where
    p: "poll_loop (recv_buffer c) = (buf', out, None)" "list_all (\<lambda>x. \<exists>b. snd x = Book_Message b) out"
    "list_all plain_message ms'" "buf' @ (later @ rest) = concat (map engine_msg_bytes ms')" by auto
  have "silent (buf' @ later)" using p(3,4) by (auto simp: silent_def)
  then show ?thesis using assms(2) p(1,2) by (auto simp: poll_buffer_def)
qed

lemma poll_silent:
  assumes "silent_client c" "poll c = (r, c')"
  shows "silent_client c' \<and> (\<forall>out. r = Inr out \<longrightarrow> list_all (\<lambda>x. \<exists>b. snd x = Book_Message b) out)"
proof (cases "sock c")
  case None
  then show ?thesis using assms by (auto simp: poll_def)
next
  case (Some s)
  have q: "pieces_ok (recv_script s)" "silent (recv_buffer c @ received_bytes (recv_script s))"
    using assms(1) Some by (simp_all add: silent_client_def)
  show ?thesis
  proof (cases "connected s \<and> recv_script s \<noteq> []")
    case False
    then consider "poll c = (Inr [], c\<lparr>sock := Some s\<rparr>)" | "poll c = poll_buffer (c\<lparr>sock := Some s\<rparr>)"
      using Some by (cases "connected s") (auto simp: poll_def sock_recv_def Let_def)
    then show ?thesis
    proof cases
      case 1
      then show ?thesis using assms q by (auto simp: silent_client_def)
    next
      case 2
      then show ?thesis using poll_buffer_silent [of "c\<lparr>sock := Some s\<rparr>" _ r c'] assms(2) q by (auto simp: silent_client_def)
    qed
  next
    case True
    then obtain o1 os where o: "recv_script s = o1 # os" by (cases "recv_script s") auto
    let ?s = "s\<lparr>recv_script := os\<rparr>"
    let ?d = "case o1 of Received d \<Rightarrow> d | _ \<Rightarrow> []"
    have d: "pieces_ok os" "received_bytes (recv_script s) = ?d @ received_bytes os"
      using q(1) o by (simp_all add: pieces_ok_def received_bytes_def)
    have "(\<exists>d. o1 = Received d \<and> d \<noteq> [] \<and> poll c = poll_buffer (c\<lparr>sock := Some ?s, recv_buffer := recv_buffer c @ d\<rparr>)) \<or>
      ?d = [] \<and> (poll c = (Inr [], c\<lparr>sock := Some ?s\<rparr>) \<or> poll c = poll_buffer (c\<lparr>sock := Some ?s\<rparr>))"
      using True Some o q(1) by (cases o1) (auto simp: poll_def sock_recv_def pieces_ok_def Let_def)
    then consider (bytes) d where "o1 = Received d" "poll c = poll_buffer (c\<lparr>sock := Some ?s, recv_buffer := recv_buffer c @ d\<rparr>)"
      | (gone) "?d = []" "poll c = (Inr [], c\<lparr>sock := Some ?s\<rparr>)" | (again) "?d = []" "poll c = poll_buffer (c\<lparr>sock := Some ?s\<rparr>)"
      by auto
    then show ?thesis
    proof cases
      case bytes
      then show ?thesis
        using poll_buffer_silent [of "c\<lparr>sock := Some ?s, recv_buffer := recv_buffer c @ d\<rparr>" "received_bytes os" r c'] assms(2) q(2) d
        by (auto simp: silent_client_def)
    next
      case gone
      then show ?thesis using assms(2) q(2) d by (auto simp: silent_client_def)
    next
      case again
      then show ?thesis
        using poll_buffer_silent [of "c\<lparr>sock := Some ?s\<rparr>" "received_bytes os" r c'] assms(2) q(2) d
        by (auto simp: silent_client_def)
    qed
  qed
qed

section \<open>Silence in the simulator\<close>

definition unfilled :: "'g agent \<Rightarrow> bool" where
  "unfilled a \<longleftrightarrow> fill_prices (agent_base a) = []"

definition silent_sim :: "'g simulator \<Rightarrow> bool" where
  "silent_sim s \<longleftrightarrow> (\<forall>(k, a) \<in> set (sim_agents s). unfilled a) \<and> fills (sim_metrics s) = [] \<and>
     (case sim_tcp s of None \<Rightarrow> True | Some c \<Rightarrow> silent_client c)"

lemma silent_simI:
  "silent_sim s \<Longrightarrow> (\<And>k a. (k, a) \<in> set (sim_agents s') \<Longrightarrow> unfilled a) \<Longrightarrow> fills (sim_metrics s') = fills (sim_metrics s) \<Longrightarrow>
     sim_tcp s' = sim_tcp s \<Longrightarrow> silent_sim s'"
  by (auto simp: silent_sim_def)

lemma sendall_recv: "sock_sendall s d = (r, s') \<Longrightarrow> recv_script s' = recv_script s"
  by (auto simp: sock_sendall_def split: if_split_asm list.split_asm option.split_asm)

lemma send_frame_silent: "silent_client c \<Longrightarrow> send_frame c t packed = (r, c') \<Longrightarrow> silent_client c'"
  by (auto simp: send_frame_def silent_client_def split: sum.split_asm option.split_asm prod.split_asm dest: sendall_recv)

lemma with_tcp_silent: "silent_sim s \<Longrightarrow> silent_client c \<Longrightarrow> silent_sim (with_tcp c s)"
  by (simp add: silent_sim_def with_tcp_def)

lemma silent_tcp: "silent_sim s \<Longrightarrow> sim_tcp s = Some c \<Longrightarrow> silent_client c"
  by (simp add: silent_sim_def)

lemma silent_metrics:
  "silent_sim s \<Longrightarrow> fills m = [] \<Longrightarrow> silent_sim (s\<lparr>sim_metrics := m\<rparr>)"
  by (simp add: silent_sim_def)

lemma fills_record: "fills (record_cancel i t m) = fills m" "fills (record_quote qr m) = fills m"
  "fills (record_state n p i mid m) = fills m"
  by (simp_all add: record_cancel_def record_quote_def record_state_def)

lemma silent_submit_cancel:
  assumes "silent_sim s"
  shows "silent_sim (submit_cancel i s)"
proof (cases "sim_tcp s")
  case (Some c)
  obtain r c' where c': "send_cancel c i = (r, c')" by fastforce
  then have "silent_client c'" using send_frame_silent [OF silent_tcp [OF assms Some]] by (auto simp: send_cancel_def)
  then have w: "silent_sim (with_tcp c' s)" by (rule with_tcp_silent [OF assms])
  have "fills (sim_metrics s) = []" using assms by (simp add: silent_sim_def)
  then show ?thesis using Some c' w by (cases r) (auto simp: submit_cancel_def fills_record intro!: silent_metrics)
qed (simp add: submit_cancel_def assms)

lemma silent_submit_order:
  assumes "silent_sim s"
  shows "silent_sim (submit_order o1 s)"
proof (cases "sim_tcp s")
  case (Some c)
  obtain r c' where c': "send_new_order c (ao_order_id o1) (ao_side o1) (ao_order_type o1) (ao_price o1) (ao_quantity o1) 0 = (r, c')"
    by fastforce
  then have "silent_client c'" using send_frame_silent [OF silent_tcp [OF assms Some]] by (auto simp: send_new_order_def)
  then have w: "silent_sim (with_tcp c' s)" by (rule with_tcp_silent [OF assms])
  have "fills (sim_metrics s) = []" using assms by (simp add: silent_sim_def)
  then show ?thesis using Some c' w by (cases r) (auto simp: submit_order_def fills_record intro!: silent_metrics)
qed (simp add: submit_order_def assms)

lemma silent_messages:
  "silent_sim s \<Longrightarrow> list_all (\<lambda>x. \<exists>b. snd x = Book_Message b) ms \<Longrightarrow> silent_sim (foldl (\<lambda>s m. handle_message (snd m) s) s ms)"
proof (induction ms arbitrary: s)
  case (Cons m ms)
  then have "silent_sim (handle_message (snd m) s)" by (auto simp: handle_message_def silent_sim_def)
  then show ?case using Cons by simp
qed simp

lemma silent_broadcast: "silent_sim s \<Longrightarrow> silent_sim (broadcast j s)"
  by (auto simp: broadcast_def silent_sim_def split: option.splits)

lemma silent_receive:
  assumes "silent_sim s"
  shows "silent_sim (receive s)"
proof (cases "sim_tcp s")
  case (Some c)
  obtain r c' where p: "poll c = (r, c')" by fastforce
  note q = poll_silent [OF silent_tcp [OF assms Some] p]
  then have w: "silent_sim (with_tcp c' s)" using with_tcp_silent [OF assms] by simp
  show ?thesis
  proof (cases r)
    case (Inr ms)
    have "silent_sim (foldl (\<lambda>s m. handle_message (snd m) s) (with_tcp c' s) ms)"
      using q Inr by (intro silent_messages w) simp
    then show ?thesis using Some p Inr by (simp add: receive_def Let_def silent_broadcast split: option.split)
  qed (use Some p w in \<open>simp add: receive_def\<close>)
qed (simp add: receive_def assms)

lemma silent_submits:
  assumes "silent_sim s"
  shows "silent_sim (submit_cancels ids s)" "silent_sim (submit_orders os s)"
proof -
  show "silent_sim (submit_cancels ids s)"
    unfolding submit_cancels_def by (rule foldl_inv [where P = silent_sim, OF assms]) (rule silent_submit_cancel)
  have "silent_sim (foldl (\<lambda>s o1. submit_order o1 s) s os)"
    by (rule foldl_inv [where P = silent_sim, OF assms]) (rule silent_submit_order)
  then show "silent_sim (submit_orders os s)" using assms by (simp add: submit_orders_def silent_receive)
qed

lemma silent_set_agent: "silent_sim s \<Longrightarrow> unfilled a \<Longrightarrow> silent_sim (s\<lparr>sim_agents := dict_set k a (sim_agents s)\<rparr>)"
  using set_dict_set_subset [of k a "sim_agents s"] by (auto simp: silent_sim_def)

lemma silent_agent_action:
  assumes "agent_action np who s = Inr s'" "silent_sim s"
  shows "silent_sim s'"
  using assms(1)
proof (cases rule: agent_action_cases)
  case (acted u aid a os a1)
  have "unfilled a" using assms(2) dict_get_Some_in [OF acted(3)] by (auto simp: silent_sim_def)
  then have "unfilled (if agent_pending_cancels a1 \<noteq> [] then agent_clear_cancels a1 else a1)"
    using agent.update_ledger [OF acted(4)] by (simp add: unfilled_def)
  then show ?thesis unfolding acted(5) by (intro silent_submits silent_set_agent assms(2))
qed (use assms(2) in simp)

lemma extra_actions_tcp: "extra_actions np t n s = Inr s' \<Longrightarrow> sim_tcp s' = sim_tcp s"
  by (induction np t n s rule: extra_actions.induct)
    (auto simp: schedule_action_def push_event_def split: if_split_asm sum.split_asm option.split_asm)

lemma silent_midprice_move:
  assumes "midprice_move np t s = Inr s'" "silent_sim s"
  shows "silent_sim s'"
proof -
  obtain mid p where h: "hawkes_flow np t (s\<lparr>sim_price := p, current_mid := mid,
      step_count := step_count s + 1, sim_agents := agents_map (agent_set_true_price mid) (sim_agents s)\<rparr>) = Inr s'"
    using assms(1) by (auto simp: midprice_move_def split: sum.split_asm)
  have "sim_agents s' = agents_map (agent_set_true_price mid) (sim_agents s)" "sim_metrics s' = sim_metrics s" "sim_tcp s' = sim_tcp s"
    using h by (auto simp: hawkes_flow_def split: option.split_asm sum.split_asm dest: extra_actions_queued extra_actions_tcp)
  then show ?thesis using assms(2) by (intro silent_simI [OF assms(2)])
      (auto simp: silent_sim_def agents_map_def unfilled_def)
qed

lemma silent_process_event:
  assumes "process_event np e s = Inr s'" "silent_sim s"
  shows "silent_sim s'"
proof (cases "event_type e")
  case METRICS_SAMPLE
  then have "s' = metrics_sample s" using assms(1) by (simp add: process_event_def)
  moreover have "fills (sim_metrics s) = []" using assms(2) by (simp add: silent_sim_def)
  ultimately show ?thesis using assms(2)
    by (auto simp: metrics_sample_def Let_def fills_record intro!: silent_broadcast silent_metrics split: option.split)
qed (use assms silent_midprice_move silent_agent_action in \<open>auto simp: process_event_def\<close>)

lemma silent_human_command:
  assumes "human_command a q k s = Inr s'" "silent_sim s"
  shows "silent_sim s'"
proof -
  have "silent_sim s'" if w: "with_human f s = Inr s'" and p: "\<And>h. fill_prices (f h) = fill_prices h" for f
  proof -
    obtain h where h: "dict_get (sim_agents s) ''HUMAN'' = Some (Human_Agent h)"
      and s': "s' = s\<lparr>sim_agents := dict_set ''HUMAN'' (Human_Agent (f h)) (sim_agents s)\<rparr>"
      using w by (auto simp: with_human_def split: option.split_asm agent.split_asm)
    have "unfilled (Human_Agent h :: 'a agent)" using assms(2) dict_get_Some_in [OF h] by (auto simp: silent_sim_def)
    then show ?thesis unfolding s' using p [of h]
      by (intro silent_set_agent assms(2)) (simp add: unfilled_def base_agent.truncate_def)
  qed
  then show ?thesis using assms
    by (auto simp: human_command_def place_market_order_def place_limit_order_def human_queue_def next_order_id_def
        cancel_all_quotes_def cancel_all_def Let_def split: if_split_asm option.split)
qed

lemma silent_scenario:
  assumes "silent_sim s"
  shows "silent_sim (snd (scenario data s))"
proof -
  let ?r = "snd (scenario data s)"
  have "sim_agents ?r = sim_agents s \<and> sim_metrics ?r = sim_metrics s \<and>
    (sim_tcp ?r = sim_tcp s \<or> (\<exists>c r c'. sim_tcp s = Some c \<and> send_new_order c 999999 0 1 0 5000 0 = (r, c') \<and> sim_tcp ?r = Some c'))"
    by (auto simp: scenario_def with_tcp_def split: sum.split option.split prod.split)
  moreover have "silent_client c'" if "sim_tcp s = Some c" "send_new_order c 999999 0 1 0 5000 0 = (r, c')" for c c' r
    by (rule send_frame_silent [OF silent_tcp [OF assms that(1)] that(2) [unfolded send_new_order_def]])
  ultimately show ?thesis using assms unfolding silent_sim_def by (elim conjE disjE exE) simp_all
qed

lemma silent_incoming:
  assumes "silent_sim s"
  shows "silent_sim (process_incoming_ws_messages s)"
proof -
  have "silent_sim (snd (ws_message m s))" if "silent_sim s" for m and s :: "'a simulator"
    using that ws_message_cases [of m s] human_action_frame [of _ s] silent_human_command silent_scenario by metis
  then have "silent_sim (foldl (\<lambda>s m. snd (ws_message m s)) s ms)" if "silent_sim s" for ms and s :: "'a simulator"
    by (intro foldl_inv [where P = silent_sim] that)
  then show ?thesis using assms
    by (simp add: process_incoming_ws_messages_def silent_sim_def [of "_\<lparr>sim_ws := _\<rparr>"] silent_sim_def [of s] split: option.split prod.split)
qed

lemma silent_run_loop: "run_loop np stops n s = (es, Inr s') \<Longrightarrow> silent_sim s \<Longrightarrow> silent_sim s'"
proof (induction es arbitrary: n s)
  case Nil
  from Nil.prems(1) show ?case
  proof (cases rule: run_loop_cases)
    case finished
    then show ?thesis using Nil.prems(2) by (auto simp: silent_sim_def sim_stop_def)
  qed simp_all
next
  case (Cons e0 es)
  from Cons.prems(1) show ?case
  proof (cases rule: run_loop_cases)
    case (stepped e q s1 s2 es')
    have "silent_sim s1" using silent_incoming [OF Cons.prems(2)] stepped(11) by (simp add: silent_sim_def)
    then show ?thesis using Cons.IH stepped(8-10) silent_process_event by blast
  qed simp_all
qed

section \<open>The start of a run\<close>

lemma unfilled_inits:
  "create_mm np cfg c = (a1, c1) \<Longrightarrow> fill_prices a1 = []"
  "create_noise np cfg i c = (a2, c2) \<Longrightarrow> fill_prices a2 = []"
  "create_informed np cfg c = (a3, c3) \<Longrightarrow> fill_prices a3 = []"
  "create_momentum np cfg c = Inr (a4, c4) \<Longrightarrow> fill_prices a4 = []"
  "create_arb np cfg c = (a5, c5) \<Longrightarrow> fill_prices a5 = []"
  "human_init aid c = (a6, c6) \<Longrightarrow> fill_prices a6 = []"
  by (auto simp: create_mm_def mm_init_def create_noise_def noise_init_def create_informed_def informed_init_def
      create_momentum_def momentum_init_def create_arb_def latency_arb_init_def human_init_def
      base_init_def base_agent.defs market_maker.defs noise_trader.defs informed_trader.defs
      momentum_trader.defs latency_arb.defs human_agent.defs Let_def split: if_split_asm)

lemma unfilled_add:
  "\<forall>(k, a) \<in> set (sim_agents s). unfilled a \<Longrightarrow> fill_prices (agent_base a) = [] \<Longrightarrow>
     \<forall>(k, a) \<in> set (sim_agents (add_agent i a l s)). unfilled a"
  using set_dict_set_subset [of i a "sim_agents s"] by (auto simp: add_agent_def unfilled_def)

lemma fill_prices_truncate [simp]: "fill_prices (base_agent.truncate a) = fill_prices a"
  by (simp add: base_agent.truncate_def)

lemma unfilled_noises:
  "create_noises np is (s, c) = (s', c') \<Longrightarrow> \<forall>(k, a) \<in> set (sim_agents s). unfilled a \<Longrightarrow>
     \<forall>(k, a) \<in> set (sim_agents s'). unfilled a"
proof (induction "is" arbitrary: s c)
  case (Cons i "is")
  obtain a c1 where a: "create_noise np (sim_cfg s) i c = (a, c1)" by fastforce
  let ?s = "add_agent (noise_id i) (Noise_Agent a) (Model_Latency (retail_latency np (42 + int i))) s"
  have "create_noises np is (?s, c1) = (s', c')" using Cons.prems(1) a by simp
  moreover have "\<forall>(k, a) \<in> set (sim_agents ?s). unfilled a"
    by (rule unfilled_add [OF Cons.prems(2)]) (simp add: unfilled_inits(2) [OF a])
  ultimately show ?case by (rule Cons.IH)
qed simp

lemma create_agents_unfilled:
  assumes "create_agents np c s = Inr (s', c')" "\<forall>(k, a) \<in> set (sim_agents s). unfilled a"
  shows "\<forall>(k, a) \<in> set (sim_agents s'). unfilled a"
proof -
  obtain mm c1 where mm: "create_mm np (sim_cfg s) c = (mm, c1)" by fastforce
  obtain s2 c2 where s2: "create_noises np [0..<nat (cfg_get (cfg_num_noise (sim_cfg s)) 3)]
      (add_agent ''MM'' (MM_Agent mm) (Model_Latency (market_maker_latency np 42)) s, c1) = (s2, c2)"
    by fastforce
  obtain it c3 where it: "create_informed np (sim_cfg s) c2 = (it, c3)" by fastforce
  obtain mt c4 where mt: "create_momentum np (sim_cfg s) c3 = Inr (mt, c4)"
    using assms(1) mm s2 it by (auto simp: create_agents_def Let_def split: sum.split_asm)
  obtain la c5 where la: "create_arb np (sim_cfg s) c4 = (la, c5)" by fastforce
  obtain hu c6 where hu: "human_init ''HUMAN'' c5 = (hu, c6)" by fastforce
  have s': "s' = add_agent ''HUMAN'' (Human_Agent hu) Zero_Latency
      (add_agent ''LAT_ARB'' (Arb_Agent la) (Model_Latency (latency_arb_latency np 300))
      (add_agent ''MOMENTUM'' (Momentum_Agent mt) (Model_Latency (retail_latency np 200))
      (add_agent ''INFORMED'' (Informed_Agent it) (Model_Latency (latency_init np (Some (LatencyConfig 500 100)) 100)) s2)))"
    using assms(1) mm s2 it mt la hu by (simp add: create_agents_def Let_def)
  note new = unfilled_inits(1) [OF mm] unfilled_inits(3) [OF it] unfilled_inits(4) [OF mt] unfilled_inits(5) [OF la] unfilled_inits(6) [OF hu]
  have "\<forall>(k, a) \<in> set (sim_agents s2). unfilled a"
    by (rule unfilled_noises [OF s2]) (rule unfilled_add [OF assms(2)], simp add: new)
  then show ?thesis unfolding s' by (intro unfilled_add) (simp_all add: new)
qed

lemma schedule_steps_keep:
  "schedule_steps np dt is s = Inr s' \<Longrightarrow>
     sim_agents s' = sim_agents s \<and> sim_metrics s' = sim_metrics s \<and> sim_tcp s' = sim_tcp s"
proof (induction "is" arbitrary: s)
  case (Cons i "is")
  have act: "sim_agents s' = sim_agents s \<and> sim_metrics s' = sim_metrics s \<and> sim_tcp s' = sim_tcp s"
    if "schedule_actions np t aids s = Inr s'" for t aids and s s' :: "'a simulator"
    using that by (induction aids arbitrary: s)
      (auto simp: schedule_action_def push_event_def split: sum.split_asm option.split_asm)
  obtain s1 where s1: "schedule_step np dt i s = Inr s1" "schedule_steps np dt is s1 = Inr s'"
    using Cons.prems by (auto split: sum.split_asm)
  have "sim_agents s1 = sim_agents s \<and> sim_metrics s1 = sim_metrics s \<and> sim_tcp s1 = sim_tcp s"
    using s1(1) by (auto simp: schedule_step_def Let_def push_event_def split: sum.split_asm if_split_asm dest!: act)
  then show ?case using Cons.IH [OF s1(2)] by simp
qed simp

lemma silent_run_setup:
  assumes "run_setup np c (Inr sk) s = Inr s'" "sim_agents s = []" "fills (sim_metrics s) = []"
    "pieces_ok (recv_script sk)" "silent (received_bytes (recv_script sk))"
  shows "silent_sim s'"
proof -
  obtain s1 c1 where s1: "create_agents np c s = Inr (s1, c1)"
    using assms(1) by (auto simp: run_setup_def split: sum.split_asm)
  obtain s2 where s2: "create_hawkes np s1 = Inr s2"
    using assms(1) s1 by (auto simp: run_setup_def split: sum.split_asm)
  let ?s3 = "connect_engine (Inr sk) s2"
  let ?s4 = "?s3\<lparr>last_book_update := Some (initial_book (current_mid ?s3))\<rparr>"
  obtain dt s5 where s5: "schedule_steps np dt [0..<nat (total_steps ?s4)] ?s4 = Inr s5"
    and s': "s' = s5\<lparr>sim_running := True\<rparr>"
    using assms(1) s1 s2
    by (auto simp: run_setup_def schedule_initial_events_def Let_def split: sum.split_asm)
  have "sim_metrics s1 = sim_metrics s" using create_agents_setup [OF s1] by (simp add: same_setup_def)
  moreover have "\<forall>(k, a) \<in> set (sim_agents s1). unfilled a" by (rule create_agents_unfilled [OF s1]) (simp add: assms(2))
  moreover have "sim_agents s2 = sim_agents s1" "sim_metrics s2 = sim_metrics s1"
    using s2 by (auto simp: create_hawkes_def Let_def split: if_split_asm sum.split_asm)
  moreover obtain cl where "sim_tcp ?s4 = Some cl" "sock cl = Some (sk\<lparr>connected := True\<rparr>)" "recv_buffer cl = []"
    by (simp add: connect_engine_def tcp_connect_def tcp_init_def)
  moreover have "sim_agents ?s4 = sim_agents s2" "sim_metrics ?s4 = sim_metrics s2"
    by (simp_all add: connect_engine_def tcp_connect_def)
  ultimately show ?thesis using schedule_steps_keep [OF s5] assms(3-5)
    by (simp add: s' silent_sim_def silent_client_def)
qed

section \<open>No agent ever trades\<close>

lemma unfilled_ledger:
  "unfilled a \<and> agent_ok a \<Longrightarrow> fill_prices (agent_base a) = [] \<and> inventory (stats (agent_base a)) = 0 \<and>
     total_fills (stats (agent_base a)) = 0 \<and> realized_pnl (stats (agent_base a)) = 0"
  by (simp add: unfilled_def agent_ok_def base_ok_def ledger_ok_def)

lemma mixture_silent:
  assumes "run_engine iter cmds engine_init = Some e" "mx_out e = evs @ later" "mixture k evs ms" "bs @ rest = message_bytes ms"
  shows "silent bs"
proof -
  have ev: "list_all event_ok (mx_out e)"
    by (rule run_events [OF _ _ assms(1)]) (simp_all add: engine_init_def safe_init)
  have "plain_message m" if "m \<in> set (event_messages k x)" "event_ok x" for m x
    using that by (cases x) (auto simp: plain_message_def split: if_split_asm)
  moreover obtain rs where "ms \<in> shuffles (concat (map (event_messages k) evs)) (map Engine_Reject rs)"
    using assms(3) by (auto simp: mixture_def)
  ultimately have "list_all plain_message ms"
    using ev assms(2) set_shuffles by (fastforce simp: list_all_iff plain_message_def)
  then show ?thesis using assms(4) by (auto simp: silent_def message_bytes_def)
qed

lemma silent_main:
  assumes "silent (received_bytes (recv_script sk))" "pieces_ok (recv_script sk)"
    "sim_main np cfg bridge counter (Inr sk) stops = (es, Inr s)"
  shows "fills (sim_metrics s) = [] \<and> (\<forall>(i, a) \<in> set (sim_agents s). fill_prices (agent_base a) = [] \<and>
    inventory (stats (agent_base a)) = 0 \<and> total_fills (stats (agent_base a)) = 0 \<and> realized_pnl (stats (agent_base a)) = 0)"
proof (cases rule: sim_main_cases [of np cfg bridge counter "Inr sk" stops])
  case (started s0 s1 es' r)
  obtain s2 where r: "r = Inr s2" "s = sim_disconnect s2" using started(4) assms(3) by (cases r) auto
  have f: "sim_agents s0 = []" "fills (sim_metrics s0) = []"
    using started(1) by (auto simp: sim_init_def metrics_init_def split: sum.split_asm)
  have "silent_sim s1" by (rule silent_run_setup [OF started(2) _ _ assms(2,1)]) (use f in \<open>simp_all add: set_ws_bridge_def\<close>)
  then have "silent_sim s2" "sim_ok s2"
    using silent_run_loop run_loop_ok started(3,9) r(1) by blast+
  then have "unfilled a \<and> agent_ok a" if "(i, a) \<in> set (sim_agents s)" for i a
    using that by (auto simp: silent_sim_def sim_ok_def agents_ok_def r(2) sim_disconnect_def)
  moreover have "fills (sim_metrics s) = []" using \<open>silent_sim s2\<close> by (simp add: silent_sim_def r(2) sim_disconnect_def)
  ultimately show ?thesis using unfilled_ledger by (intro conjI) auto
qed (use assms(3) in simp)

text \<open>
  C40. In the deployed system no agent ever trades. Take any run of the engine's process with any
  clients, and any run of the simulator as one of them: what it receives is, in pieces of any size, a beginning of what
  the process has written to its connection. When the simulator's run ends every agent's list of
  fills is empty, its inventory, its count of fills and its realised profit are zero, and the metrics
  have recorded no fill, whatever the engine has matched.
\<close>

theorem arena_never_trades:
  assumes "engine_main args bound fd listening c ev = Some (Inr p0)" "process_run iter (connected_to socks p0) p"
    "received_bytes (recv_script sk) @ rest = pr_sent p k" "pieces_ok (recv_script sk)"
    "sim_main np cfg bridge counter (Inr sk) stops = (es, Inr s)"
  shows "fills (sim_metrics s) = [] \<and> (\<forall>(i, a) \<in> set (sim_agents s). fill_prices (agent_base a) = [] \<and>
    inventory (stats (agent_base a)) = 0 \<and> total_fills (stats (agent_base a)) = 0 \<and> realized_pnl (stats (agent_base a)) = 0)"
proof -
  obtain vs j ws l where P: "process_ok iter vs j ws l p"
    using process_run_ok [OF assms(2) engine_main_starts [OF assms(1)]] by blast
  obtain ms later where m: "mixture k (take l ws) ms" "pr_sent p k @ later = message_bytes ms"
    using P unfolding process_ok_def sent_ok_def by blast
  have "run_engine iter (take j vs) engine_init = Some (pr_engine p)" "mx_out (pr_engine p) = take l ws @ drop l ws @ pr_pending p"
    using P by (simp_all add: process_ok_def flip: append_assoc)
  then have "silent (received_bytes (recv_script sk))"
    by (rule mixture_silent [OF _ _ m(1), where rest = "rest @ later"]) (use m(2) assms(3) [symmetric] in simp)
  then show ?thesis by (rule silent_main [OF _ assms(4,5)])
qed

theorem arena_never_trades_witness:
  "\<exists>p sk es s. process_run (\<lambda>d. d) (connected_to [5] demo_process) p \<and> received_bytes (recv_script sk) = pr_sent p 0 \<and> pr_sent p 0 \<noteq> [] \<and>
     sim_main tick_numpy default_yaml None 0 (Inr sk) (\<lambda>_. False) = (es, Inr s) \<and> fills (sim_metrics s) = []"
proof -
  obtain p where p: "process_run (\<lambda>d. d) (connected_to [5] demo_process) p" "pr_sent p 0 = reject_bytes 9 ORDER_NOT_FOUND"
    using demo_process_sent by blast
  define sk where "sk = \<lparr>connected = True, recv_script = [Would_Block, Received (reject_bytes 9 ORDER_NOT_FOUND)],
    send_script = [], wire = []\<rparr>"
  obtain es s where m: "sim_main tick_numpy default_yaml None 0 (Inr sk) (\<lambda>_. False) = (es, Inr s)"
    using sim_main_total [OF numpy_ok_tick valid_default_yaml] by blast
  have r: "received_bytes (recv_script sk) @ [] = pr_sent p 0" "pieces_ok (recv_script sk)"
    using reject_bytes_length [of 9 ORDER_NOT_FOUND] by (simp_all add: sk_def received_bytes_def pieces_ok_def p(2))
  have "fills (sim_metrics s) = []" by (rule arena_never_trades [OF demo_main p(1) r m, THEN conjunct1])
  moreover have "pr_sent p 0 \<noteq> []" using reject_bytes_length [of 9 ORDER_NOT_FOUND] by (auto simp: p(2))
  ultimately show ?thesis using p(1) r(1) m by (intro exI conjI) simp_all
qed

end
