(* ===== verification/Spec2Isabelle.thy ===== *)
theory Spec2Isabelle
  imports Samples Wire_Theorems Agent_Theorems Market_Theorems Engine_Theorems
    Object_Pool Engine_Threads Tcp_Server Engine_Ranges Engine_Progress Arena_Silence
begin

text \<open>
  Liquidity Arena: a market microstructure simulator. A Python process (\<open>src/simulation/\<close>) runs
  trading agents against a C++ matching engine (\<open>src/engine/\<close>) over TCP and shows the result in a
  browser over a WebSocket. This library models the Python process, the wire protocol and the
  engine: order book, matching, object pool, queues, threads, server and main program. It proves what makes them
  correct, alone and together.

  \<^bold>\<open>Parts and theories.\<close> Each theory models one part; the names of definitions follow the
  source, with a prefix where a name is used twice.

  \<^item> Foundations. \<open>Py_Float\<close>: Python's floats as reals with every operation rounded to nearest,
    ties to even, at 53 bits (\<open>rnd64\<close>, \<open>fadd\<close>, \<open>fmul\<close>, \<open>fint\<close>, \<open>flit\<close>), \<open>round\<close> and \<open>int\<close>.
    \<open>Arena_Prelude\<close>: Python's exceptions as a datatype, results \<open>Inl error\<close> or \<open>Inr value\<close>, and
    insertion-ordered dictionaries. \<open>Heapq\<close>: the array heap of the standard library. \<open>Py_Struct\<close>:
    the \<open>struct\<close> module for the little-endian formats in use. \<open>Numpy\<close>: the random generators and
    numerical functions of numpy as a record of functions, a parameter of everything that
    uses them; \<open>numpy_ok\<close> collects their documented ranges and \<open>tick_numpy\<close> is an instance.
  \<^item> \<open>Event_Queue\<close>: \<open>EventType\<close>, \<open>Event\<close>, \<open>EventQueue\<close> of \<open>simulator.py\<close>. The locale \<open>min_queue\<close>
    states the contract of a priority queue, and the queue over \<open>Heapq\<close> is its instance.
  \<^item> \<open>Base_Agent\<close>, \<open>Traders\<close>, \<open>Market_Maker\<close>: the agents of \<open>agents/\<close>. The locale \<open>trading_agent\<close>
    is the contract of an agent (\<open>on_book_update\<close> and \<open>on_fill\<close> keep the order identifiers and
    the ledger consistent), \<open>one_shot_agent\<close> that of an agent that sends at most one order;
    all six agents are instances, and so is the sum type the simulator stores.
  \<^item> \<open>Tcp_Client\<close>, \<open>Engine_Protocol\<close>: \<open>market/tcp_client.py\<close>, and the message layout and framing
    loop of \<open>engine/include/message.hpp\<close> and \<open>engine/src/tcp_server.cpp\<close>. The locale
    \<open>engine_message\<close> states that a message the engine lays out is a message the client decodes.
  \<^item> \<open>Price_Process\<close>, \<open>Latency_Model\<close>: \<open>market/price_process.py\<close> and \<open>market/latency_model.py\<close>;
    the locale \<open>online_process\<close> relates generating a path to stepping.
  \<^item> \<open>Metrics\<close>, \<open>Report\<close>: \<open>metrics.py\<close>, with the printed report. \<open>Ws_Bridge\<close>: JSON values and the
    simulator's view of \<open>market/ws_bridge.py\<close>. \<open>Bridge_Server\<close>: the bridge's threads and connections
    as a step relation over all interleavings, which refines that view.
  \<^item> \<open>Sim_State\<close>, \<open>Simulator\<close>: \<open>simulator.py\<close>, its set-up, handlers, main loop and entry point;
    \<open>Report\<close> also has \<open>run_simulation.py\<close>.
  \<^item> \<open>Price_Level\<close>, \<open>Order_Book\<close>, \<open>Matching_Engine\<close>: \<open>engine/include/price_level.hpp\<close>,
    \<open>engine/src/order_book.cpp\<close>, \<open>engine/src/matching_engine.cpp\<close> and the dispatch of
    \<open>engine/src/tcp_server.cpp\<close>. The locale \<open>fifo_queue\<close> is the contract of a price level; the
    intrusive doubly linked list over a heap of nodes is its instance.
  \<^item> \<open>Object_Pool\<close>: \<open>engine/include/object_pool.hpp\<close>, slots and free list; the locale \<open>allocator\<close> is
    its contract. \<open>Spsc_Queue\<close>: \<open>engine/include/spsc_queue.hpp\<close>, with a step for every memory access of
    the two threads and indices that may be seen late; the locale \<open>bounded_queue\<close> is what its users
    rely on. \<open>Engine_Threads\<close>: the I/O thread and the
    engine's thread over two such queues. \<open>Tcp_Server\<close>: \<open>engine/src/tcp_server.cpp\<close>, its connections
    and event loop. \<open>Engine_Process\<close>: \<open>engine/main.cpp\<close>, its command line, and the process in which server
    and engine run together until a signal comes.

  \<^bold>\<open>State and effects.\<close> The simulator is a record with the fields of \<open>Simulator.__init__\<close>; a
  method is a function to the updated record, in a sum type where an exception can escape it.
  The socket is a script of outcomes, one per call of \<open>recv\<close> and \<open>sendall\<close>, so that a theorem
  about all states covers every behaviour of the engine and the network; the browser is a
  list of arrivals per poll; a signal is a predicate on loop iterations. In the engine an order is
  known by its identifier, a level is the queue of its identifiers, the book counts the pool's free
  slots, what the operating system answers the server is an argument of a turn of its loop, and the order in which a hash map is walked is a parameter (\<open>iter\<close>, with
  \<open>iter_ok\<close>). The class-level counter of \<open>BaseAgent\<close> is threaded through the constructors.

  \<^bold>\<open>What is shown.\<close> \<open>Run_Order\<close>: the main loop processes events in time order and all of them.
  \<open>Arena_Invariant\<close>: what holds of every agent and of the metrics in every reachable state.
  \<open>Fill_Ledger\<close>: a fill moves inventory between its two parties. \<open>Run_Total\<close>: a valid
  configuration never leads to an exception. \<open>Samples\<close>: the configuration of
  \<open>config/default.yaml\<close> and sample states. \<open>Wire_Theorems\<close>, \<open>Agent_Theorems\<close>,
  \<open>Market_Theorems\<close> hold the properties of the protocol, the agents and the market components;
  this theory holds those of the whole simulation. For the engine, \<open>Book_Invariant\<close> says what a
  well-formed book is and which ladder of resting orders it stands for; \<open>Book_Operations\<close> what adding,
  shrinking and removing an order do to both; \<open>Match_Refinement\<close> that the matching loop implements
  \<open>spec_match\<close>, price-time priority on the ladder alone; \<open>Engine_Commands\<close> the same for every
  command; \<open>Engine_Total\<close> that the engine answers whatever it is sent; \<open>Engine_Runs\<close> and
  \<open>Engine_Theorems\<close> hold runs, snapshots and the properties. The well-formedness of the book covers
  limit orders; market and iceberg orders are modelled, and the properties say how a filled market
  order breaks it. \<open>Spsc_Queue\<close> shows that the queue is first in, first out without races,
  \<open>Engine_Threads\<close> that the two threads refine the serial engine, \<open>Tcp_Server\<close> what a turn of the event
  loop does for every connection, that the cutting of a stream does not matter, and where the loop
  leaves its vectors. \<open>Engine_Process\<close> puts server and engine together: what every connection is sent is
  what the serial engine says; \<open>Engine_Progress\<close> that all of it can always still be sent. \<open>Engine_Ranges\<close> bounds the engine's numbers, which justifies unbounded integers
  for its 32- and 64-bit fields within the stated limits, and shows orders that exceed them. \<open>Arena_Silence\<close> joins the simulator with the engine's process: what the process
  sends contains no fill, so no agent's position ever changes.

  \<^bold>\<open>Loops.\<close> The loops of the Python process are total functions: over lists and ranges
  by structural recursion, the decoding loop of \<open>poll\<close> by the length of its buffer, the heap's loops by their index, and the
  main loop by the number of price moves left and then the length of the queue, since a price
  move can schedule agent actions while an agent action schedules nothing. The engine's
  matching loop and the walk along a level are partial functions into an option, \<open>None\<close> for not
  ending, and are proved to end. No fuel is used.

  \<^bold>\<open>Not modelled.\<close> Float overflow, NaN, infinities and the sign of zero; the text form of YAML
  and JSON (a configuration is a record of optional keys, a message a JSON value or a parse
  error); console output other than the final report; the static file server; the internals of
  numpy; in the engine, what signed overflow does (undefined in C++; prices and quantities are unbounded
  integers, see \<open>Engine_Ranges\<close>), sides and order types outside their enumerations (a fault of the server's model), the
  reading of the order map by the I/O thread while the engine's thread changes it (the engine it sees
  is an argument), a process that goes on after a connection was opened or closed (its event loop
  leaves its vectors then, so the process is taken up with its connections open), logging; the browser.
\<close>

section \<open>The simulation as a whole\<close>



text \<open>
  C2. Simulated time never runs backwards: in every run, also one that is stopped by a signal
  or ends in an exception, the events are processed in the order of their timestamps, although
  the handlers schedule new events while the loop runs.
\<close>

theorem events_in_time_order:
  "sorted (map timestamp (fst (sim_main np cfg bridge counter outcome stops)))"
proof (cases rule: sim_main_cases [of np cfg bridge counter outcome stops])
  case (started s s1 es r)
  then show ?thesis using run_loop_sorted [OF started(3,5)] by simp
qed simp


text \<open>
  C4. A fill between two agents on opposite sides moves inventory from one to the other: the
  total over all agents is what it was, as long as no agent has used up its block of a
  million identifiers.
\<close>

theorem fill_conserves_inventory:
  assumes "agents_ok (sim_agents s)" "\<forall>(k, a) \<in> set (sim_agents s). within_block (agent_base a)"
    "traded (sim_agents s) f km om kt ot" "ao_side om = 1 \<longleftrightarrow> ao_side ot \<noteq> 1"
  shows "total_inventory (sim_agents (handle_message (Fill_Message f) s)) = total_inventory (sim_agents s)"
  using fill_total [OF assms(1-3)] assms(4) by (auto simp: handle_message_def signed_qty_def)

theorem fill_conserves_inventory_witness:
  "total_inventory (sim_agents (handle_message (Fill_Message sample_fill) sample_sim)) =
     total_inventory (sim_agents sample_sim)"
proof -
  have "sim_agents sample_sim = sample_agents" by (simp add: sample_sim_def)
  then show ?thesis
    using fill_conserves_inventory [of sample_sim sample_fill "''BUYER''" "sample_order 1 0 10000 60"
        "''SELLER''" "sample_order 1000001 1 10000 100"]
      sample_agents_ok sample_within sample_traded by (simp add: sample_order_def)
qed

section \<open>Browser and entry point\<close>



text \<open>
  Started through \<open>run_simulation.py\<close>, every simulation on a valid configuration ends in a
  \<open>TypeError\<close> after its last event: the script takes the length of a value the run does not return.
\<close>

lemma run_simulation_type_error:
  assumes "numpy_ok np" "valid_config cfg"
  shows "run_simulation_main np cfg bridge counter outcome = Inl TypeError"
  using sim_main_total [OF assms, of "Some bridge" counter outcome]
  by (auto simp: run_simulation_main_def sim_main_def py_len_def run_value_def split: sum.splits)

section \<open>The event queue\<close>

text \<open>
  C5. Pushing any events and popping until the queue is empty returns exactly the events that
  were pushed, in the order of their timestamps.
\<close>

theorem event_queue_sorts:
  "mset (eq_drain (foldl eq_push eq_init es)) = mset es \<and>
   sorted (map timestamp (eq_drain (foldl eq_push eq_init es)))"
  using eq.push_all [OF eq.invar_empty, of es] eq_drain_spec [of "foldl eq_push eq_init es"]
  by (simp add: eq_init_def)

end
